(* ===== verification/Prelude.thy ===== *)
theory Prelude
  imports Main "HOL-Library.Word" "HOL-Library.AList"
begin

unbundle bit_operations_syntax

text \<open>
  The shared vocabulary of the development: bytes and machine words, the big-endian
  codecs of Go's \<^verbatim>\<open>encoding/binary\<close>, conversions between Go strings and byte slices,
  the errors the components hand around as values, and the generic lemmas on lists and
  association lists that the component proofs use.

  A Go \<^verbatim>\<open>[]byte\<close> is a list of 8-bit words, a Go \<^verbatim>\<open>string\<close> is an Isabelle
  \<open>string\<close> (a list of 8-bit characters, so \<open>length\<close> counts bytes as \<^verbatim>\<open>len\<close> does), and a
  Go map whose size or iteration matters is an association list with distinct keys.
\<close>

section \<open>Types\<close>

type_synonym byte = "8 word"
type_synonym bytes = "byte list"
type_synonym u16 = "16 word"
type_synonym u32 = "32 word"
type_synonym u64 = "64 word"

text \<open>
  Errors are values. The constructors name the error values the modelled code returns;
  an error that another package makes up is one of the constructors with an argument.
\<close>

datatype go_error =
    EOF                        \<comment> \<open>io.EOF\<close>
  | ErrUnexpectedEOF           \<comment> \<open>io.ErrUnexpectedEOF\<close>
  | ErrClosedPipe              \<comment> \<open>io.ErrClosedPipe\<close>
  | NetErrClosed               \<comment> \<open>net.ErrClosed\<close>
  | ErrDeadlineExceeded        \<comment> \<open>os.ErrDeadlineExceeded\<close>
  | ConnError                  \<comment> \<open>an error of the underlying connection\<close>
  | RateError                  \<comment> \<open>an error of the rate limiter's WaitN\<close>
  | RemoteError string         \<comment> \<open>fmt.Errorf of "remote: %s"\<close>

type_synonym 'a result = "go_error + 'a"

section \<open>Lemma collections\<close>

named_theorems wire_simps \<open>encoding and decoding of frames and headers\<close>
named_theorems str_simps \<open>Go strings and strconv\<close>
named_theorems sess_simps \<open>operations of a session\<close>

section \<open>encoding/binary\<close>

definition PutUint16 :: "u16 \<Rightarrow> bytes" where
  "PutUint16 v = [ucast (drop_bit 8 v), ucast v]"

definition Uint16 :: "bytes \<Rightarrow> u16" where
  "Uint16 b = ucast (b ! 1) OR push_bit 8 (ucast (b ! 0))"

definition PutUint32 :: "u32 \<Rightarrow> bytes" where
  "PutUint32 v = [ucast (drop_bit 24 v), ucast (drop_bit 16 v), ucast (drop_bit 8 v), ucast v]"

definition Uint32 :: "bytes \<Rightarrow> u32" where
  "Uint32 b = ucast (b ! 3) OR push_bit 8 (ucast (b ! 2)) OR
     push_bit 16 (ucast (b ! 1)) OR push_bit 24 (ucast (b ! 0))"

lemma length_PutUint16 [simp]: "length (PutUint16 v) = 2"
  by (simp add: PutUint16_def)

lemma length_PutUint32 [simp]: "length (PutUint32 v) = 4"
  by (simp add: PutUint32_def)

lemma Uint16_Put [wire_simps, simp]: "Uint16 (PutUint16 v @ r) = v"
  by (rule bit_word_eqI) (auto simp: Uint16_def PutUint16_def bit_simps)

lemma Uint32_Put [wire_simps, simp]: "Uint32 (PutUint32 v @ r) = v"
proof (rule bit_word_eqI)
  fix n assume "n < LENGTH(32)"
  then show "bit (Uint32 (PutUint32 v @ r)) n = bit v n"
    by (cases "n < 8"; cases "n < 16"; cases "n < 24")
      (auto simp: Uint32_def PutUint32_def bit_simps)
qed

lemma Uint16_Put' [wire_simps, simp]: "Uint16 (PutUint16 v) = v"
  using Uint16_Put [of v "[]"] by simp

lemma unat_u16_of_nat: "n < 65536 \<Longrightarrow> unat (word_of_nat n :: u16) = n"
  by (simp add: unat_of_nat take_bit_nat_eq_self)

section \<open>Strings and byte slices\<close>

definition bytes_of :: "string \<Rightarrow> bytes" where
  "bytes_of = map (\<lambda>c. word_of_nat (of_char c))"

definition string_of :: "bytes \<Rightarrow> string" where
  "string_of = map (\<lambda>w. char_of (unat w))"

lemma length_bytes_of [simp]: "length (bytes_of s) = length s"
  by (simp add: bytes_of_def)

lemma length_string_of [simp]: "length (string_of b) = length b"
  by (simp add: string_of_def)

lemma bytes_of_eq_Nil [simp]: "bytes_of s = [] \<longleftrightarrow> s = []"
  by (simp add: bytes_of_def)

lemma unat_byte_of_char: "unat (word_of_nat (of_char c) :: byte) = of_char c"
proof -
  have "(of_char c :: nat) < 256" by simp
  then show ?thesis by (simp add: unat_of_nat take_bit_nat_eq_self)
qed

lemma string_of_bytes_of [simp]: "string_of (bytes_of s) = s"
  by (simp add: string_of_def bytes_of_def comp_def unat_byte_of_char)

lemma byte_mod_256: "word_of_nat (unat (w :: byte) mod 256) = w"
proof -
  have "unat w < 256" using unsigned_less [of w, where 'a = nat] by simp
  then show ?thesis by simp
qed

lemma bytes_of_string_of [simp]: "bytes_of (string_of b) = b"
  by (simp add: string_of_def bytes_of_def comp_def byte_mod_256)

section \<open>Association lists used as Go maps\<close>

text \<open>
  \<open>AList.update\<close> overwrites in place or appends, \<open>AList.delete\<close> removes a key, \<open>map_of\<close>
  looks a key up, \<open>length\<close> is Go's \<^verbatim>\<open>len\<close> as long as the keys are distinct.
\<close>

definition distinct_keys :: "('k \<times> 'v) list \<Rightarrow> bool" where
  "distinct_keys al \<longleftrightarrow> distinct (map fst al)"

lemma distinct_keys_Nil [simp, intro]: "distinct_keys []"
  by (simp add: distinct_keys_def)

lemma distinct_keys_update [simp, intro]:
  "distinct_keys al \<Longrightarrow> distinct_keys (AList.update k v al)"
  unfolding distinct_keys_def by (rule distinct_update)

lemma distinct_keys_delete [simp, intro]:
  "distinct_keys al \<Longrightarrow> distinct_keys (AList.delete k al)"
  unfolding distinct_keys_def by (rule distinct_delete)

lemma length_update_new:
  "map_of al k = None \<Longrightarrow> length (AList.update k v al) = Suc (length al)"
  by (induction al) (auto split: if_splits)

lemma length_update_old:
  "map_of al k = Some v' \<Longrightarrow> length (AList.update k v al) = length al"
  by (induction al) (auto split: if_splits)

lemma length_delete_le [simp]: "length (AList.delete k al) \<le> length al"
  by (simp add: AList.delete_eq)

lemma set_delete_subset: "set (AList.delete k al) \<subseteq> set al"
  by (auto simp: AList.delete_eq)

lemma map_of_delete_apply [simp]:
  "map_of (AList.delete k al) k' = (if k' = k then None else map_of al k')"
  using AList.delete_conv' [of k al] by (simp add: fun_eq_iff)

lemma map_of_update_apply [simp]:
  "map_of (AList.update k v al) k' = (if k' = k then Some v else map_of al k')"
  by (simp add: update_conv')

lemma map_of_SomeI: "distinct_keys al \<Longrightarrow> (k, v) \<in> set al \<Longrightarrow> map_of al k = Some v"
  by (simp add: distinct_keys_def)

section \<open>Lists\<close>

lemma take_append_drop_eq: "n \<le> length xs \<Longrightarrow> xs = take n xs @ drop n xs"
  by simp

lemma concat_snoc [simp]: "concat (xss @ [xs]) = concat xss @ xs"
  by simp

lemma length_update_le: "length (AList.update k v m) \<le> Suc (length m)"
  by (induction m) auto

end
