(* ===== verification/Frame.thy ===== *)
theory Frame
  imports Prelude
begin

text \<open>
  The frames of the session layer (\<^verbatim>\<open>proxy/session/frame.go\<close>): the commands, the 7-byte
  header (command, big-endian stream id, big-endian payload length), the encoding the
  writers build, and the decoding the receive loop performs. The receive loop reads a
  payload only for the commands that may carry one, so decoding depends on the command.
\<close>

section \<open>Commands\<close>

definition cmdWaste :: byte where "cmdWaste = 0"
definition cmdSYN :: byte where "cmdSYN = 1"
definition cmdPSH :: byte where "cmdPSH = 2"
definition cmdFIN :: byte where "cmdFIN = 3"
definition cmdSettings :: byte where "cmdSettings = 4"
definition cmdAlert :: byte where "cmdAlert = 5"
definition cmdUpdatePaddingScheme :: byte where "cmdUpdatePaddingScheme = 6"
definition cmdSYNACK :: byte where "cmdSYNACK = 7"
definition cmdHeartRequest :: byte where "cmdHeartRequest = 8"
definition cmdHeartResponse :: byte where "cmdHeartResponse = 9"
definition cmdServerSettings :: byte where "cmdServerSettings = 10"

lemmas cmd_defs = cmdWaste_def cmdSYN_def cmdPSH_def cmdFIN_def cmdSettings_def cmdAlert_def
  cmdUpdatePaddingScheme_def cmdSYNACK_def cmdHeartRequest_def cmdHeartResponse_def
  cmdServerSettings_def

definition headerOverHeadSize :: nat where
  "headerOverHeadSize = 1 + 4 + 2"

definition maxFramePayload :: nat where
  "maxFramePayload = 65535"

lemma headerOverHeadSize_eq [simp]: "headerOverHeadSize = 7"
  by (simp add: headerOverHeadSize_def)

lemma maxFramePayload_eq [simp]: "maxFramePayload = 65535"
  by (simp add: maxFramePayload_def)

section \<open>Frames and headers\<close>

record frame =
  f_cmd :: byte
  f_sid :: u32
  f_data :: bytes

definition newFrame :: "byte \<Rightarrow> u32 \<Rightarrow> frame" where
  "newFrame c s = \<lparr>f_cmd = c, f_sid = s, f_data = []\<rparr>"

type_synonym rawHeader = bytes

definition rawHeader_Cmd :: "rawHeader \<Rightarrow> byte" where
  "rawHeader_Cmd h = h ! 0"

definition rawHeader_StreamID :: "rawHeader \<Rightarrow> u32" where
  "rawHeader_StreamID h = Uint32 (drop 1 h)"

definition rawHeader_Length :: "rawHeader \<Rightarrow> u16" where
  "rawHeader_Length h = Uint16 (drop 5 h)"

text \<open>
  The bytes a writer puts on the wire for a frame. The length field is
  \<^verbatim>\<open>uint16(len(data))\<close>, which wraps for a payload above 65535 bytes.
\<close>

definition encode_frame :: "frame \<Rightarrow> bytes" where
  "encode_frame f =
     f_cmd f # PutUint32 (f_sid f) @ PutUint16 (word_of_nat (length (f_data f))) @ f_data f"

text \<open>The commands whose payload the receive loop reads off the connection.\<close>

definition carries_data :: "byte \<Rightarrow> bool" where
  "carries_data c \<longleftrightarrow> c \<in> {cmdPSH, cmdSYNACK, cmdWaste, cmdSettings, cmdAlert,
     cmdUpdatePaddingScheme, cmdServerSettings}"

definition wf_frame :: "frame \<Rightarrow> bool" where
  "wf_frame f \<longleftrightarrow> length (f_data f) \<le> maxFramePayload \<and>
     (f_data f \<noteq> [] \<longrightarrow> carries_data (f_cmd f))"

text \<open>One header and, where the command has one, its payload.\<close>

definition decode_frame :: "bytes \<Rightarrow> (frame \<times> bytes) option" where
  "decode_frame b =
     (if length b < headerOverHeadSize then None
      else let h = take headerOverHeadSize b; r = drop headerOverHeadSize b;
               n = (if carries_data (rawHeader_Cmd h) then unat (rawHeader_Length h) else 0)
           in if length r < n then None
              else Some (\<lparr>f_cmd = rawHeader_Cmd h, f_sid = rawHeader_StreamID h,
                          f_data = take n r\<rparr>, drop n r))"

lemma decode_frame_shorter:
  "decode_frame b = Some (f, r) \<Longrightarrow> length r < length b"
  by (auto simp: decode_frame_def Let_def split: if_splits)

text \<open>All the frames at the front of a byte stream, and the bytes left over.\<close>

function decode_frames :: "bytes \<Rightarrow> frame list \<times> bytes" where
  "decode_frames b =
     (case decode_frame b of
        None \<Rightarrow> ([], b)
      | Some (f, r) \<Rightarrow> (let (fs, e) = decode_frames r in (f # fs, e)))"
  by pat_completeness auto
termination
  by (relation "measure length") (auto dest: decode_frame_shorter)

declare decode_frames.simps [simp del]

section \<open>Round trip\<close>

lemma length_encode_frame [simp]: "length (encode_frame f) = 7 + length (f_data f)"
  by (simp add: encode_frame_def)

lemma header_encode_frame:
  assumes "h = take 7 (encode_frame f @ r)"
  shows "rawHeader_Cmd h = f_cmd f" "rawHeader_StreamID h = f_sid f"
    "rawHeader_Length h = word_of_nat (length (f_data f))"
proof -
  have h: "h = f_cmd f # PutUint32 (f_sid f) @ PutUint16 (word_of_nat (length (f_data f)))"
    using assms by (simp add: encode_frame_def)
  then show "rawHeader_Cmd h = f_cmd f" "rawHeader_StreamID h = f_sid f"
    by (simp_all add: rawHeader_Cmd_def rawHeader_StreamID_def)
  have "drop 5 h = PutUint16 (word_of_nat (length (f_data f)))"
    using h by (simp add: drop_Cons')
  then show "rawHeader_Length h = word_of_nat (length (f_data f))"
    by (simp add: rawHeader_Length_def)
qed

lemma drop_encode_frame: "drop 7 (encode_frame f @ r) = f_data f @ r"
  by (simp add: encode_frame_def drop_Cons')

lemma decode_encode_frame [wire_simps, simp]:
  assumes "wf_frame f"
  shows "decode_frame (encode_frame f @ r) = Some (f, r)"
proof -
  let ?h = "take 7 (encode_frame f @ r)"
  let ?n = "if carries_data (rawHeader_Cmd ?h) then unat (rawHeader_Length ?h) else 0"
  note h = header_encode_frame [of ?h f r, OF refl]
  have n: "(if carries_data (f_cmd f) then unat (word_of_nat (length (f_data f)) :: u16) else 0)
      = length (f_data f)"
    using assms unfolding wf_frame_def by (auto simp: unat_u16_of_nat)
  have "decode_frame (encode_frame f @ r) =
      (if length (f_data f @ r) < ?n then None
       else Some (\<lparr>f_cmd = rawHeader_Cmd ?h, f_sid = rawHeader_StreamID ?h,
                   f_data = take ?n (f_data f @ r)\<rparr>, drop ?n (f_data f @ r)))"
    by (simp only: decode_frame_def Let_def headerOverHeadSize_eq drop_encode_frame) simp
  then show ?thesis by (simp only: h n) simp
qed

lemma decode_frames_Nil [simp]: "decode_frames [] = ([], [])"
  by (subst decode_frames.simps) (simp add: decode_frame_def)

lemma decode_frames_encode [wire_simps]:
  "wf_frame f \<Longrightarrow>
   decode_frames (encode_frame f @ r) = (f # fst (decode_frames r), snd (decode_frames r))"
  by (subst decode_frames.simps) (simp add: case_prod_unfold Let_def)

lemma decode_frames_concat:
  "\<forall>f \<in> set fs. wf_frame f \<Longrightarrow>
   decode_frames (concat (map encode_frame fs) @ r) =
     (fs @ fst (decode_frames r), snd (decode_frames r))"
  by (induction fs) (auto simp: decode_frames_encode)

text \<open>Decoding goes on undisturbed behind a stream that decodes without remainder.\<close>

lemma decode_frame_append:
  "decode_frame b = Some (f, r) \<Longrightarrow> decode_frame (b @ t) = Some (f, r @ t)"
  by (auto simp: decode_frame_def Let_def split: if_splits)

lemma decode_frames_append:
  "snd (decode_frames b) = [] \<Longrightarrow>
   decode_frames (b @ t) = (fst (decode_frames b) @ fst (decode_frames t), snd (decode_frames t))"
proof (induction b rule: decode_frames.induct)
  case (1 b)
  show ?case
  proof (cases "decode_frame b")
    case None
    then have "b = []" using "1.prems" by (simp add: decode_frames.simps [of b])
    then show ?thesis by simp
  next
    case (Some fr)
    then obtain f r where fr: "decode_frame b = Some (f, r)" by (cases fr) auto
    then have "snd (decode_frames r) = []"
      using "1.prems" by (simp add: decode_frames.simps [of b] case_prod_unfold Let_def)
    then have "decode_frames (r @ t)
        = (fst (decode_frames r) @ fst (decode_frames t), snd (decode_frames t))"
      using "1.IH" [OF fr] by simp
    then show ?thesis using fr
      by (simp add: decode_frames.simps [of b] decode_frames.simps [of "b @ t"]
          decode_frame_append case_prod_unfold Let_def)
  qed
qed

lemma decode_frames_concat':
  "\<forall>f \<in> set fs. wf_frame f \<Longrightarrow> decode_frames (concat (map encode_frame fs)) = (fs, [])"
  using decode_frames_concat [of fs "[]"] by simp

end
