(* ===== verification/Go_Strings.thy ===== *)
theory Go_Strings
  imports Prelude
begin

text \<open>
  The parts of Go's \<^verbatim>\<open>strings\<close> and \<^verbatim>\<open>strconv\<close> packages that the program calls, on byte
  strings. \<^verbatim>\<open>ToLower\<close>, \<^verbatim>\<open>TrimSpace\<close> and \<^verbatim>\<open>EqualFold\<close> are modelled on ASCII: a byte above
  127 is left alone and is not white space, so the Unicode case mapping of non-ASCII names
  is outside the model. Parsing numbers returns \<open>None\<close> where Go returns an error.
\<close>

section \<open>strings\<close>

fun Split :: "char \<Rightarrow> string \<Rightarrow> string list" where
  "Split sep [] = [[]]"
| "Split sep (c # cs) =
     (if c = sep then [] # Split sep cs
      else case Split sep cs of [] \<Rightarrow> [[c]] | p # ps \<Rightarrow> (c # p) # ps)"

text \<open>\<^verbatim>\<open>strings.SplitN(s, sep, 2)\<close>: one part when the separator is absent, else two.\<close>

definition SplitN2 :: "char \<Rightarrow> string \<Rightarrow> string list" where
  "SplitN2 sep s =
     (if sep \<in> set s
      then [takeWhile (\<lambda>c. c \<noteq> sep) s, tl (dropWhile (\<lambda>c. c \<noteq> sep) s)]
      else [s])"

fun Join :: "string list \<Rightarrow> string \<Rightarrow> string" where
  "Join [] sep = []"
| "Join [p] sep = p"
| "Join (p # q # ps) sep = p @ sep @ Join (q # ps) sep"

definition is_space :: "char \<Rightarrow> bool" where
  "is_space c \<longleftrightarrow> (let n = of_char c :: nat in n = 32 \<or> 9 \<le> n \<and> n \<le> 13)"

definition TrimSpace :: "string \<Rightarrow> string" where
  "TrimSpace s = rev (dropWhile is_space (rev (dropWhile is_space s)))"

definition TrimRight :: "string \<Rightarrow> char \<Rightarrow> string" where
  "TrimRight s c = rev (dropWhile (\<lambda>d. d = c) (rev s))"

definition lower_char :: "char \<Rightarrow> char" where
  "lower_char c = (let n = of_char c :: nat in if 65 \<le> n \<and> n \<le> 90 then char_of (n + 32) else c)"

definition ToLower :: "string \<Rightarrow> string" where
  "ToLower = map lower_char"

definition EqualFold :: "string \<Rightarrow> string \<Rightarrow> bool" where
  "EqualFold s t \<longleftrightarrow> ToLower s = ToLower t"

definition HasPrefix :: "string \<Rightarrow> string \<Rightarrow> bool" where
  "HasPrefix s p \<longleftrightarrow> take (length p) s = p"

definition HasSuffix :: "string \<Rightarrow> string \<Rightarrow> bool" where
  "HasSuffix s p \<longleftrightarrow> length p \<le> length s \<and> drop (length s - length p) s = p"

fun Contains :: "string \<Rightarrow> string \<Rightarrow> bool" where
  "Contains [] p = (p = [])"
| "Contains (c # cs) p = (HasPrefix (c # cs) p \<or> Contains cs p)"

subsection \<open>Facts about splitting and joining\<close>

lemma Split_neq_Nil [simp]: "Split sep s \<noteq> []"
  by (cases s) (auto split: list.splits)

lemma Split_no_sep: "sep \<notin> set s \<Longrightarrow> Split sep s = [s]"
  by (induction s) auto

lemma Split_append_sep: "sep \<notin> set s \<Longrightarrow> Split sep (s @ sep # t) = s # Split sep t"
  by (induction s) auto

lemma Split_parts: "p \<in> set (Split sep s) \<Longrightarrow> sep \<notin> set p"
proof (induction s arbitrary: p)
  case Nil
  then show ?case by simp
next
  case (Cons c cs)
  obtain q qs where "Split sep cs = q # qs"
    by (cases "Split sep cs") auto
  with Cons show ?case by (auto split: if_splits)
qed

lemma Join_Split: "Join (Split sep s) [sep] = s"
proof (induction s)
  case Nil
  then show ?case by simp
next
  case (Cons c cs)
  obtain q qs where q: "Split sep cs = q # qs"
    by (cases "Split sep cs") auto
  with Cons show ?case by (cases qs) auto
qed

lemma Split_Join:
  "ps \<noteq> [] \<Longrightarrow> \<forall>p \<in> set ps. sep \<notin> set p \<Longrightarrow> Split sep (Join ps [sep]) = ps"
proof (induction ps "[sep]" rule: Join.induct)
  case (2 p)
  then show ?case by (simp add: Split_no_sep)
next
  case (3 p q ps)
  then show ?case by (simp add: Split_append_sep)
qed simp

lemma span_neq_append:
  "sep \<notin> set k \<Longrightarrow> takeWhile (\<lambda>c. c \<noteq> sep) (k @ sep # v) = k"
  "sep \<notin> set k \<Longrightarrow> dropWhile (\<lambda>c. c \<noteq> sep) (k @ sep # v) = sep # v"
  by (induction k) auto

lemma SplitN2_pair:
  "sep \<notin> set k \<Longrightarrow> SplitN2 sep (k @ sep # v) = [k, v]"
  by (simp add: SplitN2_def span_neq_append)

lemma HasSuffix_append: "HasSuffix s p \<longleftrightarrow> (\<exists>q. s = q @ p)"
proof
  assume "HasSuffix s p"
  then have "s = take (length s - length p) s @ p"
    by (metis HasSuffix_def append_take_drop_id)
  then show "\<exists>q. s = q @ p" by blast
qed (auto simp: HasSuffix_def)

lemma HasPrefix_append: "HasPrefix s p \<longleftrightarrow> (\<exists>q. s = p @ q)"
  unfolding HasPrefix_def by (metis append_eq_conv_conj append_take_drop_id)

lemma Contains_append: "Contains s p \<longleftrightarrow> (\<exists>q r. s = q @ p @ r)"
proof (induction s)
  case Nil
  then show ?case by auto
next
  case (Cons c cs)
  have "(\<exists>q r. c # cs = q @ p @ r) \<longleftrightarrow> (\<exists>r. c # cs = p @ r) \<or> (\<exists>q r. cs = q @ p @ r)"
    by (metis Cons_eq_append_conv append_Cons append_Nil)
  with Cons show ?case by (simp add: HasPrefix_append)
qed

subsection \<open>Facts about trimming and case\<close>

lemma TrimSpace_Nil [simp]: "TrimSpace [] = []"
  by (simp add: TrimSpace_def)

lemma dropWhile_hd: "dropWhile P xs = y # ys \<Longrightarrow> \<not> P y"
  by (metis hd_dropWhile list.distinct(1) list.sel(1))

lemma TrimSpace_infix: "\<exists>l r. s = l @ TrimSpace s @ r"
proof -
  let ?t = "dropWhile is_space s"
  have "s = takeWhile is_space s @ ?t" by simp
  moreover have "?t = TrimSpace s @ rev (takeWhile is_space (rev ?t))"
    unfolding TrimSpace_def by (metis rev_append rev_rev_ident takeWhile_dropWhile_id)
  ultimately show ?thesis by metis
qed

lemma set_TrimSpace: "set (TrimSpace s) \<subseteq> set s"
  by (auto simp: TrimSpace_def dest!: set_dropWhileD)

lemma TrimSpace_ends:
  assumes "TrimSpace s \<noteq> []"
  shows "\<not> is_space (hd (TrimSpace s)) \<and> \<not> is_space (last (TrimSpace s))"
proof -
  let ?t = "dropWhile is_space s"
  have ne: "dropWhile is_space (rev ?t) \<noteq> []" using assms by (simp add: TrimSpace_def)
  then have last: "\<not> is_space (hd (dropWhile is_space (rev ?t)))" by (rule hd_dropWhile)
  obtain r where t: "?t = TrimSpace s @ r"
    unfolding TrimSpace_def by (metis rev_append rev_rev_ident takeWhile_dropWhile_id)
  with assms have "hd ?t = hd (TrimSpace s)" and "?t \<noteq> []" by auto
  with hd_dropWhile [of is_space s] have "\<not> is_space (hd (TrimSpace s))" by simp
  moreover have "last (TrimSpace s) = hd (dropWhile is_space (rev ?t))"
    using ne by (simp add: TrimSpace_def last_rev)
  ultimately show ?thesis using last by simp
qed

lemma lower_char_idem [simp]: "lower_char (lower_char c) = lower_char c"
  by (auto simp: lower_char_def Let_def)

lemma ToLower_idem [simp]: "ToLower (ToLower s) = ToLower s"
  by (simp add: ToLower_def)

lemma length_ToLower [simp]: "length (ToLower s) = length s"
  by (simp add: ToLower_def)

lemma TrimRight_Nil [simp]: "TrimRight [] c = []"
  by (simp add: TrimRight_def)

lemma TrimRight_last: "TrimRight s c \<noteq> [] \<Longrightarrow> last (TrimRight s c) \<noteq> c"
  using hd_dropWhile [of "\<lambda>d. d = c" "rev s"] by (auto simp: TrimRight_def last_rev)

lemma TrimRight_idem [simp]: "TrimRight (TrimRight s c) c = TrimRight s c"
  by (simp add: TrimRight_def)

section \<open>strconv\<close>

definition is_digit :: "char \<Rightarrow> bool" where
  "is_digit c \<longleftrightarrow> (let n = of_char c :: nat in 48 \<le> n \<and> n \<le> 57)"

definition digit_val :: "char \<Rightarrow> nat" where
  "digit_val c = of_char c - 48"

definition digit_char :: "nat \<Rightarrow> char" where
  "digit_char d = char_of (48 + d)"

fun parse_digits :: "nat \<Rightarrow> string \<Rightarrow> nat option" where
  "parse_digits acc [] = Some acc"
| "parse_digits acc (c # cs) =
     (if is_digit c then parse_digits (acc * 10 + digit_val c) cs else None)"

text \<open>\<^verbatim>\<open>strconv.ParseUint(s, 10, w)\<close>.\<close>

definition ParseUint :: "nat \<Rightarrow> string \<Rightarrow> nat option" where
  "ParseUint w s =
     (if s = [] then None
      else case parse_digits 0 s of
        None \<Rightarrow> None
      | Some v \<Rightarrow> if v < 2 ^ w then Some v else None)"

text \<open>
  \<^verbatim>\<open>strconv.ParseInt(s, 10, 64)\<close>, which \<^verbatim>\<open>strconv.Atoi\<close> equals on a 64-bit platform:
  one optional sign, then digits.
\<close>

definition ParseInt64 :: "string \<Rightarrow> int option" where
  "ParseInt64 s =
     (case s of
        [] \<Rightarrow> None
      | c # cs \<Rightarrow>
          (let neg = (c = CHR ''-'');
               body = (if c = CHR ''-'' \<or> c = CHR ''+'' then cs else s)
           in case ParseUint 64 body of
                None \<Rightarrow> None
              | Some un \<Rightarrow>
                  if \<not> neg \<and> un \<ge> 2 ^ 63 then None
                  else if neg \<and> un > 2 ^ 63 then None
                  else Some (if neg then - int un else int un)))"

abbreviation (input) Atoi :: "string \<Rightarrow> int option" where
  "Atoi \<equiv> ParseInt64"

text \<open>\<^verbatim>\<open>strconv.Itoa\<close> and \<^verbatim>\<open>strconv.FormatUint(_, 10)\<close> on non-negative numbers.\<close>

fun FormatUint :: "nat \<Rightarrow> string" where
  "FormatUint n = (if n < 10 then [digit_char n] else FormatUint (n div 10) @ [digit_char (n mod 10)])"

declare FormatUint.simps [simp del]

lemma digit_char_props [simp]:
  "d < 10 \<Longrightarrow> is_digit (digit_char d)"
  "d < 10 \<Longrightarrow> digit_val (digit_char d) = d"
  by (simp_all add: is_digit_def digit_val_def digit_char_def Let_def)

lemma parse_digits_append:
  "parse_digits a (s @ t) =
     (case parse_digits a s of None \<Rightarrow> None | Some b \<Rightarrow> parse_digits b t)"
  by (induction s arbitrary: a) auto

lemma FormatUint_neq_Nil [simp]: "FormatUint n \<noteq> []"
  by (subst FormatUint.simps) simp

lemma parse_digits_FormatUint: "parse_digits 0 (FormatUint n) = Some n"
proof (induction n rule: FormatUint.induct)
  case (1 n)
  show ?case
  proof (cases "n < 10")
    case True
    then show ?thesis by (subst FormatUint.simps) simp
  next
    case False
    with 1 have "parse_digits 0 (FormatUint (n div 10)) = Some (n div 10)" by simp
    moreover from False have "FormatUint n = FormatUint (n div 10) @ [digit_char (n mod 10)]"
      by (subst FormatUint.simps) simp
    ultimately show ?thesis by (simp add: parse_digits_append)
  qed
qed

lemma ParseUint_FormatUint: "n < 2 ^ w \<Longrightarrow> ParseUint w (FormatUint n) = Some n"
  by (simp add: ParseUint_def parse_digits_FormatUint)

lemma ParseUint_bound: "ParseUint w s = Some v \<Longrightarrow> v < 2 ^ w"
  by (auto simp: ParseUint_def split: if_splits option.splits)

lemma ParseInt64_range: "ParseInt64 s = Some v \<Longrightarrow> - (2 ^ 63) \<le> v \<and> v < 2 ^ 63"
  by (auto simp: ParseInt64_def Let_def split: if_splits option.splits list.splits)

lemma parse_digits_all_digits: "parse_digits a s = Some v \<Longrightarrow> \<forall>c \<in> set s. is_digit c"
  by (induction s arbitrary: a) (auto split: if_splits)

text \<open>Evaluation of the number parsers on literals by rewriting.\<close>

lemmas parse_eval = ParseInt64_def ParseUint_def is_digit_def digit_val_def Let_def

lemma inj_FormatUint: "FormatUint m = FormatUint n \<Longrightarrow> m = n"
  by (metis option.inject parse_digits_FormatUint)

lemma set_FormatUint: "c \<in> set (FormatUint n) \<Longrightarrow> is_digit c"
  using parse_digits_all_digits [OF parse_digits_FormatUint] by blast

lemma FormatUint_plain:
  "CHR ''-'' \<notin> set (FormatUint n)" "CHR ''/'' \<notin> set (FormatUint n)" "FormatUint n \<noteq> ''*''"
  "ToLower (FormatUint n) = FormatUint n"
proof -
  have nd: "\<not> is_digit (CHR ''-'')" "\<not> is_digit (CHR ''/'')" "\<not> is_digit (CHR ''*'')" by code_simp+
  then show "CHR ''-'' \<notin> set (FormatUint n)" "CHR ''/'' \<notin> set (FormatUint n)" using set_FormatUint by blast+
  show "FormatUint n \<noteq> ''*''" using nd(3) set_FormatUint [of "CHR ''*''" n] by auto
  have "lower_char c = c" if "is_digit c" for c using that by (simp add: lower_char_def is_digit_def Let_def)
  then show "ToLower (FormatUint n) = FormatUint n" using set_FormatUint by (simp add: ToLower_def map_idI)
qed

lemma TrimSpace_digits:
  assumes "s \<noteq> []" "is_digit (hd s)" "is_digit (last s)"
  shows "TrimSpace s = s"
proof -
  have sp: "is_digit c \<Longrightarrow> \<not> is_space c" for c by (auto simp: is_space_def is_digit_def Let_def)
  have "dropWhile is_space s = s" using assms sp by (cases s) auto
  moreover have "dropWhile is_space (rev s) = rev s" using assms sp by (cases s rule: rev_cases) auto
  ultimately show ?thesis by (simp add: TrimSpace_def)
qed

section \<open>regexp and net helpers\<close>

text \<open>The class \<^verbatim>\<open>\s\<close> of Go's regular expressions.\<close>

definition is_re_space :: "char \<Rightarrow> bool" where
  "is_re_space c \<longleftrightarrow> (let n = of_char c :: nat in n = 32 \<or> n = 9 \<or> n = 10 \<or> n = 12 \<or> n = 13)"

text \<open>
  \<^verbatim>\<open>net.SplitHostPort\<close>: the port follows the last colon; a host with colons has to stand in
  brackets, and no other bracket is allowed.
\<close>

definition SplitHostPort :: "string \<Rightarrow> (string \<times> string) option" where
  "SplitHostPort hp =
     (let port = rev (takeWhile (\<lambda>c. c \<noteq> CHR '':'') (rev hp));
          before = take (length hp - Suc (length port)) hp
      in if CHR '':'' \<notin> set hp then None
         else if hd hp = CHR ''['' then
           (let inner = takeWhile (\<lambda>c. c \<noteq> CHR '']'') hp
            in if CHR '']'' \<notin> set hp \<or> Suc (length inner) \<noteq> length before then None
               else if CHR ''['' \<in> set (tl hp) \<or> CHR '']'' \<in> set (drop (Suc (length inner)) hp) then None
               else Some (tl inner, port))
         else if CHR '':'' \<in> set before \<or> CHR ''['' \<in> set hp \<or> CHR '']'' \<in> set hp then None
         else Some (before, port))"

definition JoinHostPort :: "string \<Rightarrow> string \<Rightarrow> string" where
  "JoinHostPort host port =
     (if CHR '':'' \<in> set host then ''['' @ host @ '']:'' @ port else host @ '':'' @ port)"

lemma SplitHostPort_Join:
  assumes "CHR ''['' \<notin> set host" "CHR '']'' \<notin> set host"
    and "CHR '':'' \<notin> set port" "CHR ''['' \<notin> set port" "CHR '']'' \<notin> set port"
  shows "SplitHostPort (JoinHostPort host port) = Some (host, port)"
proof -
  have port: "rev (takeWhile (\<lambda>c. c \<noteq> CHR '':'') (rev (x @ '':'' @ port))) = port" for x
    using span_neq_append(1) [of "CHR '':''" "rev port" "rev x"] assms(3) by simp
  show ?thesis
  proof (cases "CHR '':'' \<in> set host")
    case True
    have p: "rev (takeWhile (\<lambda>c. c \<noteq> CHR '':'') (rev (''['' @ host @ '']:'' @ port))) = port"
      using port [of "''['' @ host @ '']''"] by simp
    have i: "takeWhile (\<lambda>c. c \<noteq> CHR '']'') (''['' @ host @ '']:'' @ port) = CHR ''['' # host"
      using span_neq_append(1) [of "CHR '']''" host "CHR '':'' # port"] assms(2) by simp
    show ?thesis using True unfolding JoinHostPort_def SplitHostPort_def Let_def
      by (simp only: if_True p i) (use assms in simp)
  next
    case False
    have "hd (host @ '':'' @ port) \<noteq> CHR ''[''" using assms(1) by (cases host) auto
    then show ?thesis using False unfolding JoinHostPort_def SplitHostPort_def Let_def
      by (simp only: if_False port) (use assms in simp)
  qed
qed

end
