(* ===== verification/String_Map.thy ===== *)
theory String_Map
  imports Go_Strings
begin

text \<open>
  \<^verbatim>\<open>util/string_map.go\<close>: the \<^verbatim>\<open>key=value\<close> lines that carry the settings of both peers and the
  padding scheme. A \<^verbatim>\<open>StringMap\<close> is an association list with distinct keys; its order stands
  for the order in which Go happens to iterate the map in \<^verbatim>\<open>ToBytes\<close>, so a statement for
  every association list covers every iteration order.
\<close>

type_synonym StringMap = "(string \<times> string) list"

abbreviation newline :: char where
  "newline \<equiv> CHR 0x0A"

definition StringMap_ToBytes :: "StringMap \<Rightarrow> bytes" where
  "StringMap_ToBytes s = bytes_of (Join (map (\<lambda>(k, v). k @ ''='' @ v) s) [newline])"

definition add_line :: "StringMap \<Rightarrow> string \<Rightarrow> StringMap" where
  "add_line m line =
     (let v = SplitN2 (CHR ''='') line
      in if length v = 2 then AList.update (v ! 0) (v ! 1) m else m)"

definition StringMapFromBytes :: "bytes \<Rightarrow> StringMap" where
  "StringMapFromBytes b = foldl add_line [] (Split newline (string_of b))"

text \<open>Indexing a Go map with a missing key yields the empty string.\<close>

definition StringMap_get :: "StringMap \<Rightarrow> string \<Rightarrow> string" where
  "StringMap_get m k = (case map_of m k of None \<Rightarrow> '''' | Some v \<Rightarrow> v)"

text \<open>The maps that survive the line format.\<close>

definition line_safe :: "StringMap \<Rightarrow> bool" where
  "line_safe m \<longleftrightarrow>
     (\<forall>(k, v) \<in> set m. CHR ''='' \<notin> set k \<and> newline \<notin> set k \<and> newline \<notin> set v)"

lemma distinct_keys_add_line [simp]: "distinct_keys m \<Longrightarrow> distinct_keys (add_line m l)"
  by (simp add: add_line_def Let_def)

lemma distinct_keys_foldl_add_line:
  "distinct_keys m \<Longrightarrow> distinct_keys (foldl add_line m ls)"
  by (induction ls arbitrary: m) simp_all

lemma distinct_keys_FromBytes: "distinct_keys (StringMapFromBytes b)"
  by (simp add: StringMapFromBytes_def distinct_keys_foldl_add_line)

lemma add_line_pair:
  "CHR ''='' \<notin> set k \<Longrightarrow> add_line m (k @ ''='' @ v) = AList.update k v m"
  by (simp add: add_line_def SplitN2_pair)

lemma update_fresh: "k \<notin> fst ` set m \<Longrightarrow> AList.update k v m = m @ [(k, v)]"
  by (induction m) auto

lemma foldl_add_line_pairs:
  assumes "distinct_keys (m @ ps)" and "line_safe ps"
  shows "foldl add_line m (map (\<lambda>(k, v). k @ ''='' @ v) ps) = m @ ps"
  using assms
proof (induction ps arbitrary: m)
  case Nil
  then show ?case by simp
next
  case (Cons p ps)
  obtain k v where p: "p = (k, v)" by (cases p)
  have k: "CHR ''='' \<notin> set k" and safe: "line_safe ps"
    using Cons.prems(2) p by (auto simp: line_safe_def)
  have fresh: "k \<notin> fst ` set m" and dist: "distinct_keys ((m @ [(k, v)]) @ ps)"
    using Cons.prems(1) p by (auto simp: distinct_keys_def)
  have "add_line m (k @ ''='' @ v) = m @ [(k, v)]"
    using add_line_pair [OF k] update_fresh [OF fresh] by (rule trans)
  moreover have "foldl add_line (m @ [(k, v)]) (map (\<lambda>(k, v). k @ ''='' @ v) ps)
      = (m @ [(k, v)]) @ ps"
    using dist safe by (rule Cons.IH)
  ultimately show ?case by (simp add: p)
qed

lemma FromBytes_ToBytes:
  assumes "distinct_keys m" and "line_safe m"
  shows "StringMapFromBytes (StringMap_ToBytes m) = m"
proof (cases "m = []")
  case True
  then show ?thesis
    by (simp add: StringMapFromBytes_def StringMap_ToBytes_def add_line_def SplitN2_def)
next
  case False
  let ?ls = "map (\<lambda>(k, v). k @ ''='' @ v) m"
  have "\<forall>p \<in> set ?ls. newline \<notin> set p"
    using assms(2) by (auto simp: line_safe_def)
  then have "Split newline (Join ?ls [newline]) = ?ls"
    using False by (intro Split_Join) simp_all
  then show ?thesis
    using foldl_add_line_pairs [of "[]" m] assms
    by (simp add: StringMapFromBytes_def StringMap_ToBytes_def)
qed

text \<open>C23. Reading back the lines a map was written as yields the same map, whatever order the
  keys were iterated in, as long as no key holds \<^verbatim>\<open>=\<close> or a line feed and no value holds a line
  feed.\<close>

theorem StringMap_round_trip:
  assumes "distinct_keys m" and "line_safe m"
  shows "StringMapFromBytes (StringMap_ToBytes m) = m
    \<and> StringMap_get (StringMapFromBytes (StringMap_ToBytes m)) k = StringMap_get m k"
  by (simp add: FromBytes_ToBytes [OF assms])

theorem StringMap_round_trip_witness:
  "StringMapFromBytes (StringMap_ToBytes [(''v'', ''2''), (''client'', ''a=b'')])
     = [(''v'', ''2''), (''client'', ''a=b'')]"
  using StringMap_round_trip [of "[(''v'', ''2''), (''client'', ''a=b'')]" "''v''"]
  by (simp add: distinct_keys_def line_safe_def)

end
