(* ===== verification/Padding.thy ===== *)
theory Padding
  imports String_Map
begin

text \<open>
  \<^verbatim>\<open>proxy/padding/padding.go\<close>: the padding scheme a client downloads from the server and the
  packet sizes it prescribes. \<^verbatim>\<open>crypto/md5\<close> enters as an argument (only equality of digests
  matters to the program) and \<^verbatim>\<open>crypto/rand\<close> as a source \<open>rnd\<close> of natural numbers, one per
  range of the scheme, reduced into the interval that \<^verbatim>\<open>rand.Int\<close> draws from.
\<close>

definition CheckMark :: int where
  "CheckMark = -1"

text \<open>The lines of the built-in scheme, joined by line feeds.\<close>

definition defaultPaddingScheme :: bytes where
  "defaultPaddingScheme = bytes_of (Join
     [''stop=8'',
      ''0=30-30'',
      ''1=100-400'',
      ''2=400-500,c,500-1000,c,500-1000,c,500-1000,c,500-1000'',
      ''3=9-9,500-1000'',
      ''4=500-1000'',
      ''5=500-1000'',
      ''6=500-1000'',
      ''7=500-1000''] [newline])"

record PaddingFactory =
  pf_scheme :: StringMap
  pf_RawScheme :: bytes
  pf_Stop :: u32
  pf_Md5 :: string

definition NewPaddingFactory :: "(bytes \<Rightarrow> string) \<Rightarrow> bytes \<Rightarrow> PaddingFactory option" where
  "NewPaddingFactory md5hex rawScheme =
     (let scheme = StringMapFromBytes rawScheme
      in if length scheme = 0 then None
         else case Atoi (StringMap_get scheme ''stop'') of
           None \<Rightarrow> None
         | Some stop \<Rightarrow>
             Some \<lparr>pf_scheme = scheme, pf_RawScheme = rawScheme,
                   pf_Stop = word_of_int stop, pf_Md5 = md5hex rawScheme\<rparr>)"

text \<open>
  \<^verbatim>\<open>UpdatePaddingScheme\<close> replaces the shared factory if the scheme parses and reports whether
  it did; the shared factory is the first component of the result.
\<close>

definition UpdatePaddingScheme ::
  "(bytes \<Rightarrow> string) \<Rightarrow> PaddingFactory \<Rightarrow> bytes \<Rightarrow> PaddingFactory \<times> bool" where
  "UpdatePaddingScheme md5hex cur rawScheme =
     (case NewPaddingFactory md5hex rawScheme of
        Some p \<Rightarrow> (p, True)
      | None \<Rightarrow> (cur, False))"

text \<open>One comma-separated item of a packet's line: a size, a check mark, or nothing.\<close>

definition range_size :: "nat \<Rightarrow> string \<Rightarrow> int list" where
  "range_size draw sRange =
     (let sRangeMinMax = Split (CHR ''-'') sRange
      in if length sRangeMinMax = 2 then
           (case ParseInt64 (sRangeMinMax ! 0) of
              None \<Rightarrow> []
            | Some a \<Rightarrow>
                (case ParseInt64 (sRangeMinMax ! 1) of
                   None \<Rightarrow> []
                 | Some b \<Rightarrow>
                     (let mn = min a b; mx = max a b
                      in if mn \<le> 0 \<or> mx \<le> 0 then []
                         else if mn = mx then [mn]
                         else [int draw mod (mx - mn) + mn])))
         else if sRange = ''c'' then [CheckMark] else [])"

fun range_sizes :: "(nat \<Rightarrow> nat) \<Rightarrow> nat \<Rightarrow> string list \<Rightarrow> int list" where
  "range_sizes rnd i [] = []"
| "range_sizes rnd i (r # rs) = range_size (rnd i) r @ range_sizes rnd (Suc i) rs"

definition GenerateRecordPayloadSizes ::
  "(nat \<Rightarrow> nat) \<Rightarrow> PaddingFactory \<Rightarrow> u32 \<Rightarrow> int list" where
  "GenerateRecordPayloadSizes rnd p pkt =
     (case map_of (pf_scheme p) (FormatUint (unat pkt)) of
        None \<Rightarrow> []
      | Some s \<Rightarrow> range_sizes rnd 0 (Split (CHR '','') s))"

section \<open>What the generated sizes are\<close>

text \<open>The sizes one item of a scheme stands for: a check mark, or a range of sizes.\<close>

definition item_allows :: "string \<Rightarrow> int \<Rightarrow> bool" where
  "item_allows r l \<longleftrightarrow>
     r = ''c'' \<and> l = CheckMark \<or>
     (\<exists>x y a b. r = x @ ''-'' @ y \<and> ParseInt64 x = Some a \<and> ParseInt64 y = Some b \<and>
        0 < min a b \<and> min a b \<le> l \<and> (l < max a b \<or> a = b \<and> l = a))"

lemma Split_two:
  assumes "length (Split sep s) = 2"
  shows "s = Split sep s ! 0 @ [sep] @ Split sep s ! 1"
proof -
  obtain x y where xy: "Split sep s = [x, y]"
    using assms by (cases "Split sep s"; cases "tl (Split sep s)") auto
  then have "Join [x, y] [sep] = s" using Join_Split [of sep s] by simp
  then show ?thesis using xy by simp
qed

text \<open>The shape of a size that came from a range.\<close>

lemma range_size_pair:
  assumes "length (Split (CHR ''-'') r) = 2" and "l \<in> set (range_size d r)"
  obtains x y a b where "Split (CHR ''-'') r = [x, y]" "r = x @ ''-'' @ y"
    "ParseInt64 x = Some a" "ParseInt64 y = Some b" "0 < min a b"
    "min a b \<le> l" "l < max a b \<or> a = b \<and> l = a"
proof -
  obtain x y where xy: "Split (CHR ''-'') r = [x, y]"
    using assms(1) by (cases "Split (CHR ''-'') r"; cases "tl (Split (CHR ''-'') r)") auto
  have r: "r = x @ ''-'' @ y" using Split_two [OF assms(1)] xy by simp
  obtain a b where ab: "ParseInt64 x = Some a" "ParseInt64 y = Some b"
    using assms(2) by (cases "ParseInt64 x"; cases "ParseInt64 y") (auto simp: range_size_def xy)
  have pos: "0 < min a b" and l: "l = (if a = b then a else int d mod (max a b - min a b) + min a b)"
    using assms(2) ab by (auto simp: range_size_def xy Let_def split: if_splits)
  have "min a b \<le> l \<and> (l < max a b \<or> a = b \<and> l = a)"
  proof (cases "a = b")
    case False
    then have "0 < max a b - min a b" by linarith
    note pos_mod_sign [OF this, of "int d"] pos_mod_bound [OF this, of "int d"]
    moreover have "l = int d mod (max a b - min a b) + min a b" using False l by simp
    ultimately show ?thesis by linarith
  qed (use l in simp)
  with xy r ab pos show thesis by (intro that) auto
qed

lemma range_size_other:
  "length (Split (CHR ''-'') r) \<noteq> 2 \<Longrightarrow> l \<in> set (range_size d r) \<Longrightarrow> r = ''c'' \<and> l = CheckMark"
  by (auto simp: range_size_def Let_def split: if_splits)

lemma range_size_allowed:
  assumes "l \<in> set (range_size d r)"
  shows "item_allows r l"
proof (cases "length (Split (CHR ''-'') r) = 2")
  case True
  then show ?thesis using assms
    by (rule range_size_pair) (unfold item_allows_def, blast)
next
  case False
  then show ?thesis using range_size_other [OF False assms] by (simp add: item_allows_def)
qed

lemma range_sizes_allowed:
  "l \<in> set (range_sizes rnd i rs) \<Longrightarrow> \<exists>r \<in> set rs. item_allows r l"
  by (induction rs arbitrary: i) (auto dest: range_size_allowed)

lemma item_allows_sign: "item_allows r l \<Longrightarrow> l = CheckMark \<or> 0 < l"
  unfolding item_allows_def by fastforce

text \<open>
  A scheme is \<open>scheme_bounded\<close> when no range of it reaches beyond the largest payload a frame
  can carry; an executable check over the raw items.
\<close>

definition item_bounded :: "string \<Rightarrow> bool" where
  "item_bounded r =
     (let ps = Split (CHR ''-'') r
      in length ps = 2 \<longrightarrow>
           (case (ParseInt64 (ps ! 0), ParseInt64 (ps ! 1)) of
              (Some a, Some b) \<Rightarrow> max a b \<le> 65535
            | _ \<Rightarrow> True))"

definition scheme_bounded :: "PaddingFactory \<Rightarrow> bool" where
  "scheme_bounded p =
     list_all (\<lambda>(k, v). list_all item_bounded (Split (CHR '','') v)) (pf_scheme p)"

lemma range_size_bounded:
  assumes "item_bounded r" and "l \<in> set (range_size d r)"
  shows "l \<le> 65535"
proof (cases "length (Split (CHR ''-'') r) = 2")
  case True
  then show ?thesis using assms(2)
    by (rule range_size_pair) (use assms(1) in \<open>auto simp: item_bounded_def\<close>)
next
  case False
  then show ?thesis using range_size_other [OF False assms(2)] by (simp add: CheckMark_def)
qed

lemma range_sizes_bounded:
  "list_all item_bounded rs \<Longrightarrow> l \<in> set (range_sizes rnd i rs) \<Longrightarrow> l \<le> 65535"
  by (induction rs arbitrary: i) (auto dest: range_size_bounded)

lemma sizes_bounded:
  assumes "scheme_bounded p" and "l \<in> set (GenerateRecordPayloadSizes rnd p pkt)"
  shows "l \<le> 65535"
proof -
  obtain s where s: "map_of (pf_scheme p) (FormatUint (unat pkt)) = Some s"
    and l: "l \<in> set (range_sizes rnd 0 (Split (CHR '','') s))"
    using assms(2) unfolding GenerateRecordPayloadSizes_def
    by (cases "map_of (pf_scheme p) (FormatUint (unat pkt))") auto
  from s have "(FormatUint (unat pkt), s) \<in> set (pf_scheme p)" by (rule map_of_SomeD)
  then have "list_all item_bounded (Split (CHR '','') s)"
    using assms(1) by (auto simp: scheme_bounded_def list_all_iff)
  then show ?thesis using l by (rule range_sizes_bounded)
qed

lemma sizes_sign:
  "l \<in> set (GenerateRecordPayloadSizes rnd p pkt) \<Longrightarrow> l = CheckMark \<or> 0 < l"
  by (auto simp: GenerateRecordPayloadSizes_def dest!: range_sizes_allowed item_allows_sign
      split: option.splits)

text \<open>Every packet size generated for packet \<open>pkt\<close> is prescribed by an item of that packet's
  line of the scheme: a check mark for a \<^verbatim>\<open>c\<close>, or for an item \<^verbatim>\<open>a-b\<close> a size from the smaller of
  the two bounds up to, and excluding, the larger one (the bound itself when they are equal).
  A packet the scheme has no line for gets no sizes.\<close>

theorem GenerateRecordPayloadSizes_allowed:
  "case map_of (pf_scheme p) (FormatUint (unat pkt)) of
     None \<Rightarrow> GenerateRecordPayloadSizes rnd p pkt = []
   | Some s \<Rightarrow> list_all (\<lambda>l. list_ex (\<lambda>r. item_allows r l) (Split (CHR '','') s))
                 (GenerateRecordPayloadSizes rnd p pkt)"
  by (auto simp: GenerateRecordPayloadSizes_def list_all_iff list_ex_iff
      dest: range_sizes_allowed split: option.splits)

text \<open>The built-in scheme parses, stops at packet 8 and stays within the frame bound.\<close>

definition default_scheme_lines :: StringMap where
  "default_scheme_lines =
    [(''stop'', ''8''), (''0'', ''30-30''), (''1'', ''100-400''),
     (''2'', ''400-500,c,500-1000,c,500-1000,c,500-1000,c,500-1000''),
     (''3'', ''9-9,500-1000''), (''4'', ''500-1000''), (''5'', ''500-1000''),
     (''6'', ''500-1000''), (''7'', ''500-1000'')]"

lemma default_scheme_map: "StringMapFromBytes defaultPaddingScheme = default_scheme_lines"
proof -
  have "defaultPaddingScheme = StringMap_ToBytes default_scheme_lines"
    by (simp add: defaultPaddingScheme_def StringMap_ToBytes_def default_scheme_lines_def)
  moreover have "distinct_keys default_scheme_lines"
    by (simp add: distinct_keys_def default_scheme_lines_def)
  moreover have "line_safe default_scheme_lines"
    by (simp add: line_safe_def default_scheme_lines_def)
  ultimately show ?thesis by (metis FromBytes_ToBytes)
qed

lemma default_scheme_stop: "ParseInt64 (StringMap_get default_scheme_lines ''stop'') = Some 8"
  by (simp add: StringMap_get_def default_scheme_lines_def parse_eval)

lemma default_scheme_factory:
  "NewPaddingFactory md5hex defaultPaddingScheme =
     Some \<lparr>pf_scheme = default_scheme_lines,
           pf_RawScheme = defaultPaddingScheme, pf_Stop = 8,
           pf_Md5 = md5hex defaultPaddingScheme\<rparr>"
proof -
  have "default_scheme_lines \<noteq> []" by (simp add: default_scheme_lines_def)
  then show ?thesis
    by (simp add: NewPaddingFactory_def default_scheme_map default_scheme_stop)
qed

lemma default_scheme_bounded:
  "pf_scheme p = default_scheme_lines \<Longrightarrow> scheme_bounded p"
  by (simp add: scheme_bounded_def default_scheme_lines_def item_bounded_def parse_eval)

end
