(* ===== verification/Conn.thy ===== *)
theory Conn
  imports Prelude
begin

text \<open>
  The connection below a session and the throttling wrapper around it
  (\<^verbatim>\<open>limiter/conn.go\<close>).

  The TLS connection itself is the environment: \<open>c_in\<close> holds the bytes the peer will have
  sent before it stops sending, \<open>c_out\<close> the writes that reached the peer, one element per
  call, and \<open>c_room\<close> how many more bytes it accepts before every write fails (\<open>None\<close>: it
  never fails). A write that fails part way has delivered a prefix, as TCP may.
\<close>

section \<open>The underlying connection\<close>

record conn =
  c_in :: bytes
  c_out :: "bytes list"
  c_room :: "nat option"
  c_closed :: bool

definition sent :: "conn \<Rightarrow> bytes" where
  "sent c = concat (c_out c)"

text \<open>A write returns the new connection, the number of bytes written and the error.\<close>

definition conn_Write :: "conn \<Rightarrow> bytes \<Rightarrow> conn \<times> nat \<times> go_error option" where
  "conn_Write c p =
     (if c_closed c then (c, 0, Some NetErrClosed)
      else case c_room c of
        None \<Rightarrow> (c\<lparr>c_out := c_out c @ [p]\<rparr>, length p, None)
      | Some k \<Rightarrow>
          if length p \<le> k
          then (c\<lparr>c_out := c_out c @ [p], c_room := Some (k - length p)\<rparr>, length p, None)
          else (c\<lparr>c_out := c_out c @ [take k p], c_room := Some 0\<rparr>, k, Some ConnError))"

text \<open>\<^verbatim>\<open>io.ReadFull\<close> into a buffer of \<open>n\<close> bytes.\<close>

definition conn_ReadFull :: "conn \<Rightarrow> nat \<Rightarrow> conn \<times> bytes result" where
  "conn_ReadFull c n =
     (if c_closed c then (c, Inl NetErrClosed)
      else if n \<le> length (c_in c) then (c\<lparr>c_in := drop n (c_in c)\<rparr>, Inr (take n (c_in c)))
      else (c\<lparr>c_in := []\<rparr>, Inl (if c_in c = [] then EOF else ErrUnexpectedEOF)))"

text \<open>
  One \<^verbatim>\<open>Read\<close> into a buffer of \<open>cap\<close> bytes when \<open>avail\<close> bytes have arrived.
\<close>

definition conn_Read :: "conn \<Rightarrow> nat \<Rightarrow> nat \<Rightarrow> conn \<times> bytes \<times> go_error option" where
  "conn_Read c cap avail =
     (if c_closed c then (c, [], Some NetErrClosed)
      else let b = take (min cap avail) (c_in c)
           in (c\<lparr>c_in := drop (length b) (c_in c)\<rparr>, b, if c_in c = [] then Some EOF else None))"

definition conn_Close :: "conn \<Rightarrow> conn" where
  "conn_Close c = c\<lparr>c_closed := True\<rparr>"

section \<open>What a writer promises\<close>

text \<open>
  The contract the session's write path relies on: a write without error has appended
  exactly its argument to what the peer gets, a failed one at most a prefix of it.
\<close>

locale byte_writer =
  fixes wr :: "'c \<Rightarrow> bytes \<Rightarrow> 'c \<times> nat \<times> go_error option"
    and wire :: "'c \<Rightarrow> bytes"
  assumes write_ok: "wr c p = (c', n, None) \<Longrightarrow> wire c' = wire c @ p \<and> n = length p"
    and write_err: "wr c p = (c', n, Some e) \<Longrightarrow>
      n \<le> length p \<and> wire c' = wire c @ take n p"
begin

lemma write_prefix: "wr c p = (c', n, r) \<Longrightarrow> \<exists>k. wire c' = wire c @ take k p"
  using write_ok write_err by (cases r) (metis take_all_iff order_refl, blast)

end

lemma conn_Write_ok: "conn_Write c p = (c', n, None) \<Longrightarrow> sent c' = sent c @ p \<and> n = length p"
  by (auto simp: conn_Write_def sent_def split: if_splits option.splits)

lemma conn_Write_err:
  "conn_Write c p = (c', n, Some e) \<Longrightarrow> n \<le> length p \<and> sent c' = sent c @ take n p"
  by (auto simp: conn_Write_def sent_def split: if_splits option.splits)

interpretation plain: byte_writer conn_Write sent
  by unfold_locales (auto dest: conn_Write_ok conn_Write_err)

section \<open>limitedConn\<close>

text \<open>
  \<^verbatim>\<open>golang.org/x/time/rate\<close> is not part of the repository: a limiter is an object with its
  burst and its \<^verbatim>\<open>WaitN\<close> method, which is told whether the context is cancelled. Its documented
  behaviour is \<open>waitN_documented\<close>: \<^verbatim>\<open>WaitN\<close> fails when asked for more than the burst or when the
  context is cancelled, and otherwise grants the tokens. A limiter of this program has a
  positive burst (\<^verbatim>\<open>newLimiter\<close> floors it at 64 KiB), so the burst is stored less one.
\<close>

record rateLimiter =
  rl_burst1 :: nat
  rl_WaitN :: "bool \<Rightarrow> nat \<Rightarrow> go_error option"

definition rl_Burst :: "rateLimiter \<Rightarrow> nat" where
  "rl_Burst l = Suc (rl_burst1 l)"

definition waitN_documented :: "rateLimiter \<Rightarrow> bool" where
  "waitN_documented l \<longleftrightarrow>
     (\<forall>cancelled n. rl_WaitN l cancelled n = None \<longleftrightarrow> \<not> cancelled \<and> n \<le> rl_Burst l)"

record limitedConn =
  lc_Conn :: conn
  lc_up :: "rateLimiter option"
  lc_down :: "rateLimiter option"
  lc_cancelled :: bool

text \<open>The tokens a \<^verbatim>\<open>WaitWrite\<close> asks for, chunk by chunk, until the first refusal.\<close>

function waitWrite_loop :: "rateLimiter \<Rightarrow> bool \<Rightarrow> nat \<Rightarrow> go_error option" where
  "waitWrite_loop up cancelled n =
     (if n > 0 then
        (let chunk = (if n > rl_Burst up then rl_Burst up else n)
         in case rl_WaitN up cancelled chunk of
              Some e \<Rightarrow> Some e
            | None \<Rightarrow> waitWrite_loop up cancelled (n - chunk))
      else None)"
  by pat_completeness auto
termination
  by (relation "measure (\<lambda>(up, cancelled, n). n)") (auto simp: rl_Burst_def)

declare waitWrite_loop.simps [simp del]

definition limitedConn_WaitWrite :: "limitedConn \<Rightarrow> nat \<Rightarrow> go_error option" where
  "limitedConn_WaitWrite c n =
     (case lc_up c of
        None \<Rightarrow> None
      | Some up \<Rightarrow> if n \<le> 0 then None else waitWrite_loop up (lc_cancelled c) n)"

function writeUnlimited_loop ::
  "nat \<Rightarrow> conn \<Rightarrow> bytes \<Rightarrow> nat \<Rightarrow> conn \<times> nat \<times> go_error option" where
  "writeUnlimited_loop burst1 c b written =
     (if b \<noteq> [] then
        (let chunk = (if length b > Suc burst1 then Suc burst1 else length b)
         in case conn_Write c (take chunk b) of
              (c', n, Some e) \<Rightarrow> (c', written + n, Some e)
            | (c', n, None) \<Rightarrow> writeUnlimited_loop burst1 c' (drop chunk b) (written + n))
      else (c, written, None))"
  by pat_completeness auto
termination
  by (relation "measure (\<lambda>(burst1, c, b, w). length b)") auto

declare writeUnlimited_loop.simps [simp del]

definition limitedConn_WriteUnlimited ::
  "limitedConn \<Rightarrow> bytes \<Rightarrow> limitedConn \<times> nat \<times> go_error option" where
  "limitedConn_WriteUnlimited c b =
     (let (c', n, e) =
        (case lc_up c of
           None \<Rightarrow> conn_Write (lc_Conn c) b
         | Some up \<Rightarrow> writeUnlimited_loop (rl_burst1 up) (lc_Conn c) b 0)
      in (c\<lparr>lc_Conn := c'\<rparr>, n, e))"

definition limitedConn_Write ::
  "limitedConn \<Rightarrow> bytes \<Rightarrow> limitedConn \<times> nat \<times> go_error option" where
  "limitedConn_Write c b =
     (if lc_up c = None then
        (let (c', n, e) = conn_Write (lc_Conn c) b in (c\<lparr>lc_Conn := c'\<rparr>, n, e))
      else case limitedConn_WaitWrite c (length b) of
        Some e \<Rightarrow> (c, 0, Some e)
      | None \<Rightarrow> limitedConn_WriteUnlimited c b)"

text \<open>
  A read is capped at the burst of the down bucket; tokens are taken after the read, and an
  error of \<^verbatim>\<open>WaitN\<close> does not change what the read returns. The last component is the number of
  tokens asked for (\<open>None\<close>: the bucket was not consulted).
\<close>

definition limitedConn_Read ::
  "limitedConn \<Rightarrow> nat \<Rightarrow> nat \<Rightarrow> (limitedConn \<times> bytes \<times> go_error option) \<times> nat option" where
  "limitedConn_Read c cap avail =
     (let cap' = (case lc_down c of
                    None \<Rightarrow> cap
                  | Some down \<Rightarrow> if cap > rl_Burst down then rl_Burst down else cap);
          (c', b, e) = conn_Read (lc_Conn c) cap' avail
      in ((c\<lparr>lc_Conn := c'\<rparr>, b, e),
          if length b > 0 \<and> lc_down c \<noteq> None then Some (length b) else None))"

definition limitedConn_Close :: "limitedConn \<Rightarrow> limitedConn" where
  "limitedConn_Close c = c\<lparr>lc_cancelled := True, lc_Conn := conn_Close (lc_Conn c)\<rparr>"

lemma writeUnlimited_loop_ok:
  "writeUnlimited_loop k c b w = (c', n, None) \<Longrightarrow> sent c' = sent c @ b \<and> n = w + length b"
proof (induction k c b w arbitrary: c' n rule: writeUnlimited_loop.induct)
  case (1 k c b w)
  show ?case
  proof (cases "b = []")
    case True
    then show ?thesis using "1.prems" by (simp add: writeUnlimited_loop.simps)
  next
    case False
    define chunk where "chunk = (if length b > Suc k then Suc k else length b)"
    obtain c1 m e where w1: "conn_Write c (take chunk b) = (c1, m, e)" by (metis prod_cases3)
    have e: "e = None" and rest: "writeUnlimited_loop k c1 (drop chunk b) (w + m) = (c', n, None)"
      using "1.prems" False w1
      by (auto simp: writeUnlimited_loop.simps [of k c b w] chunk_def Let_def split: option.splits)
    have "sent c1 = sent c @ take chunk b" and m: "m = length (take chunk b)"
      using conn_Write_ok [OF w1 [unfolded e]] by simp_all
    moreover have "sent c' = sent c1 @ drop chunk b \<and> n = w + m + length (drop chunk b)"
      using "1.IH" [OF False chunk_def w1 [symmetric] refl e rest] by simp
    ultimately show ?thesis by simp
  qed
qed

lemma writeUnlimited_loop_err:
  "writeUnlimited_loop k c b w = (c', n, Some e) \<Longrightarrow>
   \<exists>j \<le> length b. n = w + j \<and> sent c' = sent c @ take j b"
proof (induction k c b w arbitrary: c' n rule: writeUnlimited_loop.induct)
  case (1 k c b w)
  have ne: "b \<noteq> []" using "1.prems" by (auto simp: writeUnlimited_loop.simps split: if_splits)
  define chunk where "chunk = (if length b > Suc k then Suc k else length b)"
  have le: "chunk \<le> length b" by (simp add: chunk_def)
  obtain c1 m e1 where w1: "conn_Write c (take chunk b) = (c1, m, e1)" by (metis prod_cases3)
  show ?case
  proof (cases e1)
    case None
    have rest: "writeUnlimited_loop k c1 (drop chunk b) (w + m) = (c', n, Some e)"
      using "1.prems" ne w1 None
      by (simp add: writeUnlimited_loop.simps [of k c b w] chunk_def Let_def)
    have s1: "sent c1 = sent c @ take chunk b" "m = chunk"
      using conn_Write_ok [OF w1 [unfolded None]] le by simp_all
    obtain j where "j \<le> length (drop chunk b)" "n = w + m + j"
        "sent c' = sent c1 @ take j (drop chunk b)"
      using "1.IH" [OF ne chunk_def w1 [symmetric] refl None rest] by auto
    then show ?thesis
      using s1 le by (intro exI [of _ "chunk + j"]) (simp add: take_add)
  next
    case (Some a)
    then have "c' = c1" "n = w + m"
      using "1.prems" ne w1
      by (simp_all add: writeUnlimited_loop.simps [of k c b w] chunk_def Let_def)
    moreover have "m \<le> length (take chunk b) \<and> sent c1 = sent c @ take m (take chunk b)"
      using w1 Some conn_Write_err by blast
    ultimately show ?thesis
      using le by (intro exI [of _ m]) (simp add: min_absorb1 min_absorb2)
  qed
qed

definition lc_sent :: "limitedConn \<Rightarrow> bytes" where
  "lc_sent c = sent (lc_Conn c)"

lemma WriteUnlimited_ok:
  "limitedConn_WriteUnlimited c p = (c', n, None) \<Longrightarrow>
   lc_sent c' = lc_sent c @ p \<and> n = length p"
  by (auto simp: limitedConn_WriteUnlimited_def lc_sent_def Let_def
      dest: conn_Write_ok writeUnlimited_loop_ok split: option.splits prod.splits)

lemma WriteUnlimited_err:
  "limitedConn_WriteUnlimited c p = (c', n, Some e) \<Longrightarrow>
   n \<le> length p \<and> lc_sent c' = lc_sent c @ take n p"
  by (auto simp: limitedConn_WriteUnlimited_def lc_sent_def Let_def
      dest: conn_Write_err writeUnlimited_loop_err split: option.splits prod.splits)

interpretation unlimited: byte_writer limitedConn_WriteUnlimited lc_sent
  by unfold_locales (auto dest: WriteUnlimited_ok WriteUnlimited_err)

lemma limitedConn_Write_cases:
  "limitedConn_Write c p = limitedConn_WriteUnlimited c p \<or>
   (\<exists>e. limitedConn_Write c p = (c, 0, Some e))"
  by (auto simp: limitedConn_Write_def limitedConn_WriteUnlimited_def split: option.splits)

lemma limitedConn_Write_ok:
  "limitedConn_Write c p = (c', n, None) \<Longrightarrow> lc_sent c' = lc_sent c @ p \<and> n = length p"
  using limitedConn_Write_cases [of c p] WriteUnlimited_ok [of c p c' n] by auto

lemma limitedConn_Write_err:
  "limitedConn_Write c p = (c', n, Some e) \<Longrightarrow>
   n \<le> length p \<and> lc_sent c' = lc_sent c @ take n p"
  using limitedConn_Write_cases [of c p] WriteUnlimited_err [of c p c' n e] by auto

interpretation limited: byte_writer limitedConn_Write lc_sent
  by unfold_locales (auto dest: limitedConn_Write_ok limitedConn_Write_err)

section \<open>The connection of a session\<close>

text \<open>
  A session's \<^verbatim>\<open>net.Conn\<close> is the connection itself or the wrapper. The optional methods the
  session asserts (\<^verbatim>\<open>WaitWrite\<close>, \<^verbatim>\<open>WriteUnlimited\<close>) exist on the wrapper only.
\<close>

datatype netConn = Plain conn | Limited limitedConn

fun base_conn :: "netConn \<Rightarrow> conn" where
  "base_conn (Plain c) = c"
| "base_conn (Limited c) = lc_Conn c"

definition nc_sent :: "netConn \<Rightarrow> bytes" where
  "nc_sent c = sent (base_conn c)"

fun netConn_Write :: "netConn \<Rightarrow> bytes \<Rightarrow> netConn \<times> nat \<times> go_error option" where
  "netConn_Write (Plain c) p = (let (c', n, e) = conn_Write c p in (Plain c', n, e))"
| "netConn_Write (Limited c) p = (let (c', n, e) = limitedConn_Write c p in (Limited c', n, e))"

fun netConn_WriteUnlimited :: "netConn \<Rightarrow> bytes \<Rightarrow> netConn \<times> nat \<times> go_error option" where
  "netConn_WriteUnlimited (Plain c) p = (let (c', n, e) = conn_Write c p in (Plain c', n, e))"
| "netConn_WriteUnlimited (Limited c) p =
     (let (c', n, e) = limitedConn_WriteUnlimited c p in (Limited c', n, e))"

fun netConn_ReadFull :: "netConn \<Rightarrow> nat \<Rightarrow> netConn \<times> bytes result" where
  "netConn_ReadFull (Plain c) n = (let (c', r) = conn_ReadFull c n in (Plain c', r))"
| "netConn_ReadFull (Limited c) n =
     (let (c', r) = conn_ReadFull (lc_Conn c) n in (Limited (c\<lparr>lc_Conn := c'\<rparr>), r))"

fun netConn_Close :: "netConn \<Rightarrow> netConn" where
  "netConn_Close (Plain c) = Plain (conn_Close c)"
| "netConn_Close (Limited c) = Limited (limitedConn_Close c)"

interpretation net: byte_writer netConn_Write nc_sent
proof unfold_locales
  fix c p c' n
  assume "netConn_Write c p = (c', n, None)"
  then show "nc_sent c' = nc_sent c @ p \<and> n = length p"
    by (cases c) (auto simp: nc_sent_def dest: conn_Write_ok
        limitedConn_Write_ok [unfolded lc_sent_def] split: prod.splits)
next
  fix c p c' n e
  assume "netConn_Write c p = (c', n, Some e)"
  then show "n \<le> length p \<and> nc_sent c' = nc_sent c @ take n p"
    by (cases c) (auto simp: nc_sent_def dest: conn_Write_err
        limitedConn_Write_err [unfolded lc_sent_def] split: prod.splits)
qed

interpretation net_unlimited: byte_writer netConn_WriteUnlimited nc_sent
proof unfold_locales
  fix c p c' n
  assume "netConn_WriteUnlimited c p = (c', n, None)"
  then show "nc_sent c' = nc_sent c @ p \<and> n = length p"
    by (cases c) (auto simp: nc_sent_def dest: conn_Write_ok
        WriteUnlimited_ok [unfolded lc_sent_def] split: prod.splits)
next
  fix c p c' n e
  assume "netConn_WriteUnlimited c p = (c', n, Some e)"
  then show "n \<le> length p \<and> nc_sent c' = nc_sent c @ take n p"
    by (cases c) (auto simp: nc_sent_def dest: conn_Write_err
        WriteUnlimited_err [unfolded lc_sent_def] split: prod.splits)
qed

section \<open>Throttling changes no bytes and never over-asks a bucket\<close>

lemma waitWrite_loop_grants:
  assumes "waitN_documented up" and "\<not> cancelled"
  shows "waitWrite_loop up cancelled n = None"
  using assms
proof (induction up cancelled n rule: waitWrite_loop.induct)
  case (1 up cancelled n)
  define chunk where "chunk = (if n > rl_Burst up then rl_Burst up else n)"
  have "chunk \<le> rl_Burst up" by (simp add: chunk_def)
  then have "rl_WaitN up cancelled chunk = None"
    using "1.prems" by (auto simp: waitN_documented_def)
  moreover from this have "n > 0 \<Longrightarrow> waitWrite_loop up cancelled (n - chunk) = None"
    using "1.IH" [OF _ chunk_def] "1.prems" by blast
  ultimately show ?case
    by (auto simp: waitWrite_loop.simps [of up cancelled n] chunk_def [symmetric] Let_def)
qed

lemma limitedConn_Read_tokens:
  assumes "limitedConn_Read c cap avail = (r, Some n)" and "lc_down c = Some down"
  shows "0 < n \<and> n \<le> rl_Burst down"
  using assms
  by (auto simp: limitedConn_Read_def conn_Read_def Let_def min_def split: if_splits)



end
