(* ===== verification/Session_Core.thy ===== *)
theory Session_Core
  imports Frame Padding Conn
begin

text \<open>
  The state of a session and its write path (\<^verbatim>\<open>proxy/session/session.go\<close>): closing, control
  frames, data frames cut to the 16-bit length, the initial buffering of a client, and the
  padding of the first packets.

  A session owns its streams through references into a store (\<open>s_store\<close>), because a stream
  outlives its registration in the map \<open>s_streams\<close>. Each operation is one atomic step; the
  locks of the code make the steps of different goroutines interleave, not overlap. Hooks
  (\<^verbatim>\<open>dieHook\<close>) are markers here: \<open>Fired\<close> says that the operation has run the hook; what the
  client's hooks do is modelled with the client.
\<close>

section \<open>State\<close>

datatype hook = NoHook | Armed | Fired

definition fire :: "hook \<Rightarrow> hook" where
  "fire h = (if h = Armed then Fired else h)"

text \<open>
  A stream. \<open>st_read\<close> is what the blocking writes into its pipe have handed to the reader;
  \<open>st_Counter\<close> is the (Tx, Rx) pair of its traffic record, if it has one.
\<close>

record stream =
  st_id :: u32
  st_pipeDone :: bool
  st_read :: bytes
  st_writeExpired :: bool
  st_dieOnce :: bool
  st_dieHook :: hook
  st_dieErr :: "go_error option"
  st_reportOnce :: bool
  st_Counter :: "(u64 \<times> u64) option"
  st_CountIdentity :: bool

definition newStream :: "u32 \<Rightarrow> stream" where
  "newStream i = \<lparr>st_id = i, st_pipeDone = False, st_read = [], st_writeExpired = False,
     st_dieOnce = False, st_dieHook = NoHook, st_dieErr = None, st_reportOnce = False,
     st_Counter = None, st_CountIdentity = False\<rparr>"

text \<open>What the program takes from outside: digests, random numbers, map iteration order,
  and the debugging switch of the padding scheme.\<close>

record env =
  e_md5 :: "bytes \<Rightarrow> string"
  e_rnd :: "u32 \<Rightarrow> nat \<Rightarrow> nat"
  e_iter :: "StringMap \<Rightarrow> StringMap"
  e_debugPadding :: bool

text \<open>
  \<open>s_padding\<close> is the value of the shared padding factory the session points to,
  \<open>s_synDone\<close> whether an uncancelled SYNACK deadline is running, \<open>s_recvSettings\<close> the local
  variable of the receive loop.
\<close>

record session =
  s_env :: env
  s_conn :: netConn
  s_streams :: "(u32 \<times> nat) list"
  s_store :: "stream list"
  s_streamId :: u32
  s_die :: bool
  s_dieHook :: hook
  s_synDone :: bool
  s_seq :: u64
  s_idleSince :: int
  s_padding :: PaddingFactory
  s_peerVersion :: u32
  s_isClient :: bool
  s_sendPadding :: bool
  s_buffering :: bool
  s_buffer :: bytes
  s_pktCounter :: u32
  s_onNewStream :: bool
  s_Identity :: "(u64 \<times> u64) option"
  s_recvSettings :: bool

definition NewClientSession :: "env \<Rightarrow> netConn \<Rightarrow> PaddingFactory \<Rightarrow> session" where
  "NewClientSession ev c p =
     \<lparr>s_env = ev, s_conn = c, s_streams = [], s_store = [], s_streamId = 0, s_die = False,
      s_dieHook = NoHook, s_synDone = False, s_seq = 0, s_idleSince = 0, s_padding = p,
      s_peerVersion = 0, s_isClient = True, s_sendPadding = True, s_buffering = False,
      s_buffer = [], s_pktCounter = 0, s_onNewStream = False, s_Identity = None,
      s_recvSettings = False\<rparr>"

definition NewServerSession :: "env \<Rightarrow> netConn \<Rightarrow> bool \<Rightarrow> PaddingFactory \<Rightarrow> session" where
  "NewServerSession ev c onNewStream p =
     \<lparr>s_env = ev, s_conn = c, s_streams = [], s_store = [], s_streamId = 0, s_die = False,
      s_dieHook = NoHook, s_synDone = False, s_seq = 0, s_idleSince = 0, s_padding = p,
      s_peerVersion = 0, s_isClient = False, s_sendPadding = False, s_buffering = False,
      s_buffer = [], s_pktCounter = 0, s_onNewStream = onNewStream, s_Identity = None,
      s_recvSettings = False\<rparr>"

definition Session_IsClosed :: "session \<Rightarrow> bool" where
  "Session_IsClosed s = s_die s"

section \<open>Closing\<close>

definition closeLocally :: "stream \<Rightarrow> stream" where
  "closeLocally st =
     (if st_dieOnce st then st
      else st\<lparr>st_dieOnce := True, st_dieErr := Some NetErrClosed, st_pipeDone := True,
              st_dieHook := fire (st_dieHook st)\<rparr>)"

definition update_stream :: "(stream \<Rightarrow> stream) \<Rightarrow> nat \<Rightarrow> session \<Rightarrow> session" where
  "update_stream f r s =
     (if r < length (s_store s) then s\<lparr>s_store := (s_store s)[r := f (s_store s ! r)]\<rparr> else s)"

definition Session_Close :: "session \<Rightarrow> session \<times> go_error option" where
  "Session_Close s =
     (if s_die s then (s, Some ErrClosedPipe)
      else let s1 = s\<lparr>s_die := True, s_dieHook := fire (s_dieHook s)\<rparr>;
               s2 = fold (\<lambda>(sid, r). update_stream closeLocally r) (s_streams s1) s1
           in (s2\<lparr>s_streams := [], s_conn := netConn_Close (s_conn s2)\<rparr>, None))"

section \<open>Writing\<close>

text \<open>The padding frame of \<open>l\<close> zero bytes; its length field is \<^verbatim>\<open>uint16(l)\<close>.\<close>

definition waste_frame :: "int \<Rightarrow> bytes" where
  "waste_frame l =
     cmdWaste # PutUint32 0 @ PutUint16 (word_of_int l) @ replicate (nat l) 0"

text \<open>
  The loop over the packet sizes. It ends with the connection and either an error or the
  payload not yet written and the count of payload bytes written.
\<close>

fun pad_loop ::
  "('c \<Rightarrow> bytes \<Rightarrow> 'c \<times> nat \<times> go_error option) \<Rightarrow> int list \<Rightarrow> 'c \<Rightarrow> bytes \<Rightarrow> nat
   \<Rightarrow> 'c \<times> (bytes \<times> nat) result" where
  "pad_loop writeFn [] c b n = (c, Inr (b, n))"
| "pad_loop writeFn (l # ls) c b n =
     (if l = CheckMark then
        (if length b = 0 then (c, Inr (b, n)) else pad_loop writeFn ls c b n)
      else if int (length b) > l then
        (case writeFn c (take (nat l) b) of
           (c', _, Some e) \<Rightarrow> (c', Inl e)
         | (c', _, None) \<Rightarrow> pad_loop writeFn ls c' (drop (nat l) b) (n + nat l))
      else if length b > 0 then
        (let paddingLen = l - int (length b) - int headerOverHeadSize;
             b' = (if paddingLen > 0 then b @ waste_frame paddingLen else b)
         in case writeFn c b' of
              (c', _, Some e) \<Rightarrow> (c', Inl e)
            | (c', _, None) \<Rightarrow> pad_loop writeFn ls c' [] (n + length b))
      else
        (case writeFn c (waste_frame l) of
           (c', _, Some e) \<Rightarrow> (c', Inl e)
         | (c', _, None) \<Rightarrow> pad_loop writeFn ls c' [] n))"

text \<open>
  \<^verbatim>\<open>doWriteConn\<close>. The write deadline of control frames is one of the reasons for which the
  environment may fail a write; it has no other effect.
\<close>

definition doWriteConn :: "session \<Rightarrow> bytes \<Rightarrow> bool \<Rightarrow> session \<times> nat result" where
  "doWriteConn s b0 bypassLimit =
     (if s_buffering s then (s\<lparr>s_buffer := s_buffer s @ b0\<rparr>, Inr (length b0))
      else
        let b = (if length (s_buffer s) > 0 then s_buffer s @ b0 else b0);
            s1 = s\<lparr>s_buffer := []\<rparr>;
            writeFn = (if bypassLimit then netConn_WriteUnlimited else netConn_Write);
            finish = (\<lambda>s' n p. case writeFn (s_conn s') p of
                (c', n2, None) \<Rightarrow> (s'\<lparr>s_conn := c'\<rparr>, Inr (n + n2))
              | (c', n2, Some e) \<Rightarrow> (s'\<lparr>s_conn := c'\<rparr>, Inl e))
        in if s_sendPadding s1 then
             let pkt = s_pktCounter s1 + 1;
                 s2 = s1\<lparr>s_pktCounter := pkt\<rparr>;
                 paddingF = s_padding s2
             in if pkt < pf_Stop paddingF then
                  (case pad_loop writeFn
                          (GenerateRecordPayloadSizes (e_rnd (s_env s2) pkt) paddingF pkt)
                          (s_conn s2) b 0 of
                     (c', Inl e) \<Rightarrow> (s2\<lparr>s_conn := c'\<rparr>, Inl e)
                   | (c', Inr (b', n)) \<Rightarrow>
                       if length b' = 0 then (s2\<lparr>s_conn := c'\<rparr>, Inr n)
                       else finish (s2\<lparr>s_conn := c'\<rparr>) n b')
                else finish (s2\<lparr>s_sendPadding := False\<rparr>) 0 b
           else finish s1 0 b)"

definition writeConn :: "session \<Rightarrow> bytes \<Rightarrow> session \<times> nat result" where
  "writeConn s b = doWriteConn s b False"

text \<open>
  A control frame first takes its tokens from the limiter, if the connection has one, and then
  bypasses it; the result says whether to bypass.
\<close>

definition waitControl :: "netConn \<Rightarrow> nat \<Rightarrow> bool result" where
  "waitControl c n =
     (case c of
        Plain _ \<Rightarrow> Inr False
      | Limited lc \<Rightarrow>
          (case limitedConn_WaitWrite lc n of
             Some e \<Rightarrow> Inl e
           | None \<Rightarrow> Inr True))"

definition writeControlFrame :: "session \<Rightarrow> frame \<Rightarrow> session \<times> nat result" where
  "writeControlFrame s fr =
     (let payload = encode_frame fr
      in case waitControl (s_conn s) (length payload) of
           Inl e \<Rightarrow> (fst (Session_Close s), Inl e)
         | Inr bypassLimit \<Rightarrow>
             (case doWriteConn s payload bypassLimit of
                (s', Inl e) \<Rightarrow> (fst (Session_Close s'), Inl e)
              | (s', Inr _) \<Rightarrow> (s', Inr (length (f_data fr)))))"

definition writeDataChunk :: "session \<Rightarrow> u32 \<Rightarrow> bytes \<Rightarrow> session \<times> go_error option" where
  "writeDataChunk s sid d =
     (case writeConn s (encode_frame \<lparr>f_cmd = cmdPSH, f_sid = sid, f_data = d\<rparr>) of
        (s', Inl e) \<Rightarrow> (s', Some e)
      | (s', Inr _) \<Rightarrow> (s', None))"

text \<open>The loop returns the number of bytes written and the error, as the code does.\<close>

function writeDataFrame_loop ::
  "session \<Rightarrow> u32 \<Rightarrow> bytes \<Rightarrow> nat \<Rightarrow> session \<times> nat \<times> go_error option" where
  "writeDataFrame_loop s sid d written =
     (let chunk = take (min (length d) maxFramePayload) d
      in case writeDataChunk s sid chunk of
           (s', Some e) \<Rightarrow> (s', written, Some e)
         | (s', None) \<Rightarrow>
             (let d' = drop (length chunk) d
              in if length d' = 0 then (s', written + length chunk, None)
                 else writeDataFrame_loop s' sid d' (written + length chunk)))"
  by pat_completeness auto
termination
  by (relation "measure (\<lambda>(s, sid, d, w). length d)") auto

declare writeDataFrame_loop.simps [simp del]

definition writeDataFrame :: "session \<Rightarrow> u32 \<Rightarrow> bytes \<Rightarrow> session \<times> nat \<times> go_error option" where
  "writeDataFrame s sid d = writeDataFrame_loop s sid d 0"

end
