(* ===== verification/Session_Write.thy ===== *)
theory Session_Write
  imports Session_Core
begin

text \<open>
  What the write path puts on the wire. Padding is transparent: whatever the scheme and the
  random numbers, the peer decodes exactly the frames that were written, in order, plus
  padding frames it discards. Data is cut into frames that the 16-bit length field can
  describe.
\<close>

section \<open>Closing: what changes and what does not\<close>

lemma update_stream_fields [simp]:
  "s_env (update_stream f r s) = s_env s" "s_conn (update_stream f r s) = s_conn s"
  "s_streams (update_stream f r s) = s_streams s" "s_streamId (update_stream f r s) = s_streamId s"
  "s_die (update_stream f r s) = s_die s" "s_dieHook (update_stream f r s) = s_dieHook s"
  "s_synDone (update_stream f r s) = s_synDone s" "s_seq (update_stream f r s) = s_seq s"
  "s_idleSince (update_stream f r s) = s_idleSince s" "s_padding (update_stream f r s) = s_padding s"
  "s_peerVersion (update_stream f r s) = s_peerVersion s"
  "s_isClient (update_stream f r s) = s_isClient s"
  "s_sendPadding (update_stream f r s) = s_sendPadding s"
  "s_buffering (update_stream f r s) = s_buffering s" "s_buffer (update_stream f r s) = s_buffer s"
  "s_pktCounter (update_stream f r s) = s_pktCounter s"
  "s_onNewStream (update_stream f r s) = s_onNewStream s"
  "s_Identity (update_stream f r s) = s_Identity s"
  "s_recvSettings (update_stream f r s) = s_recvSettings s"
  by (simp_all add: update_stream_def)

lemma length_store_update_stream [simp]: "length (s_store (update_stream f r s)) = length (s_store s)"
  by (simp add: update_stream_def)

lemma nth_store_update_stream:
  "i < length (s_store s) \<Longrightarrow>
   s_store (update_stream f r s) ! i = (if i = r then f (s_store s ! i) else s_store s ! i)"
  by (simp add: update_stream_def nth_list_update)

text \<open>Closing every stream of a list of references.\<close>

definition close_all :: "(u32 \<times> nat) list \<Rightarrow> session \<Rightarrow> session" where
  "close_all l s = fold (\<lambda>(sid, r). update_stream closeLocally r) l s"

lemma close_all_Nil [simp]: "close_all [] s = s"
  by (simp add: close_all_def)

lemma close_all_Cons [simp]:
  "close_all (p # l) s = close_all l (update_stream closeLocally (snd p) s)"
  by (simp add: close_all_def case_prod_unfold)

lemma closeLocally_idem [simp]: "closeLocally (closeLocally st) = closeLocally st"
  by (simp add: closeLocally_def)

lemma close_all_frame:
  "\<exists>st. close_all l s = s\<lparr>s_store := st\<rparr> \<and> length st = length (s_store s) \<and>
     (\<forall>i < length st. st ! i = (if i \<in> snd ` set l then closeLocally (s_store s ! i) else s_store s ! i))"
proof (induction l arbitrary: s)
  case Nil
  then show ?case by (intro exI [of _ "s_store s"]) simp
next
  case (Cons p l)
  let ?t = "update_stream closeLocally (snd p) s"
  obtain st where st: "close_all l ?t = ?t\<lparr>s_store := st\<rparr>" "length st = length (s_store s)"
    "\<forall>i < length st. st ! i = (if i \<in> snd ` set l then closeLocally (s_store ?t ! i) else s_store ?t ! i)"
    using Cons.IH [of ?t] by auto
  have "?t\<lparr>s_store := st\<rparr> = s\<lparr>s_store := st\<rparr>" by (simp add: update_stream_def)
  then show ?case using st
    by (intro exI [of _ st]) (auto simp: nth_store_update_stream)
qed

lemma Session_Close_open:
  assumes "\<not> s_die s"
  shows "\<exists>st. Session_Close s =
      (s\<lparr>s_die := True, s_dieHook := fire (s_dieHook s), s_store := st, s_streams := [],
         s_conn := netConn_Close (s_conn s)\<rparr>, None)
    \<and> length st = length (s_store s)
    \<and> (\<forall>i < length st. st ! i = (if i \<in> snd ` set (s_streams s)
          then closeLocally (s_store s ! i) else s_store s ! i))"
proof -
  let ?s1 = "s\<lparr>s_die := True, s_dieHook := fire (s_dieHook s)\<rparr>"
  obtain st where "close_all (s_streams s) ?s1 = ?s1\<lparr>s_store := st\<rparr>" "length st = length (s_store s)"
    "\<forall>i < length st. st ! i = (if i \<in> snd ` set (s_streams s)
       then closeLocally (s_store s ! i) else s_store s ! i)"
    using close_all_frame [of "s_streams s" ?s1] by auto
  then show ?thesis using assms
    by (intro exI [of _ st]) (simp add: Session_Close_def Let_def close_all_def [symmetric])
qed

lemma Session_Close_die [simp]: "s_die (fst (Session_Close s))"
proof (cases "s_die s")
  case False
  then show ?thesis using Session_Close_open [OF False] by auto
qed (simp add: Session_Close_def)

section \<open>Padding frames\<close>

definition waste :: "int \<Rightarrow> frame" where
  "waste l = \<lparr>f_cmd = cmdWaste, f_sid = 0, f_data = replicate (nat l) 0\<rparr>"

definition good_size :: "int \<Rightarrow> bool" where
  "good_size l \<longleftrightarrow> 0 < l \<and> l \<le> 65535"

lemma waste_frame_encode: "0 \<le> l \<Longrightarrow> waste_frame l = encode_frame (waste l)"
  by (simp add: waste_frame_def encode_frame_def waste_def)

lemma wf_waste: "good_size l \<Longrightarrow> wf_frame (waste l)"
  by (auto simp: wf_frame_def waste_def good_size_def carries_data_def)

lemma concat_waste_frames:
  "\<forall>w \<in> set ws. good_size w \<Longrightarrow>
   concat (map waste_frame ws) = concat (map encode_frame (map waste ws))"
  by (induction ws) (auto simp: waste_frame_encode good_size_def)

lemma is_waste [simp]: "f_cmd (waste l) = cmdWaste"
  by (simp add: waste_def)

context byte_writer
begin

text \<open>
  The loop over the packet sizes writes a prefix of the payload, and padding frames only once
  the payload is exhausted. First the part of the loop after the payload.
\<close>

lemma pad_loop_empty:
  assumes "pad_loop wr ls c [] n = (c', Inr (b', n'))"
    and "\<forall>l \<in> set ls. l = CheckMark \<or> good_size l"
  shows "b' = [] \<and> n' = n \<and>
    (\<exists>ws. (\<forall>w \<in> set ws. good_size w) \<and> wire c' = wire c @ concat (map waste_frame ws))"
  using assms
proof (induction ls arbitrary: c)
  case Nil
  then show ?case by (auto intro: exI [of _ "[]"])
next
  case (Cons l ls)
  show ?case
  proof (cases "l = CheckMark")
    case True
    then show ?thesis using Cons.prems(1) by (auto intro: exI [of _ "[]"])
  next
    case False
    then have l: "good_size l" "0 < l" using Cons.prems(2) by (auto simp: good_size_def)
    obtain c1 m where w: "wr c (waste_frame l) = (c1, m, None)"
      and rest: "pad_loop wr ls c1 [] n = (c', Inr (b', n'))"
      using Cons.prems(1) False l by (auto split: prod.splits option.splits)
    have "wire c1 = wire c @ waste_frame l" using write_ok [OF w] by simp
    moreover obtain ws where "\<forall>w \<in> set ws. good_size w" "b' = []" "n' = n"
        "wire c' = wire c1 @ concat (map waste_frame ws)"
      using Cons.IH [OF rest] Cons.prems(2) by auto
    ultimately show ?thesis using l by (auto intro!: exI [of _ "l # ws"])
  qed
qed

lemma pad_loop_sends:
  assumes "pad_loop wr ls c b n = (c', Inr (b', n'))"
    and "\<forall>l \<in> set ls. l = CheckMark \<or> good_size l"
  shows "n' + length b' = n + length b \<and>
    (\<exists>ws. (\<forall>w \<in> set ws. good_size w) \<and> (ws \<noteq> [] \<longrightarrow> b' = []) \<and>
       wire c' @ b' = wire c @ b @ concat (map waste_frame ws))"
  using assms
proof (induction ls arbitrary: c b n)
  case Nil
  then show ?case by (auto intro: exI [of _ "[]"])
next
  case (Cons l ls)
  have sizes: "\<forall>l \<in> set ls. l = CheckMark \<or> good_size l" using Cons.prems(2) by simp
  consider (none) "b = []" | (check) "b \<noteq> []" "l = CheckMark"
    | (all) "l \<noteq> CheckMark" "int (length b) > l"
    | (last) "b \<noteq> []" "l \<noteq> CheckMark" "\<not> int (length b) > l"
    by auto
  then show ?case
  proof cases
    case none
    then show ?thesis using pad_loop_empty [of "l # ls" c n] Cons.prems by auto
  next
    case check
    then show ?thesis using Cons.prems(1) Cons.IH [OF _ sizes] by simp
  next
    case all
    then have l: "0 < l" using Cons.prems(2) by (auto simp: good_size_def)
    obtain c1 m where w: "wr c (take (nat l) b) = (c1, m, None)"
      and rest: "pad_loop wr ls c1 (drop (nat l) b) (n + nat l) = (c', Inr (b', n'))"
      using Cons.prems(1) all by (auto split: prod.splits option.splits)
    have "wire c1 = wire c @ take (nat l) b" using write_ok [OF w] by simp
    then show ?thesis using Cons.IH [OF rest sizes] all l by auto
  next
    case last
    define p where "p = l - int (length b) - 7"
    define q where "q = (if p > 0 then b @ waste_frame p else b)"
    obtain c1 m where w: "wr c q = (c1, m, None)"
      and rest: "pad_loop wr ls c1 [] (n + length b) = (c', Inr (b', n'))"
      using Cons.prems(1) last
      by (auto simp: q_def p_def [symmetric] Let_def split: prod.splits option.splits)
    obtain ws where ws: "\<forall>w \<in> set ws. good_size w" "b' = []" "n' = n + length b"
        "wire c' = wire c1 @ concat (map waste_frame ws)"
      using pad_loop_empty [OF rest sizes] by auto
    have good: "p > 0 \<Longrightarrow> good_size p"
      using Cons.prems(2) last by (auto simp: good_size_def p_def)
    have "wire c' @ b' = wire c @ b @ concat (map waste_frame (if p > 0 then p # ws else ws))"
      using ws write_ok [OF w] by (simp add: q_def)
    then show ?thesis using ws good by (auto intro!: exI [of _ "if p > 0 then p # ws else ws"])
  qed
qed

end

section \<open>One call of doWriteConn\<close>

text \<open>Everything the session has been given to send: what the peer got and what is buffered.\<close>

definition outgoing :: "session \<Rightarrow> bytes" where
  "outgoing s = nc_sent (s_conn s) @ s_buffer s"

lemma scheme_sizes_good:
  "scheme_bounded p \<Longrightarrow>
   \<forall>l \<in> set (GenerateRecordPayloadSizes rnd p pkt). l = CheckMark \<or> good_size l"
  using sizes_bounded sizes_sign by (auto simp: good_size_def)

lemma writeFn_ok:
  "(if bypass then netConn_WriteUnlimited else netConn_Write) c p = (c', n, None) \<Longrightarrow>
   nc_sent c' = nc_sent c @ p \<and> n = length p"
  using net.write_ok net_unlimited.write_ok by (cases bypass) auto

lemma writeFn_pad_loop:
  assumes "pad_loop (if bypass then netConn_WriteUnlimited else netConn_Write) ls c b n
      = (c', Inr (b', n'))"
    and "\<forall>l \<in> set ls. l = CheckMark \<or> good_size l"
  shows "n' + length b' = n + length b \<and>
    (\<exists>ws. (\<forall>w \<in> set ws. good_size w) \<and> (ws \<noteq> [] \<longrightarrow> b' = []) \<and>
       nc_sent c' @ b' = nc_sent c @ b @ concat (map waste_frame ws))"
  using assms net.pad_loop_sends net_unlimited.pad_loop_sends by (cases bypass) auto

text \<open>The fields a write leaves alone.\<close>

definition write_frame_rel :: "session \<Rightarrow> session \<Rightarrow> bool" where
  "write_frame_rel s s' \<longleftrightarrow>
     s_env s' = s_env s \<and> s_streams s' = s_streams s \<and> s_store s' = s_store s \<and>
     s_streamId s' = s_streamId s \<and> s_die s' = s_die s \<and> s_dieHook s' = s_dieHook s \<and>
     s_synDone s' = s_synDone s \<and> s_seq s' = s_seq s \<and> s_idleSince s' = s_idleSince s \<and>
     s_padding s' = s_padding s \<and> s_peerVersion s' = s_peerVersion s \<and>
     s_isClient s' = s_isClient s \<and> s_buffering s' = s_buffering s \<and>
     s_onNewStream s' = s_onNewStream s \<and> s_Identity s' = s_Identity s \<and>
     s_recvSettings s' = s_recvSettings s"

lemma write_frame_rel_refl [simp]: "write_frame_rel s s"
  by (simp add: write_frame_rel_def)

lemma write_frame_rel_trans:
  "write_frame_rel s t \<Longrightarrow> write_frame_rel t u \<Longrightarrow> write_frame_rel s u"
  by (simp add: write_frame_rel_def)

lemma write_frame_rel_upd [simp]:
  "write_frame_rel s (t\<lparr>s_conn := c\<rparr>) = write_frame_rel s t"
  "write_frame_rel s (t\<lparr>s_buffer := b\<rparr>) = write_frame_rel s t"
  "write_frame_rel s (t\<lparr>s_pktCounter := k\<rparr>) = write_frame_rel s t"
  "write_frame_rel s (t\<lparr>s_sendPadding := p\<rparr>) = write_frame_rel s t"
  by (simp_all add: write_frame_rel_def)

lemma doWriteConn_frame: "doWriteConn s b bp = (s', r) \<Longrightarrow> write_frame_rel s s'"
  by (auto simp: doWriteConn_def Let_def split: if_splits prod.splits option.splits sum.splits)

lemma doWriteConn_sends:
  assumes "doWriteConn s b bp = (s', Inr n)" and "scheme_bounded (s_padding s)"
  shows "\<exists>ws. (\<forall>w \<in> set ws. good_size w) \<and>
    outgoing s' = outgoing s @ b @ concat (map waste_frame ws)"
proof (cases "s_buffering s")
  case True
  then show ?thesis using assms(1)
    by (auto simp: doWriteConn_def outgoing_def intro!: exI [of _ "[]"])
next
  case False
  let ?w = "if bp then netConn_WriteUnlimited else netConn_Write"
  let ?pkt = "s_pktCounter s + 1"
  let ?sizes = "GenerateRecordPayloadSizes (e_rnd (s_env s) ?pkt) (s_padding s) ?pkt"
  consider (padded) "s_sendPadding s" "?pkt < pf_Stop (s_padding s)"
    | (plain) "\<not> (s_sendPadding s \<and> ?pkt < pf_Stop (s_padding s))" by auto
  then show ?thesis
  proof cases
    case padded
    then obtain c1 b1 n1 where loop: "pad_loop ?w ?sizes (s_conn s) (s_buffer s @ b) 0 = (c1, Inr (b1, n1))"
      and rest: "b1 = [] \<and> s_conn s' = c1 \<or> (\<exists>n2. ?w c1 b1 = (s_conn s', n2, None))"
      and buf: "s_buffer s' = []"
      using assms(1) False
      by (auto simp: doWriteConn_def Let_def split: if_splits prod.splits option.splits sum.splits)
    obtain ws where ws: "\<forall>w \<in> set ws. good_size w" "ws \<noteq> [] \<longrightarrow> b1 = []"
      "nc_sent c1 @ b1 = nc_sent (s_conn s) @ (s_buffer s @ b) @ concat (map waste_frame ws)"
      using writeFn_pad_loop [OF loop scheme_sizes_good [OF assms(2)]] by auto
    have "nc_sent (s_conn s') = nc_sent c1 @ b1"
      using rest writeFn_ok by auto
    then show ?thesis using ws buf by (auto simp: outgoing_def)
  next
    case plain
    then obtain m where "?w (s_conn s) (s_buffer s @ b) = (s_conn s', m, None)" "s_buffer s' = []"
      using assms(1) False
      by (auto simp: doWriteConn_def Let_def split: if_splits prod.splits option.splits)
    then show ?thesis using writeFn_ok by (auto simp: outgoing_def intro!: exI [of _ "[]"])
  qed
qed

section \<open>Refinement: a reliable sequence of frames\<close>

text \<open>
  The abstraction of a session's output: the frames the peer's receive loop gets to see once
  the padding frames are dropped. \<open>in_sync\<close> says that the bytes handed over so far end at a
  frame boundary.
\<close>

definition not_waste :: "frame \<Rightarrow> bool" where
  "not_waste f \<longleftrightarrow> f_cmd f \<noteq> cmdWaste"

definition frames_written :: "session \<Rightarrow> frame list" where
  "frames_written s = filter not_waste (fst (decode_frames (outgoing s)))"

definition in_sync :: "session \<Rightarrow> bool" where
  "in_sync s \<longleftrightarrow> snd (decode_frames (outgoing s)) = []"

lemma filter_waste [simp]: "filter not_waste (map waste ws) = []"
  by (induction ws) (simp_all add: not_waste_def)

lemma outgoing_extend:
  assumes "in_sync s" and "\<forall>f \<in> set fs. wf_frame f" and "\<forall>w \<in> set ws. good_size w"
    and "outgoing s' = outgoing s @ concat (map encode_frame fs) @ concat (map waste_frame ws)"
  shows "in_sync s' \<and> frames_written s' = frames_written s @ filter not_waste fs"
proof -
  have "outgoing s' = outgoing s @ concat (map encode_frame (fs @ map waste ws))"
    using assms(3,4) by (simp add: concat_waste_frames)
  moreover have "\<forall>f \<in> set (fs @ map waste ws). wf_frame f"
    using assms(2,3) by (auto intro: wf_waste)
  ultimately have "decode_frames (outgoing s')
      = (fst (decode_frames (outgoing s)) @ fs @ map waste ws, [])"
    using assms(1) by (simp only: in_sync_def decode_frames_append decode_frames_concat' fst_conv snd_conv)
  then show ?thesis by (simp add: in_sync_def frames_written_def)
qed

lemma doWriteConn_refines:
  assumes "doWriteConn s (encode_frame f) bp = (s', Inr n)" and "scheme_bounded (s_padding s)"
    and "in_sync s" and "wf_frame f"
  shows "in_sync s' \<and> frames_written s' = frames_written s @ filter not_waste [f]"
proof -
  obtain ws where "\<forall>w \<in> set ws. good_size w"
      "outgoing s' = outgoing s @ encode_frame f @ concat (map waste_frame ws)"
    using doWriteConn_sends [OF assms(1,2)] by auto
  then show ?thesis using outgoing_extend [of s "[f]" ws s'] assms(3,4) by simp
qed

lemma writeControlFrame_cases:
  obtains (wait) e where "writeControlFrame s f = (fst (Session_Close s), Inl e)"
  | (fail) bp s1 e where "doWriteConn s (encode_frame f) bp = (s1, Inl e)"
      "writeControlFrame s f = (fst (Session_Close s1), Inl e)"
  | (ok) bp s1 m where "doWriteConn s (encode_frame f) bp = (s1, Inr m)"
      "writeControlFrame s f = (s1, Inr (length (f_data f)))"
proof (cases "waitControl (s_conn s) (length (encode_frame f))")
  case (Inl e)
  then show thesis by (intro wait) (simp add: writeControlFrame_def Let_def)
next
  case (Inr bp)
  obtain s1 r where r: "doWriteConn s (encode_frame f) bp = (s1, r)" by fastforce
  show thesis
  proof (cases r)
    case (Inl e)
    with r \<open>waitControl _ _ = Inr bp\<close> show thesis
      by (intro fail) (simp_all add: writeControlFrame_def Let_def)
  next
    case (Inr m)
    with r \<open>waitControl _ _ = Inr bp\<close> show thesis
      by (intro ok) (simp_all add: writeControlFrame_def Let_def)
  qed
qed

lemma writeControlFrame_ok:
  assumes "writeControlFrame s f = (s', Inr n)"
  obtains bp m where "doWriteConn s (encode_frame f) bp = (s', Inr m)" "n = length (f_data f)"
proof (cases rule: writeControlFrame_cases [of s f])
  case (ok bp s1 m)
  then have "s' = s1" "n = length (f_data f)" using assms by simp_all
  then show thesis using that ok(1) by blast
qed (use assms in simp_all)

lemma writeControlFrame_err: "writeControlFrame s f = (s', Inl e) \<Longrightarrow> s_die s'"
  using Session_Close_die by (cases rule: writeControlFrame_cases [of s f]) auto

lemma writeControlFrame_frame: "writeControlFrame s f = (s', Inr n) \<Longrightarrow> write_frame_rel s s'"
  by (erule writeControlFrame_ok) (rule doWriteConn_frame)

lemma writeDataChunk_ok:
  assumes "writeDataChunk s sid d = (s', None)"
  obtains m where
    "doWriteConn s (encode_frame \<lparr>f_cmd = cmdPSH, f_sid = sid, f_data = d\<rparr>) False = (s', Inr m)"
  using assms by (auto simp: writeDataChunk_def writeConn_def split: sum.splits prod.splits)

subsection \<open>Data frames\<close>

text \<open>The reference for \<^verbatim>\<open>writeDataFrame\<close>: the payloads, none above 65535 bytes, that a write is
  cut into. An empty write is one empty frame.\<close>

function data_chunks :: "bytes \<Rightarrow> bytes list" where
  "data_chunks d = (if length d \<le> 65535 then [d] else take 65535 d # data_chunks (drop 65535 d))"
  by pat_completeness auto
termination
  by (relation "measure length") auto

declare data_chunks.simps [simp del]

definition psh :: "u32 \<Rightarrow> bytes \<Rightarrow> frame" where
  "psh sid d = \<lparr>f_cmd = cmdPSH, f_sid = sid, f_data = d\<rparr>"

lemma concat_data_chunks: "concat (data_chunks d) = d"
proof (induction d rule: data_chunks.induct)
  case (1 d)
  then show ?case by (subst data_chunks.simps) (simp split: if_split)
qed

lemma data_chunks_small: "\<forall>c \<in> set (data_chunks d). length c \<le> 65535"
proof (induction d rule: data_chunks.induct)
  case (1 d)
  then show ?case by (subst data_chunks.simps) (simp split: if_split)
qed

lemma wf_psh: "length d \<le> 65535 \<Longrightarrow> wf_frame (psh sid d)"
  by (simp add: wf_frame_def psh_def carries_data_def)

lemma not_waste_psh [simp]: "not_waste (psh sid d)"
  by (simp add: not_waste_def psh_def cmd_defs)

text \<open>A successful write appends data frames, which carry the data in order, and padding.\<close>

definition sends :: "session \<Rightarrow> frame list \<Rightarrow> session \<Rightarrow> bool" where
  "sends s fs s' \<longleftrightarrow> outgoing s' = outgoing s @ concat (map encode_frame fs) \<and>
     (\<forall>f \<in> set fs. wf_frame f \<and> (f_cmd f = cmdPSH \<or> f_cmd f = cmdWaste))"

lemma sends_trans: "sends s fs t \<Longrightarrow> sends t gs u \<Longrightarrow> sends s (fs @ gs) u"
  by (auto simp: sends_def)

lemma sends_refines:
  "sends s fs s' \<Longrightarrow> in_sync s \<Longrightarrow> in_sync s' \<and> frames_written s' = frames_written s @ filter not_waste fs"
  using outgoing_extend [of s fs "[]" s'] by (simp add: sends_def)

lemma writeDataChunk_sends:
  assumes "writeDataChunk s sid d = (s', None)" and "scheme_bounded (s_padding s)" and "length d \<le> 65535"
  shows "\<exists>ws. sends s (psh sid d # map waste ws) s' \<and> write_frame_rel s s'"
proof -
  obtain m where m: "doWriteConn s (encode_frame (psh sid d)) False = (s', Inr m)"
    using writeDataChunk_ok [OF assms(1)] unfolding psh_def .
  obtain ws where ws: "\<forall>w \<in> set ws. good_size w"
      "outgoing s' = outgoing s @ encode_frame (psh sid d) @ concat (map waste_frame ws)"
    using doWriteConn_sends [OF m assms(2)] by auto
  then have "sends s (psh sid d # map waste ws) s'"
    using wf_psh [OF assms(3)] concat_waste_frames [OF ws(1)]
    by (auto simp: sends_def wf_waste psh_def)
  then show ?thesis using doWriteConn_frame [OF m] by blast
qed

lemma writeDataFrame_loop_sends:
  assumes "writeDataFrame_loop s sid d w = (s', n, None)" and "scheme_bounded (s_padding s)"
  shows "n = w + length d \<and> (\<exists>fs. sends s fs s' \<and> filter not_waste fs = map (psh sid) (data_chunks d))"
  using assms
proof (induction s sid d w arbitrary: s' n rule: writeDataFrame_loop.induct)
  case (1 s sid d w)
  define chunk where "chunk = take (min (length d) maxFramePayload) d"
  have len: "length chunk \<le> 65535" by (simp add: chunk_def)
  obtain s1 where s1: "writeDataChunk s sid chunk = (s1, None)"
    using "1.prems"(1) unfolding writeDataFrame_loop.simps [of s sid d w] chunk_def [symmetric] Let_def
    by (cases "writeDataChunk s sid chunk"; cases "snd (writeDataChunk s sid chunk)") auto
  obtain ws where ws: "sends s (psh sid chunk # map waste ws) s1" and rel: "write_frame_rel s s1"
    using writeDataChunk_sends [OF s1 "1.prems"(2) len] by blast
  have step: "writeDataFrame_loop s sid d w =
      (if length (drop (length chunk) d) = 0 then (s1, w + length chunk, None)
       else writeDataFrame_loop s1 sid (drop (length chunk) d) (w + length chunk))"
    unfolding writeDataFrame_loop.simps [of s sid d w] chunk_def [symmetric] Let_def
    using s1 by simp
  show ?case
  proof (cases "length d \<le> 65535")
    case True
    then have "chunk = d" by (simp add: chunk_def)
    then show ?thesis using step ws True "1.prems"(1)
      by (auto simp: data_chunks.simps [of d] intro!: exI [of _ "psh sid chunk # map waste ws"])
  next
    case False
    then have c: "chunk = take 65535 d" "length (drop (length chunk) d) \<noteq> 0" "length chunk = 65535"
      by (simp_all add: chunk_def)
    have b1: "scheme_bounded (s_padding s1)" using rel "1.prems"(2) by (simp add: write_frame_rel_def)
    have rest: "writeDataFrame_loop s1 sid (drop (length chunk) d) (w + length chunk) = (s', n, None)"
      using step "1.prems"(1) c(2) by simp
    obtain fs where fs: "n = w + length chunk + length (drop (length chunk) d)" "sends s1 fs s'"
        "filter not_waste fs = map (psh sid) (data_chunks (drop (length chunk) d))"
      using "1.IH" [OF chunk_def s1 [symmetric] refl refl c(2) rest b1] by blast
    have "filter not_waste ((psh sid chunk # map waste ws) @ fs) = map (psh sid) (data_chunks d)"
      using fs(3) c False by (simp add: data_chunks.simps [of d])
    then show ?thesis using sends_trans [OF ws fs(2)] fs(1) c False by auto
  qed
qed

end
