(* ===== verification/Stream.thy ===== *)
theory Stream
  imports Session_Write
begin

text \<open>
  The operations of a stream (\<^verbatim>\<open>proxy/session/stream.go\<close>) and the part of the session they
  call. A stream is named by its reference into the session's store. The bytes that
  \<^verbatim>\<open>pipeR.Read\<close> returned are an argument of \<open>Stream_Read\<close>; the pipe itself is modelled in
  \<^verbatim>\<open>Pipe\<close>.
\<close>

section \<open>Closing a stream\<close>

definition err_of :: "'a result \<Rightarrow> go_error option" where
  "err_of r = (case r of Inl e \<Rightarrow> Some e | Inr _ \<Rightarrow> None)"

definition streamClosed :: "session \<Rightarrow> u32 \<Rightarrow> session \<times> go_error option" where
  "streamClosed s sid =
     (if Session_IsClosed s then (s, Some ErrClosedPipe)
      else let (s', r) = writeControlFrame s (newFrame cmdFIN sid)
           in (s'\<lparr>s_streams := AList.delete sid (s_streams s')\<rparr>, err_of r))"

definition closeWithError :: "session \<Rightarrow> nat \<Rightarrow> go_error \<Rightarrow> session \<times> go_error option" where
  "closeWithError s r e =
     (let st = s_store s ! r
      in if st_dieOnce st then (s, st_dieErr st)
         else let s1 = update_stream (\<lambda>st. st\<lparr>st_dieOnce := True, st_dieErr := Some e,
                                              st_pipeDone := True\<rparr>) r s;
                  (s2, err) = streamClosed s1 (st_id st)
              in (update_stream (\<lambda>st. st\<lparr>st_dieHook := fire (st_dieHook st)\<rparr>) r s2, err))"

definition Stream_Close :: "session \<Rightarrow> nat \<Rightarrow> session \<times> go_error option" where
  "Stream_Close s r = closeWithError s r ErrClosedPipe"

section \<open>Traffic counters\<close>

text \<open>A \<^verbatim>\<open>TrafficCounter\<close> is a pair (Tx, Rx) of 64-bit counters.\<close>

definition AddTx :: "nat \<Rightarrow> u64 \<times> u64 \<Rightarrow> u64 \<times> u64" where
  "AddTx n = (\<lambda>(tx, rx). (tx + word_of_nat n, rx))"

definition AddRx :: "nat \<Rightarrow> u64 \<times> u64 \<Rightarrow> u64 \<times> u64" where
  "AddRx n = (\<lambda>(tx, rx). (tx, rx + word_of_nat n))"

definition account :: "(u64 \<times> u64 \<Rightarrow> u64 \<times> u64) \<Rightarrow> nat \<Rightarrow> session \<Rightarrow> session" where
  "account add r s =
     (let st = s_store s ! r;
          s1 = (if st_CountIdentity st then s\<lparr>s_Identity := map_option add (s_Identity s)\<rparr> else s)
      in update_stream (\<lambda>st. st\<lparr>st_Counter := map_option add (st_Counter st)\<rparr>) r s1)"

section \<open>Reading and writing\<close>

definition Stream_Read ::
  "session \<Rightarrow> nat \<Rightarrow> nat \<times> go_error option \<Rightarrow> session \<times> nat \<times> go_error option" where
  "Stream_Read s r piped =
     (let (n, err) = piped;
          dieErr = st_dieErr (s_store s ! r);
          err' = (if n = 0 \<and> dieErr \<noteq> None then dieErr else err)
      in (if n > 0 then account (AddTx n) r s else s, n, err'))"

definition Stream_Write ::
  "session \<Rightarrow> nat \<Rightarrow> bytes \<Rightarrow> session \<times> nat \<times> go_error option" where
  "Stream_Write s r b =
     (let st = s_store s ! r
      in if st_writeExpired st then (s, 0, Some ErrDeadlineExceeded)
         else case st_dieErr st of
           Some e \<Rightarrow> (s, 0, Some e)
         | None \<Rightarrow>
             (let (s', n, err) = writeDataFrame s (st_id st) b
              in (if n > 0 then account (AddRx n) r s' else s', n, err)))"

section \<open>Handshake reports\<close>

text \<open>The server's report on the outbound connection. \<open>err\<close> is the error's message,
  \<open>None\<close> for a nil error.\<close>

definition HandshakeFailure :: "session \<Rightarrow> nat \<Rightarrow> string option \<Rightarrow> session \<times> go_error option" where
  "HandshakeFailure s r err =
     (let once = \<not> st_reportOnce (s_store s ! r);
          s1 = update_stream (\<lambda>st. st\<lparr>st_reportOnce := True\<rparr>) r s
      in case err of
           None \<Rightarrow> (s1, None)
         | Some msg \<Rightarrow>
             if once \<and> s_peerVersion s1 \<ge> 2 then
               (let (s2, res) = writeControlFrame s1
                   ((newFrame cmdSYNACK (st_id (s_store s ! r)))\<lparr>f_data := bytes_of msg\<rparr>)
                in (s2, err_of res))
             else (s1, None))"

definition HandshakeSuccess :: "session \<Rightarrow> nat \<Rightarrow> session \<times> go_error option" where
  "HandshakeSuccess s r =
     (let once = \<not> st_reportOnce (s_store s ! r);
          s1 = update_stream (\<lambda>st. st\<lparr>st_reportOnce := True\<rparr>) r s
      in if once \<and> s_peerVersion s1 \<ge> 2 then
           (let (s2, res) = writeControlFrame s1 (newFrame cmdSYNACK (st_id (s_store s ! r)))
            in (s2, err_of res))
         else (s1, None))"

end
