(* ===== verification/Session_Loop.thy ===== *)
theory Session_Loop
  imports Stream
begin

text \<open>
  The receive loop of a session and the operations that open streams
  (\<^verbatim>\<open>proxy/session/session.go\<close>). Each branch of the loop's switch is one definition; a step
  either goes on with the loop or returns from it with an error or nil.
\<close>

section \<open>Opening, accepting and refusing streams\<close>

definition maxServerStreams :: nat where
  "maxServerStreams = 1024"

text \<open>Put a new stream into the store and register it.\<close>

definition register :: "u32 \<Rightarrow> session \<Rightarrow> session" where
  "register sid s =
     s\<lparr>s_store := s_store s @ [newStream sid],
       s_streams := AList.update sid (length (s_store s)) (s_streams s)\<rparr>"

definition OpenStream :: "session \<Rightarrow> session \<times> nat result" where
  "OpenStream s =
     (if Session_IsClosed s then (s, Inl ErrClosedPipe)
      else let sid = s_streamId s + 1;
               s1 = s\<lparr>s_streamId := sid\<rparr>;
               s2 = (if sid \<ge> 2 \<and> s_peerVersion s1 \<ge> 2 then s1\<lparr>s_synDone := True\<rparr> else s1)
           in case writeControlFrame s2 (newFrame cmdSYN sid) of
                (s3, Inl e) \<Rightarrow> (s3, Inl e)
              | (s3, Inr _) \<Rightarrow>
                  (let s4 = s3\<lparr>s_buffering := False\<rparr>
                   in if s_die s4 then (s4, Inl ErrClosedPipe)
                      else (register sid s4, Inr (length (s_store s4)))))"

text \<open>The deadline that \<^verbatim>\<open>OpenStream\<close> arms fires: the session is closed.\<close>

definition synTimeout :: "session \<Rightarrow> session" where
  "synTimeout s = (if s_synDone s then fst (Session_Close s) else s)"

text \<open>
  The handler that \<^verbatim>\<open>acceptStream\<close> starts runs in its own goroutine: its operations on the
  stream are later steps.
\<close>

definition acceptStream :: "session \<Rightarrow> u32 \<Rightarrow> session \<times> bool" where
  "acceptStream s sid =
     (if map_of (s_streams s) sid \<noteq> None then (s, True)
      else if \<not> s_isClient s \<and> length (s_streams s) \<ge> maxServerStreams then (s, False)
      else (register sid s, True))"

definition refuseStream :: "session \<Rightarrow> u32 \<Rightarrow> session \<times> go_error option" where
  "refuseStream s sid =
     (let f = (if s_peerVersion s \<ge> 2
               then (newFrame cmdSYNACK sid)\<lparr>f_data := bytes_of ''too many streams''\<rparr>
               else newFrame cmdFIN sid);
          (s', r) = writeControlFrame s f
      in (s', err_of r))"

section \<open>The receive loop\<close>

datatype recv_res = Continue | Return "go_error option"

text \<open>Read the payload a header announces, if any, and go on with it.\<close>

definition with_body ::
  "session \<Rightarrow> rawHeader \<Rightarrow> (session \<Rightarrow> bytes \<Rightarrow> session \<times> recv_res) \<Rightarrow> session \<times> recv_res" where
  "with_body s hdr k =
     (if rawHeader_Length hdr > 0 then
        (case netConn_ReadFull (s_conn s) (unat (rawHeader_Length hdr)) of
           (c, Inl e) \<Rightarrow> (s\<lparr>s_conn := c\<rparr>, Return (Some e))
         | (c, Inr buffer) \<Rightarrow> k (s\<lparr>s_conn := c\<rparr>) buffer)
      else (s, Continue))"

text \<open>
  \<^verbatim>\<open>pipeW.Write\<close> blocks until the reader has taken all of the buffer or the pipe is closed;
  the step is over when it returns.
\<close>

definition deliver :: "bytes \<Rightarrow> stream \<Rightarrow> stream" where
  "deliver b st = (if st_pipeDone st then st else st\<lparr>st_read := st_read st @ b\<rparr>)"

definition recv_PSH :: "session \<Rightarrow> rawHeader \<Rightarrow> session \<times> recv_res" where
  "recv_PSH s hdr = with_body s hdr (\<lambda>s buffer.
     case map_of (s_streams s) (rawHeader_StreamID hdr) of
       Some r \<Rightarrow> (update_stream (deliver buffer) r s, Continue)
     | None \<Rightarrow> (s, Continue))"

definition alert_no_settings :: frame where
  "alert_no_settings = (newFrame cmdAlert 0)\<lparr>f_data := bytes_of ''client did not send its settings''\<rparr>"

definition recv_SYN :: "session \<Rightarrow> rawHeader \<Rightarrow> session \<times> recv_res" where
  "recv_SYN s hdr =
     (let sid = rawHeader_StreamID hdr
      in if \<not> s_isClient s \<and> \<not> s_recvSettings s then
           (fst (writeControlFrame s alert_no_settings), Return None)
         else let (s1, ok) = acceptStream s sid
              in if \<not> ok then
                   (case refuseStream s1 sid of
                      (s2, Some e) \<Rightarrow> (s2, Return (Some e))
                    | (s2, None) \<Rightarrow> (s2, Continue))
                 else (s1, Continue))"

definition recv_SYNACK :: "session \<Rightarrow> rawHeader \<Rightarrow> session \<times> recv_res" where
  "recv_SYNACK s hdr = with_body (s\<lparr>s_synDone := False\<rparr>) hdr (\<lambda>s buffer.
     case map_of (s_streams s) (rawHeader_StreamID hdr) of
       Some r \<Rightarrow> (fst (closeWithError s r (RemoteError (string_of buffer))), Continue)
     | None \<Rightarrow> (s, Continue))"

definition recv_FIN :: "session \<Rightarrow> rawHeader \<Rightarrow> session \<times> recv_res" where
  "recv_FIN s hdr =
     (let sid = rawHeader_StreamID hdr;
          stream = map_of (s_streams s) sid;
          s1 = s\<lparr>s_streams := AList.delete sid (s_streams s)\<rparr>
      in case stream of
           Some r \<Rightarrow> (update_stream closeLocally r s1, Continue)
         | None \<Rightarrow> (s1, Continue))"

definition recv_Waste :: "session \<Rightarrow> rawHeader \<Rightarrow> session \<times> recv_res" where
  "recv_Waste s hdr = with_body s hdr (\<lambda>s buffer. (s, Continue))"

text \<open>Both halves of the reply to a client's settings end the loop if their write fails.\<close>

definition reply_scheme :: "session \<Rightarrow> StringMap \<Rightarrow> session \<times> go_error option" where
  "reply_scheme s m =
     (let paddingF = s_padding s
      in if StringMap_get m ''padding-md5'' \<noteq> pf_Md5 paddingF then
           (let (s', r) = writeControlFrame s
               ((newFrame cmdUpdatePaddingScheme 0)\<lparr>f_data := pf_RawScheme paddingF\<rparr>)
            in (s', err_of r))
         else (s, None))"

definition reply_version :: "session \<Rightarrow> StringMap \<Rightarrow> session \<times> go_error option" where
  "reply_version s m =
     (case Atoi (StringMap_get m ''v'') of
        Some v \<Rightarrow>
          if v \<ge> 2 then
            (let (s', r) = writeControlFrame (s\<lparr>s_peerVersion := word_of_int v\<rparr>)
                ((newFrame cmdServerSettings 0)\<lparr>f_data := StringMap_ToBytes [(''v'', ''2'')]\<rparr>)
             in (s', err_of r))
          else (s, None)
      | None \<Rightarrow> (s, None))"

definition recv_Settings :: "session \<Rightarrow> rawHeader \<Rightarrow> session \<times> recv_res" where
  "recv_Settings s hdr = with_body s hdr (\<lambda>s buffer.
     if \<not> s_isClient s then
       (let s1 = s\<lparr>s_recvSettings := True\<rparr>; m = StringMapFromBytes buffer
        in case reply_scheme s1 m of
             (s2, Some e) \<Rightarrow> (s2, Return (Some e))
           | (s2, None) \<Rightarrow>
               (case reply_version s2 m of
                  (s3, Some e) \<Rightarrow> (s3, Return (Some e))
                | (s3, None) \<Rightarrow> (s3, Continue)))
     else (s, Continue))"

definition recv_Alert :: "session \<Rightarrow> rawHeader \<Rightarrow> session \<times> recv_res" where
  "recv_Alert s hdr = with_body s hdr (\<lambda>s buffer. (s, Return None))"

definition recv_UpdatePaddingScheme :: "session \<Rightarrow> rawHeader \<Rightarrow> session \<times> recv_res" where
  "recv_UpdatePaddingScheme s hdr = with_body s hdr (\<lambda>s rawScheme.
     if s_isClient s \<and> \<not> e_debugPadding (s_env s) then
       (s\<lparr>s_padding := fst (UpdatePaddingScheme (e_md5 (s_env s)) (s_padding s) rawScheme)\<rparr>, Continue)
     else (s, Continue))"

definition recv_HeartRequest :: "session \<Rightarrow> rawHeader \<Rightarrow> session \<times> recv_res" where
  "recv_HeartRequest s hdr =
     (case writeControlFrame s (newFrame cmdHeartResponse (rawHeader_StreamID hdr)) of
        (s', Inl e) \<Rightarrow> (s', Return (Some e))
      | (s', Inr _) \<Rightarrow> (s', Continue))"

definition recv_ServerSettings :: "session \<Rightarrow> rawHeader \<Rightarrow> session \<times> recv_res" where
  "recv_ServerSettings s hdr = with_body s hdr (\<lambda>s buffer.
     if s_isClient s then
       (case Atoi (StringMap_get (StringMapFromBytes buffer) ''v'') of
          Some v \<Rightarrow> (if v \<ge> 0 then s\<lparr>s_peerVersion := word_of_int v\<rparr> else s, Continue)
        | None \<Rightarrow> (s, Continue))
     else (s, Continue))"

definition dispatch :: "session \<Rightarrow> rawHeader \<Rightarrow> session \<times> recv_res" where
  "dispatch s hdr =
     (let c = rawHeader_Cmd hdr in
      if c = cmdPSH then recv_PSH s hdr
      else if c = cmdSYN then recv_SYN s hdr
      else if c = cmdSYNACK then recv_SYNACK s hdr
      else if c = cmdFIN then recv_FIN s hdr
      else if c = cmdWaste then recv_Waste s hdr
      else if c = cmdSettings then recv_Settings s hdr
      else if c = cmdAlert then recv_Alert s hdr
      else if c = cmdUpdatePaddingScheme then recv_UpdatePaddingScheme s hdr
      else if c = cmdHeartRequest then recv_HeartRequest s hdr
      else if c = cmdHeartResponse then (s, Continue)
      else if c = cmdServerSettings then recv_ServerSettings s hdr
      else (s, Continue))"

text \<open>One turn of the loop.\<close>

definition recv_step :: "session \<Rightarrow> session \<times> recv_res" where
  "recv_step s =
     (if Session_IsClosed s then (s, Return (Some ErrClosedPipe))
      else case netConn_ReadFull (s_conn s) headerOverHeadSize of
        (c, Inl e) \<Rightarrow> (s\<lparr>s_conn := c\<rparr>, Return (Some e))
      | (c, Inr hdr) \<Rightarrow> dispatch (s\<lparr>s_conn := c\<rparr>) hdr)"

end
