(* ===== verification/Session_Inv.thy ===== *)
theory Session_Inv
  imports Session_Recv
begin

text \<open>
  The invariant of a session and the step relation of everything that can happen to it: turns
  of the receive loop, the calls of the program on its streams, the peer, the deadlines.
  \<open>wf_session\<close> holds in every reachable state.
\<close>

section \<open>The invariant\<close>

text \<open>A stream is dead in all its parts or in none.\<close>

definition stream_ok :: "stream \<Rightarrow> bool" where
  "stream_ok st \<longleftrightarrow> (st_dieErr st \<noteq> None \<longleftrightarrow> st_dieOnce st) \<and> (st_pipeDone st \<longleftrightarrow> st_dieOnce st)"

text \<open>A registered reference names a live stream with the right id.\<close>

definition entry_ok :: "stream list \<Rightarrow> u32 \<times> nat \<Rightarrow> bool" where
  "entry_ok sts e \<longleftrightarrow>
     snd e < length sts \<and> st_id (sts ! snd e) = fst e \<and> \<not> st_dieOnce (sts ! snd e)"

definition wf_session :: "session \<Rightarrow> bool" where
  "wf_session s \<longleftrightarrow>
     distinct_keys (s_streams s) \<and>
     list_all stream_ok (s_store s) \<and>
     list_all (entry_ok (s_store s)) (s_streams s) \<and>
     (s_die s \<longrightarrow> s_streams s = []) \<and>
     (\<not> s_isClient s \<longrightarrow>
        length (s_streams s) \<le> maxServerStreams \<and>
        (s_streams s \<noteq> [] \<longrightarrow> s_recvSettings s) \<and>
        (\<forall>r < length (s_store s). \<not> st_dieOnce (s_store s ! r) \<longrightarrow>
           (st_id (s_store s ! r), r) \<in> set (s_streams s)))"

lemma wf_session_cong:
  assumes "s_streams s' = s_streams s" "s_store s' = s_store s" "s_die s' = s_die s"
    "s_isClient s' = s_isClient s" "s_recvSettings s' = s_recvSettings s"
  shows "wf_session s' = wf_session s"
  using assms by (simp add: wf_session_def)

lemma wf_session_upd [simp]:
  "wf_session (s\<lparr>s_conn := x1\<rparr>) = wf_session s" "wf_session (s\<lparr>s_streamId := x2\<rparr>) = wf_session s"
  "wf_session (s\<lparr>s_synDone := x3\<rparr>) = wf_session s" "wf_session (s\<lparr>s_padding := x4\<rparr>) = wf_session s"
  "wf_session (s\<lparr>s_peerVersion := x5\<rparr>) = wf_session s"
  "wf_session (s\<lparr>s_buffering := x6\<rparr>) = wf_session s"
  "wf_session (s\<lparr>s_Identity := x7\<rparr>) = wf_session s"
  by (simp_all add: wf_session_def)

lemma wf_session_write: "write_frame_rel s s' \<Longrightarrow> wf_session s' = wf_session s"
  by (rule wf_session_cong) (simp_all add: write_frame_rel_def)

lemma wf_session_recvSettings: "wf_session s \<Longrightarrow> wf_session (s\<lparr>s_recvSettings := True\<rparr>)"
  by (auto simp: wf_session_def)

lemma stream_ok_closeLocally: "stream_ok st \<Longrightarrow> stream_ok (closeLocally st)"
  by (simp add: stream_ok_def closeLocally_def)

lemma closeLocally_dieOnce [simp]: "st_dieOnce (closeLocally st)"
  by (simp add: closeLocally_def)

lemma closeLocally_id [simp]: "st_id (closeLocally st) = st_id st"
  by (simp add: closeLocally_def)

section \<open>Every operation keeps it\<close>

lemma wf_Session_Close:
  assumes "wf_session s"
  shows "wf_session (fst (Session_Close s))"
proof (cases "s_die s")
  case True
  then show ?thesis using assms by (simp add: Session_Close_def)
next
  case False
  obtain st where c: "Session_Close s =
      (s\<lparr>s_die := True, s_dieHook := fire (s_dieHook s), s_store := st, s_streams := [],
         s_conn := netConn_Close (s_conn s)\<rparr>, None)" "length st = length (s_store s)"
    and nth: "\<forall>i < length st. st ! i = (if i \<in> snd ` set (s_streams s)
          then closeLocally (s_store s ! i) else s_store s ! i)"
    using Session_Close_open [OF False] by auto
  have "stream_ok (st ! i)" if "i < length st" for i
    using assms nth c(2) that stream_ok_closeLocally
    by (auto simp: wf_session_def list_all_length)
  moreover have "st_dieOnce (st ! i)" if "i < length st" "\<not> s_isClient s" for i
    using assms nth c(2) that by (force simp: wf_session_def)
  ultimately show ?thesis using c by (auto simp: wf_session_def list_all_length)
qed

lemma wf_writeControlFrame:
  assumes "wf_session s"
  shows "wf_session (fst (writeControlFrame s f))"
proof (cases rule: writeControlFrame_cases [of s f])
  case (wait e)
  then show ?thesis using assms by (simp add: wf_Session_Close)
next
  case (fail bp s1 e)
  then show ?thesis
    using assms doWriteConn_frame [OF fail(1)] by (simp add: wf_Session_Close wf_session_write)
next
  case (ok bp s1 m)
  then show ?thesis using assms doWriteConn_frame [OF ok(1)] by (simp add: wf_session_write)
qed

lemma wf_writeControlFrame': "writeControlFrame s f = (s', r) \<Longrightarrow> wf_session s \<Longrightarrow> wf_session s'"
  using wf_writeControlFrame [of s f] by simp

text \<open>After a control frame, the registered streams are what they were, or the session is
  closed.\<close>

lemma writeControlFrame_streams:
  assumes "writeControlFrame s f = (s', r)" and "wf_session s"
  shows "s_isClient s' = s_isClient s \<and> s_recvSettings s' = s_recvSettings s \<and>
    (s_die s' \<and> s_streams s' = [] \<or>
     s_die s' = s_die s \<and> s_streams s' = s_streams s \<and> s_store s' = s_store s)"
proof -
  have close: "s_streams (fst (Session_Close t)) = [] \<and> s_isClient (fst (Session_Close t)) = s_isClient t
      \<and> s_recvSettings (fst (Session_Close t)) = s_recvSettings t" if "wf_session t" for t
  proof (cases "s_die t")
    case True
    then show ?thesis using that by (simp add: Session_Close_def wf_session_def)
  next
    case False
    then show ?thesis using Session_Close_open [OF False] by auto
  qed
  show ?thesis
  proof (cases rule: writeControlFrame_cases [of s f])
    case (wait e)
    then show ?thesis using assms close [of s] by auto
  next
    case (fail bp s1 e)
    have rel: "write_frame_rel s s1" using fail(1) by (rule doWriteConn_frame)
    then have "wf_session s1" using assms(2) by (simp add: wf_session_write)
    then show ?thesis using fail(2) assms(1) close [of s1] rel by (auto simp: write_frame_rel_def)
  next
    case (ok bp s1 m)
    then show ?thesis using assms(1) doWriteConn_frame [OF ok(1)] by (auto simp: write_frame_rel_def)
  qed
qed

lemma wf_update_stream:
  assumes "wf_session s"
    and "\<And>st. stream_ok st \<Longrightarrow> stream_ok (f st)"
    and "\<And>st. st_id (f st) = st_id st \<and> st_dieOnce (f st) = st_dieOnce st"
  shows "wf_session (update_stream f r s)"
proof -
  have nth: "s_store (update_stream f r s) ! i = (if i = r then f (s_store s ! i) else s_store s ! i)"
    if "i < length (s_store s)" for i using that by (rule nth_store_update_stream)
  have "list_all stream_ok (s_store (update_stream f r s))"
    using assms(1,2) nth by (auto simp: wf_session_def list_all_length)
  moreover have "list_all (entry_ok (s_store (update_stream f r s))) (s_streams s)"
    using assms(1,3) nth unfolding wf_session_def list_all_iff entry_ok_def by auto
  moreover have "st_dieOnce (s_store (update_stream f r s) ! i) = st_dieOnce (s_store s ! i)"
      "st_id (s_store (update_stream f r s) ! i) = st_id (s_store s ! i)"
    if "i < length (s_store s)" for i using nth [OF that] assms(3) by simp_all
  ultimately show ?thesis using assms(1) by (auto simp: wf_session_def)
qed

lemma set_update_subset: "set (AList.update k v al) \<subseteq> insert (k, v) (set al)"
  by (induction al) (auto split: if_splits)

lemma wf_register:
  assumes "wf_session s" and "\<not> s_die s"
    and "\<not> s_isClient s \<Longrightarrow> map_of (s_streams s) sid = None \<and>
          length (s_streams s) < maxServerStreams \<and> s_recvSettings s"
  shows "wf_session (register sid s)"
proof -
  let ?n = "length (s_store s)"
  let ?st = "s_store s @ [newStream sid]" and ?m = "AList.update sid ?n (s_streams s)"
  have old: "entry_ok ?st e" if "e \<in> set (s_streams s)" for e
    using that assms(1) by (auto simp: wf_session_def list_all_iff entry_ok_def nth_append)
  have set: "set ?m \<subseteq> insert (sid, ?n) (set (s_streams s))"
    by (rule set_update_subset)
  have "entry_ok ?st (sid, ?n)" by (simp add: entry_ok_def newStream_def)
  then have "list_all (entry_ok ?st) ?m" using set old by (auto simp: list_all_iff)
  moreover have "list_all stream_ok ?st"
    using assms(1) by (simp add: wf_session_def stream_ok_def newStream_def)
  moreover have "(st_id (?st ! r), r) \<in> set ?m"
    if "\<not> s_isClient s" "r < length ?st" "\<not> st_dieOnce (?st ! r)" for r
  proof -
    have "set ?m = insert (sid, ?n) (set (s_streams s))"
      using assms(3) [OF that(1)] update_fresh [of sid "s_streams s" ?n]
      by (simp add: map_of_eq_None_iff)
    then show ?thesis using that assms(1)
      by (cases "r < ?n") (auto simp: wf_session_def nth_append newStream_def less_Suc_eq)
  qed
  moreover have "\<not> s_isClient s \<Longrightarrow> length ?m \<le> maxServerStreams"
    using assms(3) by (auto simp: length_update_new)
  ultimately show ?thesis using assms by (auto simp: wf_session_def register_def)
qed

text \<open>Removing a stream from the map and killing it.\<close>

lemma wf_drop_stream:
  assumes "wf_session s" and "r < length (s_store s)"
    and "length st = length (s_store s)"
    and "\<And>i. i < length st \<Longrightarrow> i \<noteq> r \<Longrightarrow> st ! i = s_store s ! i"
    and "stream_ok (st ! r)" "st_dieOnce (st ! r)" "st_id (st ! r) = st_id (s_store s ! r)"
    and "s_streams s' = AList.delete (st_id (s_store s ! r)) (s_streams s)" "s_store s' = st"
    and "s_die s' = s_die s" "s_isClient s' = s_isClient s" "s_recvSettings s' = s_recvSettings s"
    and "\<not> s_isClient s \<Longrightarrow> \<not> st_dieOnce (s_store s ! r)"
  shows "wf_session s'"
proof -
  let ?sid = "st_id (s_store s ! r)"
  have sub: "set (s_streams s') = {e \<in> set (s_streams s). fst e \<noteq> ?sid}"
    using assms(8) by (auto simp: AList.delete_eq)
  have ok: "list_all stream_ok st"
    using assms(1,3,4,5) by (fastforce simp: wf_session_def list_all_length)
  have "entry_ok st e" if e: "e \<in> set (s_streams s')" for e
  proof -
    have en: "entry_ok (s_store s) e" and ne: "fst e \<noteq> ?sid"
      using e sub assms(1) by (auto simp: wf_session_def list_all_iff)
    then have "snd e \<noteq> r" by (auto simp: entry_ok_def)
    then show ?thesis using en assms(3,4) by (simp add: entry_ok_def)
  qed
  then have entries: "list_all (entry_ok st) (s_streams s')" by (simp add: list_all_iff)
  have live: "(st_id (st ! i), i) \<in> set (s_streams s')"
    if "\<not> s_isClient s" "i < length st" "\<not> st_dieOnce (st ! i)" for i
  proof -
    have "i \<noteq> r" using that assms(6) by auto
    then have eq: "st ! i = s_store s ! i" using that assms(4) by simp
    have mem: "(st_id (s_store s ! i), i) \<in> set (s_streams s)" "(?sid, r) \<in> set (s_streams s)"
      using that eq assms(1,2,3,13) by (auto simp: wf_session_def)
    have "distinct_keys (s_streams s)" using assms(1) by (simp add: wf_session_def)
    then have "st_id (s_store s ! i) \<noteq> ?sid"
      using mem \<open>i \<noteq> r\<close> by (metis map_of_SomeI option.inject)
    then show ?thesis using mem sub eq by auto
  qed
  have dist: "distinct_keys (s_streams s')" using assms(1,8) by (simp add: wf_session_def)
  have len: "length (s_streams s') \<le> length (s_streams s)"
    using assms(8) by (simp add: length_delete_le)
  have die: "s_die s' \<longrightarrow> s_streams s' = []"
    using assms(1,8,10) by (auto simp: wf_session_def)
  have srv: "\<not> s_isClient s' \<longrightarrow> length (s_streams s') \<le> maxServerStreams
      \<and> (s_streams s' \<noteq> [] \<longrightarrow> s_recvSettings s')"
    using assms(1,11,12) len order_trans [OF len] by (auto simp: wf_session_def assms(8))
  show ?thesis
    unfolding wf_session_def using dist ok entries die srv live assms(9,11) by auto
qed

text \<open>What a control frame does to a session that is open, whether or not the invariant holds
  there: nothing to its streams, or it closes all of them.\<close>

lemma writeControlFrame_outcome:
  assumes "writeControlFrame s f = (s', r)" and "\<not> s_die s"
  shows "s_isClient s' = s_isClient s \<and> s_recvSettings s' = s_recvSettings s \<and>
    (\<not> s_die s' \<and> s_streams s' = s_streams s \<and> s_store s' = s_store s \<or>
     s_die s' \<and> s_streams s' = [] \<and> length (s_store s') = length (s_store s) \<and>
     (\<forall>i < length (s_store s). s_store s' ! i =
        (if i \<in> snd ` set (s_streams s) then closeLocally (s_store s ! i) else s_store s ! i)))"
proof -
  have close: ?thesis if rel: "write_frame_rel s t" and "s' = fst (Session_Close t)" for t
  proof -
    have t: "\<not> s_die t" "s_streams t = s_streams s" "s_store t = s_store s"
        "s_isClient t = s_isClient s" "s_recvSettings t = s_recvSettings s"
      using rel assms(2) by (simp_all add: write_frame_rel_def)
    obtain st where "fst (Session_Close t) = t\<lparr>s_die := True, s_dieHook := fire (s_dieHook t),
          s_store := st, s_streams := [], s_conn := netConn_Close (s_conn t)\<rparr>"
        "length st = length (s_store t)"
      and nth: "\<forall>i < length st. st ! i = (if i \<in> snd ` set (s_streams t)
          then closeLocally (s_store t ! i) else s_store t ! i)"
      using Session_Close_open [OF t(1)] by auto
    then show ?thesis unfolding that(2) using t by simp
  qed
  show ?thesis
  proof (cases rule: writeControlFrame_cases [of s f])
    case (wait e)
    then show ?thesis using close [OF write_frame_rel_refl] assms(1) by simp
  next
    case (fail bp s1 e)
    then show ?thesis using close [OF doWriteConn_frame [OF fail(1)]] assms(1) by simp
  next
    case (ok bp s1 m)
    then show ?thesis using assms doWriteConn_frame [OF ok(1)] by (auto simp: write_frame_rel_def)
  qed
qed

lemma wf_closedI:
  assumes "s_die s" "s_streams s = []" "list_all stream_ok (s_store s)"
    "\<not> s_isClient s \<Longrightarrow> list_all st_dieOnce (s_store s)"
  shows "wf_session s"
  using assms by (auto simp: wf_session_def list_all_length distinct_keys_def)

lemma wf_delete_absent:
  "map_of al k = None \<Longrightarrow> AList.delete k al = al"
  by (force simp: AList.delete_eq map_of_eq_None_iff intro!: filter_True)

lemma wf_closeWithError:
  assumes wf: "wf_session s" and r: "r < length (s_store s)"
  shows "wf_session (fst (closeWithError s r e))"
proof (cases "st_dieOnce (s_store s ! r)")
  case True
  then show ?thesis using wf by (simp add: closeWithError_def Let_def)
next
  case live: False
  define kill where "kill = (\<lambda>st::stream. st\<lparr>st_dieOnce := True, st_dieErr := Some e, st_pipeDone := True\<rparr>)"
  define hk where "hk = (\<lambda>st::stream. st\<lparr>st_dieHook := fire (st_dieHook st)\<rparr>)"
  define s1 where "s1 = update_stream kill r s"
  define sid where "sid = st_id (s_store s ! r)"
  obtain s2 err where s2: "streamClosed s1 sid = (s2, err)" by fastforce
  have eq: "fst (closeWithError s r e) = update_stream hk r s2"
    using live s2 unfolding s1_def sid_def kill_def hk_def by (simp add: closeWithError_def Let_def)
  have one: "stream_ok (hk (kill x)) \<and> st_dieOnce (hk (kill x)) \<and> st_id (hk (kill x)) = st_id x
      \<and> stream_ok (kill x) \<and> st_dieOnce (kill x)" for x
    by (simp add: hk_def kill_def stream_ok_def)
  have store1: "length (s_store s1) = length (s_store s)"
      "\<And>i. i < length (s_store s) \<Longrightarrow> s_store s1 ! i = (if i = r then kill (s_store s ! i) else s_store s ! i)"
    unfolding s1_def by (simp_all add: nth_store_update_stream)
  have drop: "wf_session (update_stream hk r s2)"
    if "s_streams s2 = AList.delete sid (s_streams s)" "s_store s2 = s_store s1" "s_die s2 = s_die s"
      "s_isClient s2 = s_isClient s" "s_recvSettings s2 = s_recvSettings s"
    by (rule wf_drop_stream [OF wf r, where st = "s_store (update_stream hk r s2)"])
      (use that store1 one r live in \<open>simp_all add: nth_store_update_stream sid_def\<close>)
  show ?thesis
  proof (cases "s_die s")
    case True
    then have "s2 = s1" using s2 by (simp add: streamClosed_def Session_IsClosed_def s1_def)
    then show ?thesis using eq drop True wf by (simp add: s1_def wf_session_def)
  next
    case False
    obtain s3 x where w: "writeControlFrame s1 (newFrame cmdFIN sid) = (s3, x)" by fastforce
    have s2_eq: "s2 = s3\<lparr>s_streams := AList.delete sid (s_streams s3)\<rparr>"
      using s2 w False by (simp add: streamClosed_def Session_IsClosed_def s1_def Let_def)
    note out = writeControlFrame_outcome [OF w]
    have die1: "\<not> s_die s1" using False by (simp add: s1_def)
    show ?thesis
    proof (cases "s_die s3")
      case die: False
      then show ?thesis unfolding eq using out [OF die1] False
        by (intro drop) (simp_all add: s2_eq s1_def)
    next
      case die: True
      have nth3: "s_store s3 ! i = (if i \<in> snd ` set (s_streams s) then closeLocally (s_store s1 ! i)
            else s_store s1 ! i)" if "i < length (s_store s)" for i
        using out [OF die1] die that store1 by (simp add: s1_def)
      have len3: "length (s_store s3) = length (s_store s)" "s_streams s3 = []"
          "s_isClient s3 = s_isClient s"
        using out [OF die1] die store1 by (simp_all add: s1_def)
      have ok: "stream_ok (s_store s1 ! i)" if "i < length (s_store s)" for i
        using that wf store1(2) [OF that] one by (simp add: wf_session_def list_all_length)
      have ok3: "stream_ok (hk x)" if "stream_ok x" for x using that by (simp add: stream_ok_def hk_def)
      have dead: "st_dieOnce (s_store s3 ! i)" if i: "i < length (s_store s)" "\<not> s_isClient s" for i
      proof (cases "i \<in> snd ` set (s_streams s)")
        case True
        then show ?thesis using nth3 [OF i(1)] by simp
      next
        case F: False
        then have "i = r \<or> st_dieOnce (s_store s ! i)" using wf i by (force simp: wf_session_def)
        then show ?thesis using F nth3 [OF i(1)] store1(2) [OF i(1)] one by auto
      qed
      show ?thesis unfolding eq
      proof (rule wf_closedI)
        show "s_die (update_stream hk r s2)" "s_streams (update_stream hk r s2) = []"
          using die len3 by (simp_all add: s2_eq)
        show "list_all stream_ok (s_store (update_stream hk r s2))"
          using nth3 ok stream_ok_closeLocally len3 ok3
          by (auto simp: s2_eq list_all_length nth_store_update_stream)
        show "list_all st_dieOnce (s_store (update_stream hk r s2))"
          if "\<not> s_isClient (update_stream hk r s2)"
          using that dead len3 by (auto simp: s2_eq list_all_length nth_store_update_stream hk_def)
      qed
    qed
  qed
qed

lemma wf_recv_FIN:
  assumes "wf_session s"
  shows "wf_session (fst (recv_FIN s hdr))"
proof (cases "map_of (s_streams s) (rawHeader_StreamID hdr)")
  case None
  then show ?thesis using assms by (simp add: recv_FIN_def Let_def wf_delete_absent)
next
  case (Some r)
  let ?sid = "rawHeader_StreamID hdr"
  have e: "entry_ok (s_store s) (?sid, r)"
    using assms map_of_SomeD [OF Some] by (auto simp: wf_session_def list_all_iff)
  then have r: "r < length (s_store s)" "st_id (s_store s ! r) = ?sid" "\<not> st_dieOnce (s_store s ! r)"
    by (simp_all add: entry_ok_def)
  have ok: "stream_ok (s_store s ! r)" using assms r by (simp add: wf_session_def list_all_length)
  let ?s1 = "s\<lparr>s_streams := AList.delete ?sid (s_streams s)\<rparr>"
  have "wf_session (update_stream closeLocally r ?s1)"
    by (rule wf_drop_stream [OF assms r(1), where st = "s_store (update_stream closeLocally r ?s1)"])
      (use r ok stream_ok_closeLocally in \<open>simp_all add: nth_store_update_stream\<close>)
  then show ?thesis using Some by (simp add: recv_FIN_def Let_def)
qed

lemma wf_deliver: "wf_session s \<Longrightarrow> wf_session (update_stream (deliver b) r s)"
  by (rule wf_update_stream) (auto simp: deliver_def stream_ok_def)

lemma wf_with_body:
  assumes "wf_session s" and "\<And>c b. wf_session (fst (k (s\<lparr>s_conn := c\<rparr>) b))"
  shows "wf_session (fst (with_body s hdr k))"
  using assms by (simp add: with_body_def split: prod.split sum.split)

lemma wf_recv_SYN:
  assumes "wf_session s" and "\<not> s_die s"
  shows "wf_session (fst (recv_SYN s hdr))"
proof -
  let ?sid = "rawHeader_StreamID hdr"
  have "wf_session (fst (acceptStream s ?sid))" if "s_isClient s \<or> s_recvSettings s"
    unfolding acceptStream_def using assms that by (auto intro!: wf_register)
  then show ?thesis
    using assms(1) wf_writeControlFrame
    by (auto simp: recv_SYN_def refuseStream_def Let_def case_prod_unfold split: option.split)
qed

lemma wf_recv_SYNACK:
  assumes "wf_session s"
  shows "wf_session (fst (recv_SYNACK s hdr))"
proof -
  have lt: "r < length (s_store s)" if "map_of (s_streams s) sid = Some r" for sid r
    using assms map_of_SomeD [OF that] by (auto simp: wf_session_def list_all_iff entry_ok_def)
  show ?thesis unfolding recv_SYNACK_def
    by (rule wf_with_body) (use assms lt in \<open>auto intro!: wf_closeWithError split: option.split\<close>)
qed

lemma wf_reply_scheme: "wf_session s \<Longrightarrow> wf_session (fst (reply_scheme s m))"
  by (simp add: reply_scheme_def Let_def case_prod_unfold wf_writeControlFrame)

lemma wf_reply_version: "wf_session s \<Longrightarrow> wf_session (fst (reply_version s m))"
  by (simp add: reply_version_def Let_def case_prod_unfold wf_writeControlFrame split: option.split)

lemma wf_recv_Settings:
  assumes "wf_session s"
  shows "wf_session (fst (recv_Settings s hdr))"
  unfolding recv_Settings_def
  by (rule wf_with_body)
    (auto simp: assms Let_def case_prod_unfold wf_reply_scheme wf_reply_version wf_session_recvSettings
      split: option.split)

lemma wf_dispatch:
  assumes "wf_session s" and "\<not> s_die s"
  shows "wf_session (fst (dispatch s hdr))"
proof -
  have "wf_session (fst (recv_PSH s hdr))" unfolding recv_PSH_def
    by (rule wf_with_body) (auto simp: assms wf_deliver split: option.split)
  moreover have "wf_session (fst (recv_Waste s hdr))" "wf_session (fst (recv_Alert s hdr))"
      "wf_session (fst (recv_UpdatePaddingScheme s hdr))"
    unfolding recv_Waste_def recv_Alert_def recv_UpdatePaddingScheme_def
    by (rule wf_with_body; simp add: assms)+
  moreover have "wf_session (fst (recv_ServerSettings s hdr))" unfolding recv_ServerSettings_def
    by (rule wf_with_body) (auto simp: assms split: option.split)
  moreover have "wf_session (fst (recv_HeartRequest s hdr))"
    using assms(1) by (auto simp: recv_HeartRequest_def dest: wf_writeControlFrame' split: prod.split sum.split)
  ultimately show ?thesis
    using assms wf_recv_SYN wf_recv_SYNACK wf_recv_FIN wf_recv_Settings by (simp add: dispatch_def Let_def)
qed

lemma wf_recv_step: "wf_session s \<Longrightarrow> wf_session (fst (recv_step s))"
  by (simp add: recv_step_def Session_IsClosed_def wf_dispatch split: prod.split sum.split)

lemma wf_synTimeout: "wf_session s \<Longrightarrow> wf_session (synTimeout s)"
  by (simp add: synTimeout_def wf_Session_Close)

lemma wf_OpenStream:
  assumes "wf_session s" and "s_isClient s"
  shows "wf_session (fst (OpenStream s))"
proof (cases "s_die s")
  case True
  then show ?thesis using assms by (simp add: OpenStream_def Session_IsClosed_def)
next
  case False
  define s2 where "s2 = (let s1 = s\<lparr>s_streamId := s_streamId s + 1\<rparr> in
    if s_streamId s + 1 \<ge> 2 \<and> s_peerVersion s \<ge> 2 then s1\<lparr>s_synDone := True\<rparr> else s1)"
  obtain s3 x where w: "writeControlFrame s2 (newFrame cmdSYN (s_streamId s + 1)) = (s3, x)" by fastforce
  have wf2: "wf_session s2" "s_isClient s2" using assms by (simp_all add: s2_def Let_def)
  have wf3: "wf_session s3" "s_isClient s3"
    using wf_writeControlFrame' [OF w wf2(1)] writeControlFrame_streams [OF w wf2(1)] wf2(2) by simp_all
  have "wf_session (register sid (s3\<lparr>s_buffering := False\<rparr>))" if "\<not> s_die s3" for sid
    by (rule wf_register) (use wf3 that in simp_all)
  then show ?thesis using False w wf3 unfolding s2_def
    by (auto simp: OpenStream_def Session_IsClosed_def Let_def split: sum.split)
qed

end
