(* ===== verification/Session_Steps.thy ===== *)
theory Session_Steps
  imports Session_Inv
begin

text \<open>
  Everything that can happen to a session, as a step relation: turns of the receive loop,
  calls of the program on the session and its streams, deadlines, the peer, and updates of
  the shared padding factory. The invariant of \<^verbatim>\<open>Session_Inv\<close> holds in every reachable
  state, closing is final, and a closed session never sends again.
\<close>

section \<open>Starting a session\<close>

definition ProgramVersionName :: string where
  "ProgramVersionName = ''anytls/2026.10.17''"

text \<open>The settings frame of a client; the order of the lines is the iteration order of the
  map.\<close>

definition client_settings :: "session \<Rightarrow> StringMap" where
  "client_settings s = e_iter (s_env s)
     [(''v'', ''2''), (''client'', ProgramVersionName), (''padding-md5'', pf_Md5 (s_padding s))]"

definition Session_Run :: "session \<Rightarrow> session" where
  "Session_Run s =
     (if \<not> s_isClient s then fst (recvLoop s)
      else let f = (newFrame cmdSettings 0)\<lparr>f_data := StringMap_ToBytes (client_settings s)\<rparr>
           in fst (writeControlFrame (s\<lparr>s_buffering := True\<rparr>) f))"

section \<open>Stream operations keep the invariant\<close>

text \<open>Whatever every single write respects, a write cut into frames respects.\<close>

lemma writeDataFrame_loop_rel:
  assumes trans: "\<And>s t u. R s t \<Longrightarrow> R t u \<Longrightarrow> R s u"
    and one: "\<And>s b s' r. doWriteConn s b False = (s', r) \<Longrightarrow> R s s'"
    and "writeDataFrame_loop s sid d w = (s', n, e)"
  shows "R s s'"
  using assms(3)
proof (induction s sid d w arbitrary: s' n e rule: writeDataFrame_loop.induct)
  case (1 s sid d w)
  define chunk where "chunk = take (min (length d) maxFramePayload) d"
  obtain s1 e1 where s1: "writeDataChunk s sid chunk = (s1, e1)" by fastforce
  then have rel: "R s s1"
    by (auto simp: writeDataChunk_def writeConn_def dest: one split: prod.splits sum.splits)
  note IH = "1.IH" [OF chunk_def s1 [symmetric] _ refl]
  show ?case
  proof (cases "e1 = None \<and> drop (length chunk) d \<noteq> []")
    case True
    then have "writeDataFrame_loop s1 sid (drop (length chunk) d) (w + length chunk) = (s', n, e)"
      using "1.prems" s1 by (simp add: writeDataFrame_loop.simps [of s sid d w] chunk_def Let_def)
    then have "R s1 s'" using IH True by simp
    then show ?thesis using rel by (rule trans [rotated])
  next
    case False
    then have "s' = s1" using "1.prems" s1
      by (cases e1) (auto simp: writeDataFrame_loop.simps [of s sid d w] chunk_def Let_def)
    then show ?thesis using rel by simp
  qed
qed

lemma writeDataFrame_loop_frame:
  "writeDataFrame_loop s sid d w = (s', n, e) \<Longrightarrow> write_frame_rel s s'"
  using writeDataFrame_loop_rel [where R = write_frame_rel] write_frame_rel_trans doWriteConn_frame by blast

lemma wf_account: "wf_session s \<Longrightarrow> wf_session (account add r s)"
  unfolding account_def Let_def by (rule wf_update_stream) (auto simp: stream_ok_def)

lemma wf_Stream_Read: "wf_session s \<Longrightarrow> wf_session (fst (Stream_Read s r piped))"
  by (simp add: Stream_Read_def Let_def wf_account split: prod.split)

lemma wf_Stream_Write:
  assumes "wf_session s"
  shows "wf_session (fst (Stream_Write s r b))"
proof -
  obtain s1 n e where w: "writeDataFrame s (st_id (s_store s ! r)) b = (s1, n, e)" by (metis prod_cases3)
  then have "wf_session s1"
    using assms writeDataFrame_loop_frame wf_session_write by (metis writeDataFrame_def)
  then show ?thesis using assms w by (auto simp: Stream_Write_def Let_def wf_account split: option.split)
qed

lemma wf_report: "wf_session s \<Longrightarrow> wf_session (update_stream (\<lambda>st. st\<lparr>st_reportOnce := True\<rparr>) r s)"
  by (rule wf_update_stream) (simp_all add: stream_ok_def)

lemma wf_HandshakeFailure: "wf_session s \<Longrightarrow> wf_session (fst (HandshakeFailure s r m))"
  by (simp add: HandshakeFailure_def Let_def case_prod_unfold wf_report wf_writeControlFrame split: option.split)

lemma wf_HandshakeSuccess: "wf_session s \<Longrightarrow> wf_session (fst (HandshakeSuccess s r))"
  by (simp add: HandshakeSuccess_def Let_def case_prod_unfold wf_report wf_writeControlFrame)

section \<open>The step relation\<close>

text \<open>The peer may send, stop accepting or fail, but neither takes back what it received nor
  reopens a connection.\<close>

inductive sess_step :: "session \<Rightarrow> session \<Rightarrow> bool" where
  recv: "recv_step s = (s', Continue) \<Longrightarrow> sess_step s s'"
| recv_end: "recv_step s = (s', Return e) \<Longrightarrow> sess_step s (fst (Session_Close s'))"
| start: "s_isClient s \<Longrightarrow> sess_step s (Session_Run s)"
| opened: "s_isClient s \<Longrightarrow> sess_step s (fst (OpenStream s))"
| read: "r < length (s_store s) \<Longrightarrow> sess_step s (fst (Stream_Read s r piped))"
| written: "r < length (s_store s) \<Longrightarrow> sess_step s (fst (Stream_Write s r b))"
| closed_stream: "r < length (s_store s) \<Longrightarrow> sess_step s (fst (Stream_Close s r))"
| hs_failure: "r < length (s_store s) \<Longrightarrow> sess_step s (fst (HandshakeFailure s r m))"
| hs_success: "r < length (s_store s) \<Longrightarrow> sess_step s (fst (HandshakeSuccess s r))"
| close: "sess_step s (fst (Session_Close s))"
| timeout: "sess_step s (synTimeout s)"
| deadline: "sess_step s (update_stream (\<lambda>st. st\<lparr>st_writeExpired := x\<rparr>) r s)"
| counted: "sess_step s (update_stream (\<lambda>st. st\<lparr>st_Counter := c, st_CountIdentity := i\<rparr>) r s)"
| identified: "sess_step s (s\<lparr>s_Identity := i\<rparr>)"
| scheme: "sess_step s (s\<lparr>s_padding := p\<rparr>)"
| peer: "nc_sent c = nc_sent (s_conn s) \<Longrightarrow>
    c_closed (base_conn c) = c_closed (base_conn (s_conn s)) \<Longrightarrow> sess_step s (s\<lparr>s_conn := c\<rparr>)"

inductive reachable :: "session \<Rightarrow> bool" where
  client: "reachable (NewClientSession ev c p)"
| server: "reachable (NewServerSession ev c onNew p)"
| step: "reachable s \<Longrightarrow> sess_step s s' \<Longrightarrow> reachable s'"

inductive_cases sess_stepE: "sess_step s s'"

lemma wf_Session_Run: "wf_session s \<Longrightarrow> s_isClient s \<Longrightarrow> wf_session (Session_Run s)"
  by (simp add: Session_Run_def Let_def wf_writeControlFrame)

lemma wf_sess_step:
  assumes "sess_step s s'" and "wf_session s"
  shows "wf_session s'"
  using assms
proof (cases rule: sess_step.cases)
  case recv
  then show ?thesis using wf_recv_step [OF assms(2)] by simp
next
  case (recv_end t e)
  then show ?thesis using wf_recv_step [OF assms(2)] by (simp add: wf_Session_Close)
next
  case (deadline x r)
  then show ?thesis using assms(2) by (auto intro: wf_update_stream simp: stream_ok_def)
next
  case (counted c i r)
  then show ?thesis using assms(2) by (auto intro: wf_update_stream simp: stream_ok_def)
qed (simp_all add: assms(2) wf_Session_Run wf_OpenStream wf_Stream_Read wf_Stream_Write
  Stream_Close_def wf_closeWithError wf_HandshakeFailure wf_HandshakeSuccess wf_Session_Close wf_synTimeout)

lemma reachable_wf: "reachable s \<Longrightarrow> wf_session s"
proof (induction rule: reachable.induct)
  case (step s s')
  then show ?case by (blast intro: wf_sess_step)
qed (simp_all add: NewClientSession_def NewServerSession_def wf_session_def distinct_keys_def)

section \<open>Relations every operation respects\<close>

text \<open>
  The contract the operations of a session share: each is a sequence of single writes, reads,
  closings, field updates, registrations and changes of a stream that fire its hook at most. A
  reflexive and transitive relation that holds across each of these holds across every operation.
\<close>

definition tame :: "(stream \<Rightarrow> stream) \<Rightarrow> bool" where
  "tame f \<longleftrightarrow> (\<forall>st. st_dieHook (f st) \<in> {st_dieHook st, fire (st_dieHook st)})"

lemma tame_intros [simp, intro]:
  "tame closeLocally" "tame (deliver b)" "tame (\<lambda>st. st\<lparr>st_reportOnce := x\<rparr>)"
  "tame (\<lambda>st. st\<lparr>st_dieOnce := True, st_dieErr := Some e, st_pipeDone := True\<rparr>)"
  "tame (\<lambda>st. st\<lparr>st_dieHook := fire (st_dieHook st)\<rparr>)" "tame (\<lambda>st. st\<lparr>st_Counter := g st\<rparr>)"
  "tame (\<lambda>st. st\<lparr>st_writeExpired := y\<rparr>)" "tame (\<lambda>st. st\<lparr>st_Counter := c, st_CountIdentity := i\<rparr>)"
  by (simp_all add: tame_def closeLocally_def deliver_def)

text \<open>Changes that also never leave a hook armed on a dead stream, and never bring a stream back to life.\<close>

definition hook_fine :: "stream \<Rightarrow> bool" where
  "hook_fine st \<longleftrightarrow> (st_dieHook st = Armed \<longrightarrow> \<not> st_dieOnce st)"

definition mild :: "(stream \<Rightarrow> stream) \<Rightarrow> bool" where
  "mild f \<longleftrightarrow> tame f \<and> (\<forall>st. hook_fine st \<longrightarrow> hook_fine (f st)) \<and> (\<forall>st. st_dieOnce st \<longrightarrow> st_dieOnce (f st))"

lemma mild_intros [simp, intro]:
  "mild closeLocally" "mild (deliver b)" "mild (\<lambda>st. st\<lparr>st_reportOnce := x\<rparr>)" "mild (\<lambda>st. st\<lparr>st_Counter := g st\<rparr>)"
  "mild (\<lambda>st. st\<lparr>st_writeExpired := y\<rparr>)" "mild (\<lambda>st. st\<lparr>st_Counter := c, st_CountIdentity := i\<rparr>)"
  by (auto simp: mild_def hook_fine_def closeLocally_def deliver_def fire_def)

locale write_rel =
  fixes R :: "session \<Rightarrow> session \<Rightarrow> bool"
  assumes rel_refl: "R s s"
    and rel_trans: "R s t \<Longrightarrow> R t u \<Longrightarrow> R s u"
    and rel_doWriteConn: "doWriteConn s b bp = (s', y) \<Longrightarrow> R s s'"
    and rel_Session_Close: "R s (fst (Session_Close s))"
begin

lemma rel_writeControlFrame: "R s (fst (writeControlFrame s f))"
proof (cases rule: writeControlFrame_cases [of s f])
  case (wait e)
  then show ?thesis using rel_Session_Close by simp
next
  case (fail bp s1 e)
  then show ?thesis using rel_trans [OF rel_doWriteConn [OF fail(1)] rel_Session_Close] by simp
next
  case (ok bp s1 m)
  then show ?thesis using rel_doWriteConn [OF ok(1)] by simp
qed

lemma rel_wcf [intro]: "R s t \<Longrightarrow> R s (fst (writeControlFrame t f))"
  using rel_trans rel_writeControlFrame by blast

lemma rel_wcf': "writeControlFrame t f = (u, r) \<Longrightarrow> R s t \<Longrightarrow> R s u"
  using rel_wcf [of s t f] by simp

end

locale operation_rel = write_rel +
  assumes rel_ReadFull: "netConn_ReadFull (s_conn s) n = (c, x) \<Longrightarrow> R s (s\<lparr>s_conn := c\<rparr>)"
    and rel_mild: "mild f \<Longrightarrow> R s (update_stream f r s)"
    and rel_closing: "R s (fst (closeWithError s r e))"
    and rel_new: "R s (s\<lparr>s_store := s_store s @ [newStream sid], s_streams := m\<rparr>)"
    and rel_streams: "R s (s\<lparr>s_streams := m\<rparr>)"
    and rel_fields: "R s (s\<lparr>s_streamId := x1\<rparr>)" "R s (s\<lparr>s_synDone := x2\<rparr>)" "R s (s\<lparr>s_padding := x3\<rparr>)"
      "R s (s\<lparr>s_peerVersion := x4\<rparr>)" "R s (s\<lparr>s_buffering := x5\<rparr>)" "R s (s\<lparr>s_recvSettings := x6\<rparr>)"
      "R s (s\<lparr>s_Identity := x7\<rparr>)"
begin

lemma rel_step [intro]:
  "R s t \<Longrightarrow> R s (fst (Session_Close t))" "R s t \<Longrightarrow> mild f \<Longrightarrow> R s (update_stream f r t)"
  "R s t \<Longrightarrow> R s (t\<lparr>s_streams := m\<rparr>)" "R s t \<Longrightarrow> R s (t\<lparr>s_streamId := x1\<rparr>)"
  "R s t \<Longrightarrow> R s (t\<lparr>s_synDone := x2\<rparr>)" "R s t \<Longrightarrow> R s (t\<lparr>s_padding := x3\<rparr>)"
  "R s t \<Longrightarrow> R s (t\<lparr>s_peerVersion := x4\<rparr>)" "R s t \<Longrightarrow> R s (t\<lparr>s_buffering := x5\<rparr>)"
  "R s t \<Longrightarrow> R s (t\<lparr>s_recvSettings := x6\<rparr>)" "R s t \<Longrightarrow> R s (t\<lparr>s_Identity := x7\<rparr>)"
  by (rule rel_trans, assumption, rule rel_Session_Close rel_mild rel_streams rel_fields; assumption?)+

lemma rel_register [intro]: "R s t \<Longrightarrow> R s (register sid t)"
  unfolding register_def by (rule rel_trans [OF _ rel_new])

lemma rel_read [intro]:
  "R s t \<Longrightarrow> netConn_ReadFull (s_conn t) n = (c, x) \<Longrightarrow> R s (t\<lparr>s_conn := c\<rparr>)"
  using rel_ReadFull rel_trans by blast

lemma rel_account [intro]: "R s t \<Longrightarrow> R s (account add r t)"
  by (auto simp: account_def Let_def)

lemma rel_Stream_Write: "R s (fst (Stream_Write s r b))"
proof -
  obtain s1 n e where w: "writeDataFrame s (st_id (s_store s ! r)) b = (s1, n, e)" by (metis prod_cases3)
  have "R s s1"
    using rel_trans rel_doWriteConn w unfolding writeDataFrame_def
    by (rule writeDataFrame_loop_rel [of R]) 
  then show ?thesis using w rel_refl by (auto simp: Stream_Write_def Let_def split: option.split)
qed

lemma rel_closeWithError [intro]: "R s t \<Longrightarrow> R s (fst (closeWithError t r e))"
  by (rule rel_trans [OF _ rel_closing])

lemma rel_OpenStream: "R s (fst (OpenStream s))"
  using rel_refl [of s]
  by (auto simp: OpenStream_def Let_def dest!: rel_wcf' [where s = s] split: prod.split sum.split)

lemma rel_with_body:
  assumes "R s t" and "\<And>u b. R s u \<Longrightarrow> R s (fst (k u b))"
  shows "R s (fst (with_body t hdr k))"
  using assms by (auto simp: with_body_def split: prod.split sum.split)

lemma rel_dispatch:
  assumes "R s t"
  shows "R s (fst (dispatch t hdr))"
proof -
  note body = rel_with_body [OF assms]
  have "R s (fst (recv_PSH t hdr))" "R s (fst (recv_Waste t hdr))" "R s (fst (recv_Alert t hdr))"
      "R s (fst (recv_UpdatePaddingScheme t hdr))" "R s (fst (recv_ServerSettings t hdr))"
    unfolding recv_PSH_def recv_Waste_def recv_Alert_def recv_UpdatePaddingScheme_def recv_ServerSettings_def
    by (rule body; auto split: option.split)+
  moreover have "R s (fst (recv_SYN t hdr))"
    using assms by (auto simp: recv_SYN_def acceptStream_def refuseStream_def Let_def
        case_prod_unfold split: option.split)
  moreover have "R s (fst (recv_SYNACK t hdr))"
    unfolding recv_SYNACK_def by (rule rel_with_body) (use assms in \<open>auto split: option.split\<close>)
  moreover have "R s (fst (recv_FIN t hdr))"
    using assms by (auto simp: recv_FIN_def Let_def split: option.split)
  moreover have "R s (fst (recv_Settings t hdr))" unfolding recv_Settings_def
    by (rule body) (auto simp: reply_scheme_def reply_version_def Let_def case_prod_unfold
        split: option.split)
  moreover have "R s (fst (recv_HeartRequest t hdr))"
    using assms by (auto simp: recv_HeartRequest_def dest: rel_wcf' split: prod.split sum.split)
  ultimately show ?thesis using assms by (simp add: dispatch_def Let_def)
qed

lemma rel_recv_step: "R s (fst (recv_step s))"
  using rel_refl [of s] by (auto simp: recv_step_def intro: rel_dispatch split: prod.split sum.split)

lemma rel_recvLoop: "R s (fst (recvLoop s))"
proof (induction s rule: recvLoop.induct)
  case (1 s)
  obtain s1 x where st: "recv_step s = (s1, x)" by fastforce
  then have "R s s1" using rel_recv_step [of s] by simp
  then show ?case using 1 st rel_trans by (cases x) (auto simp: recvLoop.simps [of s])
qed

lemma rel_Session_Run: "R s (Session_Run s)"
  using rel_refl [of s] rel_recvLoop by (auto simp: Session_Run_def Let_def)

text \<open>Every step that is not one of the peer's.\<close>

lemma rel_sess_step:
  assumes "sess_step s s'" and "\<And>c. s' = s\<lparr>s_conn := c\<rparr> \<Longrightarrow> nc_sent c = nc_sent (s_conn s) \<Longrightarrow>
      c_closed (base_conn c) = c_closed (base_conn (s_conn s)) \<Longrightarrow> R s s'"
  shows "R s s'"
  using assms(1)
proof (cases rule: sess_step.cases)
  case recv
  then show ?thesis using rel_recv_step [of s] by simp
next
  case (recv_end t e)
  then show ?thesis using rel_recv_step [of s] by auto
next
  case (peer c)
  then show ?thesis using assms(2) by blast
qed (use rel_refl [of s] in \<open>auto simp: rel_Session_Run rel_OpenStream Stream_Read_def Let_def
  rel_Stream_Write Stream_Close_def HandshakeFailure_def HandshakeSuccess_def case_prod_unfold synTimeout_def
  split: option.split prod.split\<close>)

end

text \<open>A relation that any change of a stream respects, if it fires the hook at most, holds across
  closing a stream too.\<close>

locale session_rel = write_rel +
  assumes rel_read_full: "netConn_ReadFull (s_conn s) n = (c, x) \<Longrightarrow> R s (s\<lparr>s_conn := c\<rparr>)"
    and rel_stream: "tame f \<Longrightarrow> R s (update_stream f r s)"
    and rel_append: "R s (s\<lparr>s_store := s_store s @ [newStream sid], s_streams := m\<rparr>)"
    and rel_map: "R s (s\<lparr>s_streams := m\<rparr>)"
    and rel_plain: "R s (s\<lparr>s_streamId := x1\<rparr>)" "R s (s\<lparr>s_synDone := x2\<rparr>)" "R s (s\<lparr>s_padding := x3\<rparr>)"
      "R s (s\<lparr>s_peerVersion := x4\<rparr>)" "R s (s\<lparr>s_buffering := x5\<rparr>)" "R s (s\<lparr>s_recvSettings := x6\<rparr>)"
      "R s (s\<lparr>s_Identity := x7\<rparr>)"
begin

lemma rel_tame_step: "R s t \<Longrightarrow> tame f \<Longrightarrow> R s (update_stream f r t)"
  using rel_trans rel_stream by blast

lemma rel_map_step: "R s t \<Longrightarrow> R s (t\<lparr>s_streams := m\<rparr>)"
  using rel_trans rel_map by blast

lemma rel_close_stream: "R s (fst (closeWithError s r e))"
  using rel_refl [of s] by (auto simp: closeWithError_def streamClosed_def Let_def case_prod_unfold
      intro!: rel_tame_step rel_map_step rel_wcf)

end

sublocale session_rel \<subseteq> operation_rel
  by unfold_locales (auto intro: rel_read_full rel_stream rel_append rel_map rel_plain rel_close_stream simp: mild_def)

section \<open>Closing is final\<close>

text \<open>What a closed connection has delivered. No write changes it, open or closed.\<close>

definition shut :: "netConn \<Rightarrow> bytes option" where
  "shut c = (if c_closed (base_conn c) then Some (nc_sent c) else None)"

text \<open>
  \<open>settles s s'\<close>: the step keeps "dead implies connection closed", and once dead it neither
  revives the session nor sends anything.
\<close>

definition settles :: "session \<Rightarrow> session \<Rightarrow> bool" where
  "settles s s' \<longleftrightarrow> (s_die s \<longrightarrow> shut (s_conn s) \<noteq> None) \<longrightarrow>
     (s_die s' \<longrightarrow> shut (s_conn s') \<noteq> None) \<and>
     (s_die s \<longrightarrow> s_die s' \<and> shut (s_conn s') = shut (s_conn s))"

lemma settles_refl [simp]: "settles s s"
  by (simp add: settles_def)

lemma settles_trans: "settles s t \<Longrightarrow> settles t u \<Longrightarrow> settles s u"
  by (auto simp: settles_def)

lemma settles_conn: "settles s t \<Longrightarrow> shut c = shut (s_conn t) \<Longrightarrow> settles s (t\<lparr>s_conn := c\<rparr>)"
  by (auto simp: settles_def)

lemma settles_upd [simp]:
  "settles s (t\<lparr>s_streams := x1\<rparr>) = settles s t" "settles s (t\<lparr>s_store := x2\<rparr>) = settles s t"
  "settles s (t\<lparr>s_streamId := x3\<rparr>) = settles s t" "settles s (t\<lparr>s_synDone := x4\<rparr>) = settles s t"
  "settles s (t\<lparr>s_padding := x5\<rparr>) = settles s t" "settles s (t\<lparr>s_peerVersion := x6\<rparr>) = settles s t"
  "settles s (t\<lparr>s_buffering := x7\<rparr>) = settles s t" "settles s (t\<lparr>s_recvSettings := x8\<rparr>) = settles s t"
  "settles s (t\<lparr>s_Identity := x9\<rparr>) = settles s t" "settles s (update_stream f r t) = settles s t"
  by (simp_all add: settles_def)

lemma conn_Write_shut:
  "c_closed (fst (conn_Write c p)) = c_closed c"
  "c_closed c \<Longrightarrow> fst (conn_Write c p) = c"
  by (auto simp: conn_Write_def split: option.split)

lemma writeUnlimited_loop_shut:
  "c_closed (fst (writeUnlimited_loop k c b w)) = c_closed c \<and>
   (c_closed c \<longrightarrow> fst (writeUnlimited_loop k c b w) = c)"
proof (induction k c b w rule: writeUnlimited_loop.induct)
  case (1 k c b w)
  define chunk where "chunk = (if length b > Suc k then Suc k else length b)"
  obtain c1 n e where w1: "conn_Write c (take chunk b) = (c1, n, e)" by (metis prod_cases3)
  then have "c_closed c1 = c_closed c" "c_closed c \<Longrightarrow> c1 = c"
    using conn_Write_shut [of c "take chunk b"] by auto
  then show ?case
    using "1.IH" [OF _ chunk_def w1 [symmetric] refl] w1
    by (cases e) (auto simp: writeUnlimited_loop.simps [of k c b w] chunk_def [symmetric] Let_def)
qed

lemma limitedConn_WriteUnlimited_shut:
  "c_closed (lc_Conn (fst (limitedConn_WriteUnlimited c p))) = c_closed (lc_Conn c)"
  "c_closed (lc_Conn c) \<Longrightarrow> lc_sent (fst (limitedConn_WriteUnlimited c p)) = lc_sent c"
  using conn_Write_shut [of "lc_Conn c" p] writeUnlimited_loop_shut [of _ "lc_Conn c" p 0]
  by (auto simp: limitedConn_WriteUnlimited_def lc_sent_def Let_def case_prod_unfold split: option.split)

lemma limitedConn_Write_shut:
  "c_closed (lc_Conn (fst (limitedConn_Write c p))) = c_closed (lc_Conn c)"
  "c_closed (lc_Conn c) \<Longrightarrow> lc_sent (fst (limitedConn_Write c p)) = lc_sent c"
  using limitedConn_Write_cases [of c p] limitedConn_WriteUnlimited_shut [of c p] by auto

lemma netConn_shut [simp]:
  "shut (fst (netConn_Write c p)) = shut c"
  "shut (fst (netConn_WriteUnlimited c p)) = shut c"
  "shut (fst (netConn_ReadFull c n)) = shut c"
  using conn_Write_shut [of _ p] limitedConn_Write_shut [of _ p] limitedConn_WriteUnlimited_shut [of _ p]
  by (cases c; auto simp: shut_def nc_sent_def lc_sent_def conn_ReadFull_def sent_def Let_def
      case_prod_unfold)+

lemma netConn_ReadFull_shut: "netConn_ReadFull c n = (c', r) \<Longrightarrow> shut c' = shut c"
  using netConn_shut(3) [of c n] by simp

lemma pad_loop_shut [simp]:
  "shut (fst (pad_loop netConn_Write ls c b n)) = shut c"
  "shut (fst (pad_loop netConn_WriteUnlimited ls c b n)) = shut c"
  by (rule pad_loop_preserves [where g = shut], simp)+

lemma doWriteConn_shut: "shut (s_conn (fst (doWriteConn s b bp))) = shut (s_conn s)"
  by (cases bp) (simp_all add: doWriteConn_def Let_def case_prod_unfold split: option.split sum.split)

lemma settles_doWriteConn:
  assumes "doWriteConn s b bp = (s', r)"
  shows "settles s s'"
  using doWriteConn_frame [OF assms] doWriteConn_shut [of s b bp] assms
  by (simp add: settles_def write_frame_rel_def)

lemma settles_Session_Close [simp]: "settles s (fst (Session_Close s))"
proof (cases "s_die s")
  case False
  have "c_closed (base_conn (netConn_Close c))" for c
    by (cases c) (simp_all add: conn_Close_def limitedConn_Close_def)
  then show ?thesis using False Session_Close_open [OF False] by (auto simp: settles_def shut_def)
qed (simp add: Session_Close_def)

interpretation settling: session_rel settles
proof unfold_locales
  show "settles s (s\<lparr>s_conn := c\<rparr>)" if "netConn_ReadFull (s_conn s) n = (c, x)" for s n c x
    using settles_conn [OF settles_refl netConn_ReadFull_shut [OF that]] .
qed (auto intro: settles_trans settles_doWriteConn)

lemma settles_sess_step: "sess_step s s' \<Longrightarrow> settles s s'"
  by (erule settling.rel_sess_step) (auto simp: shut_def intro: settles_conn)

lemma reachable_shut: "reachable s \<Longrightarrow> s_die s \<Longrightarrow> shut (s_conn s) \<noteq> None"
proof (induction rule: reachable.induct)
  case (step s s')
  then show ?case using settles_sess_step [OF step.hyps(2)] by (auto simp: settles_def)
qed (simp_all add: NewClientSession_def NewServerSession_def)

end
