(* ===== verification/Session_Delivery.thy ===== *)
theory Session_Delivery
  imports Session_Steps
begin

text \<open>
  Delivery: the receive loop hands each stream exactly the payloads framed for it, in order,
  however the frames of several streams and the padding are mixed; and what one end writes is
  what the other end reads.
\<close>

section \<open>Receiving data and padding frames\<close>

definition data_frame :: "frame \<Rightarrow> bool" where
  "data_frame f \<longleftrightarrow> wf_frame f \<and> (f_cmd f = cmdPSH \<or> f_cmd f = cmdWaste)"

definition payload :: "u32 \<Rightarrow> frame list \<Rightarrow> bytes" where
  "payload sid fs = concat (map f_data (filter (\<lambda>f. f_cmd f = cmdPSH \<and> f_sid f = sid) fs))"

lemma payload_simps [simp]:
  "payload sid [] = []" "payload sid (fs @ gs) = payload sid fs @ payload sid gs"
  by (simp_all add: payload_def)

lemma payload_Cons: "payload sid (f # fs) = payload sid [f] @ payload sid fs"
  by (simp add: payload_def)

definition is_open :: "session \<Rightarrow> bool" where
  "is_open s \<longleftrightarrow> \<not> s_die s \<and> \<not> c_closed (base_conn (s_conn s))"

lemma netConn_ReadFull_exact:
  assumes "\<not> c_closed (base_conn c)" and "c_in (base_conn c) = a @ b" and "length a = n"
  obtains c' where "netConn_ReadFull c n = (c', Inr a)" "c_in (base_conn c') = b"
    "\<not> c_closed (base_conn c')" "nc_sent c' = nc_sent c"
  using assms by (cases c) (auto simp: conn_ReadFull_def nc_sent_def sent_def)

lemma with_body_exact:
  assumes "is_open s" and "inp s = d @ rest" and "rawHeader_Length hdr = word_of_nat (length d)"
    and "length d \<le> 65535" and "d \<noteq> []"
  shows "\<exists>c. (\<forall>k. with_body s hdr k = k (s\<lparr>s_conn := c\<rparr>) d) \<and> c_in (base_conn c) = rest
    \<and> \<not> c_closed (base_conn c) \<and> nc_sent c = nc_sent (s_conn s)"
proof -
  have n: "unat (rawHeader_Length hdr) = length d"
    using assms(3,4) by (simp add: unat_u16_of_nat)
  then have pos: "rawHeader_Length hdr \<noteq> 0" using assms(5) by auto
  obtain c where c: "netConn_ReadFull (s_conn s) (length d) = (c, Inr d)" "c_in (base_conn c) = rest"
      "\<not> c_closed (base_conn c)" "nc_sent c = nc_sent (s_conn s)"
    using netConn_ReadFull_exact [of "s_conn s" d rest] assms(1,2) by (auto simp: is_open_def inp_def)
  show ?thesis
    by (rule exI [of _ c]) (simp only: with_body_def n c pos word_greater_zero_iff, simp add: c)
qed

lemma recv_step_header:
  assumes "is_open s" and "inp s = encode_frame f @ rest"
  obtains c h where "recv_step s = dispatch (s\<lparr>s_conn := c\<rparr>) h" "c_in (base_conn c) = f_data f @ rest"
    "\<not> c_closed (base_conn c)" "rawHeader_Cmd h = f_cmd f" "rawHeader_StreamID h = f_sid f"
    "rawHeader_Length h = word_of_nat (length (f_data f))" "nc_sent c = nc_sent (s_conn s)"
proof -
  let ?h = "take 7 (encode_frame f @ rest)"
  have "inp s = ?h @ (f_data f @ rest)" using assms(2) drop_encode_frame [of f rest]
    by (metis append_take_drop_id)
  then obtain c where "netConn_ReadFull (s_conn s) 7 = (c, Inr ?h)" "c_in (base_conn c) = f_data f @ rest"
      "\<not> c_closed (base_conn c)" "nc_sent c = nc_sent (s_conn s)"
    using netConn_ReadFull_exact [of "s_conn s" ?h "f_data f @ rest" 7] assms(1)
    by (auto simp: is_open_def inp_def)
  then show thesis using that [of c ?h] header_encode_frame [of ?h f rest, OF refl] assms(1)
    by (simp add: recv_step_def Session_IsClosed_def is_open_def)
qed

text \<open>The streams as the reader of each sees them: what it has been handed.\<close>

definition received :: "session \<Rightarrow> nat \<Rightarrow> bytes" where
  "received s r = st_read (s_store s ! r)"

text \<open>What a data or padding frame does, as a function of the decoded frame.\<close>

definition absorb :: "frame \<Rightarrow> session \<Rightarrow> session" where
  "absorb f s =
     (case map_of (s_streams s) (f_sid f) of
        Some r \<Rightarrow> if f_cmd f = cmdPSH then update_stream (deliver (f_data f)) r s else s
      | None \<Rightarrow> s)"

lemma update_stream_deliver_Nil [simp]: "update_stream (deliver []) r s = s"
  by (simp add: update_stream_def deliver_def)

lemma absorb_empty: "f_data f = [] \<Longrightarrow> absorb f s = s"
  by (simp add: absorb_def split: option.split)

lemma absorb_fields [simp]:
  "s_streams (absorb f s) = s_streams s" "s_conn (absorb f s) = s_conn s" "s_die (absorb f s) = s_die s"
  by (simp_all add: absorb_def split: option.split)

lemma recv_step_absorb:
  assumes op: "is_open s" and i: "inp s = encode_frame f @ rest" and f: "data_frame f"
  shows "\<exists>c. recv_step s = (absorb f (s\<lparr>s_conn := c\<rparr>), Continue) \<and> c_in (base_conn c) = rest
    \<and> \<not> c_closed (base_conn c)"
proof -
  obtain c h where st: "recv_step s = dispatch (s\<lparr>s_conn := c\<rparr>) h"
    and c: "c_in (base_conn c) = f_data f @ rest" "\<not> c_closed (base_conn c)"
    and h: "rawHeader_Cmd h = f_cmd f" "rawHeader_StreamID h = f_sid f"
      "rawHeader_Length h = word_of_nat (length (f_data f))"
    using recv_step_header [OF op i] by blast
  let ?s = "s\<lparr>s_conn := c\<rparr>"
  have d: "dispatch ?s h = (if f_cmd f = cmdPSH then recv_PSH ?s h else recv_Waste ?s h)"
    using f h by (auto simp: dispatch_def data_frame_def cmd_defs)
  show ?thesis
  proof (cases "f_data f = []")
    case True
    then have "recv_step s = (?s, Continue)"
      using st d h by (simp add: recv_PSH_def recv_Waste_def with_body_def)
    then show ?thesis using True c by (auto simp: absorb_empty)
  next
    case False
    have "is_open ?s" "inp ?s = f_data f @ rest" "length (f_data f) \<le> 65535"
      using op c f by (simp_all add: is_open_def data_frame_def wf_frame_def)
    then obtain c2 where c2: "\<And>k. with_body ?s h k = k (?s\<lparr>s_conn := c2\<rparr>) (f_data f)"
        "c_in (base_conn c2) = rest" "\<not> c_closed (base_conn c2)"
      using with_body_exact [OF _ _ h(3)] False by blast
    then have "recv_step s = (absorb f (s\<lparr>s_conn := c2\<rparr>), Continue)"
      using st d h(2) by (simp add: recv_PSH_def recv_Waste_def absorb_def split: option.split)
    then show ?thesis using c2 by auto
  qed
qed

lemma received_absorb:
  assumes wf: "wf_session s" and mem: "(sid, r) \<in> set (s_streams s)"
  shows "received (absorb f s) r = received s r @ payload sid [f]"
proof -
  have e: "entry_ok (s_store s) (sid, r)" using wf mem by (auto simp: wf_session_def list_all_iff)
  have m: "map_of (s_streams s) sid = Some r" using wf mem by (simp add: wf_session_def map_of_SomeI)
  have live: "\<not> st_pipeDone (s_store s ! r)"
    using e wf by (auto simp: wf_session_def list_all_length entry_ok_def stream_ok_def)
  have "r0 = r \<longleftrightarrow> f_sid f = sid" if "map_of (s_streams s) (f_sid f) = Some r0" for r0
  proof -
    have "entry_ok (s_store s) (f_sid f, r0)"
      using wf map_of_SomeD [OF that] by (auto simp: wf_session_def list_all_iff)
    then show ?thesis using e m that by (auto simp: entry_ok_def)
  qed
  then show ?thesis using e m live
    by (auto simp: absorb_def received_def payload_def nth_store_update_stream entry_ok_def deliver_def
        split: option.split)
qed

lemma recv_step_data:
  assumes wf: "wf_session s" and op: "is_open s" and i: "inp s = encode_frame f @ rest" and f: "data_frame f"
  shows "\<exists>s'. recv_step s = (s', Continue) \<and> inp s' = rest \<and> is_open s' \<and> wf_session s'
    \<and> s_streams s' = s_streams s
    \<and> (\<forall>(sid, r) \<in> set (s_streams s). received s' r = received s r @ payload sid [f])"
proof -
  obtain c where st: "recv_step s = (absorb f (s\<lparr>s_conn := c\<rparr>), Continue)"
    and c: "c_in (base_conn c) = rest" "\<not> c_closed (base_conn c)"
    using recv_step_absorb [OF op i f] by blast
  let ?t = "s\<lparr>s_conn := c\<rparr>"
  have "wf_session ?t" "received ?t = received s" using wf by (simp_all add: fun_eq_iff received_def)
  then have "\<forall>(sid, r) \<in> set (s_streams s). received (absorb f ?t) r = received s r @ payload sid [f]"
    using received_absorb [of ?t] by auto
  moreover have "wf_session (absorb f ?t)" using wf_recv_step [OF wf] st by simp
  moreover have "inp (absorb f ?t) = rest" "is_open (absorb f ?t)"
    using c op by (simp_all add: inp_def is_open_def)
  ultimately show ?thesis using st by auto
qed

section \<open>The whole loop\<close>

lemma recvLoop_frames:
  assumes "wf_session s" and "is_open s" and "inp s = concat (map encode_frame fs) @ rest"
    and "\<forall>f \<in> set fs. data_frame f"
  shows "\<exists>s'. recvLoop s = recvLoop s' \<and> inp s' = rest \<and> is_open s' \<and> wf_session s'
    \<and> s_streams s' = s_streams s
    \<and> (\<forall>(sid, r) \<in> set (s_streams s). received s' r = received s r @ payload sid fs)"
  using assms
proof (induction fs arbitrary: s)
  case Nil
  then show ?case by auto
next
  case (Cons f fs)
  obtain s1 where s1: "recv_step s = (s1, Continue)" "inp s1 = concat (map encode_frame fs) @ rest"
      "is_open s1" "wf_session s1" "s_streams s1 = s_streams s"
      "\<forall>(sid, r) \<in> set (s_streams s). received s1 r = received s r @ payload sid [f]"
    using recv_step_data [of s f "concat (map encode_frame fs) @ rest"] Cons.prems by auto
  obtain s' where s': "recvLoop s1 = recvLoop s'" "inp s' = rest" "is_open s'" "wf_session s'"
      "s_streams s' = s_streams s1"
      "\<forall>(sid, r) \<in> set (s_streams s1). received s' r = received s1 r @ payload sid fs"
    using Cons.IH [OF s1(4,3,2)] Cons.prems(4) by auto
  have "recvLoop s = recvLoop s'" using s1(1) s'(1) by (simp add: recvLoop.simps [of s])
  moreover have "received s' r = received s r @ payload sid (f # fs)" if "(sid, r) \<in> set (s_streams s)" for sid r
    using that s1(5,6) s'(6) payload_Cons [of sid f fs] by fastforce
  ultimately show ?case using s' s1(5) by auto
qed

lemma received_Session_Close:
  assumes "wf_session s" and "(sid, r) \<in> set (s_streams s)"
  shows "received (fst (Session_Close s)) r = received s r"
proof (cases "s_die s")
  case False
  have "r < length (s_store s)" using assms by (auto simp: wf_session_def list_all_iff entry_ok_def)
  moreover have "st_read (closeLocally x) = st_read x" for x by (simp add: closeLocally_def)
  ultimately show ?thesis using Session_Close_open [OF False] by (auto simp: received_def)
qed (simp add: Session_Close_def)

lemma recvLoop_EOF:
  assumes "is_open s" and "inp s = []"
  shows "\<exists>c. recvLoop s = (fst (Session_Close (s\<lparr>s_conn := c\<rparr>)), Some EOF)"
proof -
  have "\<exists>c. netConn_ReadFull (s_conn s) 7 = (c, Inl EOF)"
    using assms by (cases "s_conn s") (auto simp: conn_ReadFull_def is_open_def inp_def)
  then show ?thesis using assms(1)
    by (auto simp: recvLoop.simps [of s] recv_step_def Session_IsClosed_def is_open_def)
qed

lemma recvLoop_delivers:
  assumes "wf_session s" and "is_open s" and "inp s = concat (map encode_frame fs)"
    and "\<forall>f \<in> set fs. data_frame f" and "map_of (s_streams s) sid = Some r"
  shows "received (fst (recvLoop s)) r = received s r @ payload sid fs \<and> snd (recvLoop s) = Some EOF"
proof -
  obtain s' where s': "recvLoop s = recvLoop s'" "inp s' = []" "is_open s'" "wf_session s'"
      "s_streams s' = s_streams s"
      "\<forall>(sid, r) \<in> set (s_streams s). received s' r = received s r @ payload sid fs"
    using recvLoop_frames [OF assms(1,2), of fs "[]"] assms(3,4) by auto
  have mem: "(sid, r) \<in> set (s_streams s)" using assms(5) by (rule map_of_SomeD)
  obtain c where c: "recvLoop s' = (fst (Session_Close (s'\<lparr>s_conn := c\<rparr>)), Some EOF)"
    using recvLoop_EOF [OF s'(3,2)] by blast
  have "received (fst (Session_Close (s'\<lparr>s_conn := c\<rparr>))) r = received s' r"
    using received_Session_Close [of "s'\<lparr>s_conn := c\<rparr>" sid r] s'(4,5) mem by (simp add: received_def)
  then show ?thesis using s'(1,6) c mem by auto
qed

section \<open>From one end to the other\<close>

text \<open>A sequence of writes on the streams of a session, all without error.\<close>

fun writes :: "session \<Rightarrow> (u32 \<times> bytes) list \<Rightarrow> session option" where
  "writes s [] = Some s"
| "writes s ((sid, d) # ws) =
     (case writeDataFrame s sid d of
        (s', n, None) \<Rightarrow> writes s' ws
      | (s', n, Some e) \<Rightarrow> None)"

definition data_of :: "u32 \<Rightarrow> (u32 \<times> bytes) list \<Rightarrow> bytes" where
  "data_of sid ws = concat (map snd (filter (\<lambda>w. fst w = sid) ws))"

lemma payload_not_waste: "payload sid fs = payload sid (filter not_waste fs)"
  by (induction fs) (auto simp: payload_def not_waste_def cmd_defs)

lemma payload_chunks: "payload sid' (map (psh sid) ds) = (if sid' = sid then concat ds else [])"
  by (induction ds) (auto simp: payload_def psh_def)

lemma writes_sends:
  assumes "writes s ws = Some s'" and "scheme_bounded (s_padding s)"
  shows "\<exists>fs. sends s fs s' \<and> (\<forall>sid. payload sid fs = data_of sid ws)"
  using assms
proof (induction s ws rule: writes.induct)
  case (1 s)
  then show ?case by (auto simp: sends_def data_of_def intro!: exI [of _ "[]"])
next
  case (2 s sid d ws)
  obtain s1 n where w: "writeDataFrame s sid d = (s1, n, None)" and rest: "writes s1 ws = Some s'"
    using "2.prems"(1) by (auto split: prod.splits option.splits)
  obtain fs where fs: "sends s fs s1" "filter not_waste fs = map (psh sid) (data_chunks d)"
    using writeDataFrame_loop_sends [OF w [unfolded writeDataFrame_def] "2.prems"(2)] by blast
  have pay: "payload sid' fs = (if sid' = sid then d else [])" for sid'
    using payload_not_waste [of sid' fs] by (simp add: fs(2) payload_chunks concat_data_chunks)
  have "scheme_bounded (s_padding s1)"
    using writeDataFrame_loop_frame [OF w [unfolded writeDataFrame_def]] "2.prems"(2)
    by (simp add: write_frame_rel_def)
  then obtain gs where gs: "sends s1 gs s'" "\<forall>sid. payload sid gs = data_of sid ws"
    using "2.IH" [OF w [symmetric] refl refl rest] by blast
  have "\<forall>sid'. payload sid' (fs @ gs) = data_of sid' ((sid, d) # ws)"
    using pay gs(2) by (simp add: data_of_def)
  then show ?case using sends_trans [OF fs(1) gs(1)] by blast
qed

lemma doWriteConn_unbuffered:
  "doWriteConn s b bp = (s', r) \<Longrightarrow> \<not> s_buffering s \<longrightarrow> \<not> s_buffering s' \<and> s_buffer s' = []"
  by (auto simp: doWriteConn_def Let_def split: if_splits prod.splits option.splits sum.splits)

lemma writes_unbuffered:
  "writes s ws = Some s' \<Longrightarrow> \<not> s_buffering s \<Longrightarrow> s_buffer s = [] \<Longrightarrow> s_buffer s' = []"
proof (induction s ws rule: writes.induct)
  case (2 s sid d ws)
  obtain s1 n where w: "writeDataFrame s sid d = (s1, n, None)" and rest: "writes s1 ws = Some s'"
    using "2.prems"(1) by (auto split: prod.splits option.splits)
  have "\<not> s_buffering s \<longrightarrow> \<not> s_buffering s1 \<and> s_buffer s1 = []"
    by (rule writeDataFrame_loop_rel [OF _ doWriteConn_unbuffered w [unfolded writeDataFrame_def]]) auto
  then show ?case using "2.IH" [OF w [symmetric] refl refl rest] "2.prems"(2) by simp
qed simp

section \<open>A small instance\<close>

text \<open>
  A server whose client has sent its settings and opened streams 1 and 2, and a client with a
  padding scheme that pads its first packets.
\<close>

definition demo_env :: env where
  "demo_env = \<lparr>e_md5 = (\<lambda>_. ''''), e_rnd = (\<lambda>_ _. 0), e_iter = (\<lambda>m. m), e_debugPadding = False\<rparr>"

definition demo_padding :: PaddingFactory where
  "demo_padding = \<lparr>pf_scheme = [(''1'', ''20-21,c,9-10'')], pf_RawScheme = [], pf_Stop = 3, pf_Md5 = ''''\<rparr>"

definition demo_conn :: "bytes \<Rightarrow> netConn" where
  "demo_conn i = Plain \<lparr>c_in = i, c_out = [], c_room = None, c_closed = False\<rparr>"

definition demo_syns :: "frame list" where
  "demo_syns = [\<lparr>f_cmd = cmdSettings, f_sid = 0, f_data = [120]\<rparr>,
     newFrame cmdSYN 1, newFrame cmdSYN 2]"

fun recv_steps :: "nat \<Rightarrow> session \<Rightarrow> session" where
  "recv_steps 0 s = s"
| "recv_steps (Suc n) s = (case recv_step s of (s', Continue) \<Rightarrow> recv_steps n s' | _ \<Rightarrow> s)"

lemma reachable_recv_steps: "reachable s \<Longrightarrow> reachable (recv_steps n s)"
  by (induction n arbitrary: s) (auto intro: reachable.step sess_step.recv split: prod.split recv_res.split)

definition demo_server :: session where
  "demo_server = recv_steps 3
     (NewServerSession demo_env (demo_conn (concat (map encode_frame demo_syns))) True demo_padding)"

definition demo_client :: session where
  "demo_client = NewClientSession demo_env (demo_conn []) demo_padding"

lemma reachable_demo_server: "reachable demo_server"
  unfolding demo_server_def by (intro reachable_recv_steps reachable.server)

lemma demo_digits: "digit_char 1 = CHR ''1''" "digit_char 2 = CHR ''2''"
  by code_simp+

lemma demo_sizes:
  "GenerateRecordPayloadSizes (\<lambda>_. 0) demo_padding 1 = [20, CheckMark, 9]"
  "GenerateRecordPayloadSizes rnd demo_padding 2 = []"
  by (simp_all add: demo_padding_def GenerateRecordPayloadSizes_def parse_eval range_size_def
      FormatUint.simps demo_digits [simplified])

lemma demo_bounded: "scheme_bounded demo_padding"
  by (simp add: scheme_bounded_def demo_padding_def item_bounded_def parse_eval)

lemma demo_stop: "pf_Stop demo_padding = 3"
  by (simp add: demo_padding_def)

lemmas client_eval = writeDataFrame_def writeDataFrame_loop.simps writeDataChunk_def writeConn_def
  doWriteConn_def demo_client_def demo_sizes demo_env_def demo_stop NewClientSession_def demo_conn_def
  conn_Write_def Let_def encode_frame_def

lemma demo_writes: "\<exists>c'. writes demo_client [(1, [5]), (2, [6]), (1, [7])] = Some c'"
  by (simp add: client_eval)

lemma demo_server_state:
  "s_streams demo_server = [(1, 0), (2, 1)]" "received demo_server 0 = []" "is_open demo_server"
  "nc_sent (s_conn demo_server) = []"
  by code_simp+

text \<open>The server once the peer has sent more bytes.\<close>

definition demo_fed :: "bytes \<Rightarrow> session" where
  "demo_fed b = demo_server\<lparr>s_conn := demo_conn b\<rparr>"

lemma demo_fed_props:
  "reachable (demo_fed b)" "is_open (demo_fed b)" "inp (demo_fed b) = b"
  "map_of (s_streams (demo_fed b)) 1 = Some 0" "received (demo_fed b) 0 = []"
proof -
  have "\<not> c_closed (base_conn (s_conn demo_server))" "\<not> s_die demo_server"
    using demo_server_state(3) by (simp_all add: is_open_def)
  then show "is_open (demo_fed b)" by (simp add: demo_fed_def is_open_def demo_conn_def)
  have "nc_sent (demo_conn b) = []" "\<not> c_closed (base_conn (demo_conn b))"
    by (simp_all add: demo_conn_def nc_sent_def sent_def)
  then have "sess_step demo_server (demo_fed b)" unfolding demo_fed_def
    by (intro sess_step.peer) (simp_all add: demo_server_state(4) \<open>\<not> c_closed (base_conn (s_conn _))\<close>)
  then show "reachable (demo_fed b)" by (rule reachable.step [OF reachable_demo_server])
qed (use demo_server_state in \<open>simp_all add: demo_fed_def demo_conn_def received_def\<close>)

section \<open>The end of the loop\<close>

lemma recvLoop_closed: "s_die (fst (recvLoop s))"
proof (induction s rule: recvLoop.induct)
  case (1 s)
  obtain s1 x where "recv_step s = (s1, x)" by fastforce
  then show ?case using 1 by (cases x) (simp_all add: recvLoop.simps [of s])
qed

lemma reachable_recvLoop: "reachable s \<Longrightarrow> reachable (fst (recvLoop s))"
proof (induction s rule: recvLoop.induct)
  case (1 s)
  obtain s1 x where st: "recv_step s = (s1, x)" by fastforce
  show ?case
  proof (cases x)
    case Continue
    then have "reachable s1" using st "1.prems" by (metis reachable.step sess_step.recv)
    then show ?thesis using "1.IH" st Continue by (simp add: recvLoop.simps [of s])
  next
    case (Return e)
    then have "reachable (fst (Session_Close s1))" using st "1.prems" by (metis reachable.step sess_step.recv_end)
    then show ?thesis using st Return by (simp add: recvLoop.simps [of s])
  qed
qed

section \<open>Claims\<close>

text \<open>C2. Multiplexed delivery. A client writes any sequence of data on any of its streams, without
  an error, with whatever padding its scheme asks for. A server in any reachable state whose
  connection brings it exactly the bytes those writes put on the wire hands each of its open
  streams exactly the data written for that stream, in order, nothing lost, nothing added,
  padding and other streams' data dropped.\<close>

theorem multiplexed_delivery:
  assumes "writes c ws = Some c'" and "scheme_bounded (s_padding c)" and "\<not> s_buffering c" and "s_buffer c = []"
    and "reachable sv" and "is_open sv" and "nc_sent (s_conn c') = nc_sent (s_conn c) @ inp sv"
    and "map_of (s_streams sv) sid = Some r"
  shows "received (fst (recvLoop sv)) r = received sv r @ data_of sid ws"
proof -
  obtain fs where fs: "sends c fs c'" "\<forall>sid. payload sid fs = data_of sid ws"
    using writes_sends [OF assms(1,2)] by blast
  have "s_buffer c' = []" using writes_unbuffered [OF assms(1,3,4)] .
  then have "inp sv = concat (map encode_frame fs)" "\<forall>f \<in> set fs. data_frame f"
    using fs(1) assms(4,7) by (simp_all add: sends_def outgoing_def data_frame_def)
  then show ?thesis using recvLoop_delivers [OF reachable_wf [OF assms(5)] assms(6)] assms(8) fs(2) by simp
qed

theorem multiplexed_delivery_witness:
  "\<exists>c'. writes demo_client [(1, [5]), (2, [6]), (1, [7])] = Some c' \<and>
     received (fst (recvLoop (demo_fed (nc_sent (s_conn c'))))) 0 = [5, 7]"
proof -
  obtain c' where w: "writes demo_client [(1, [5]), (2, [6]), (1, [7])] = Some c'" using demo_writes by blast
  have c: "scheme_bounded (s_padding demo_client)" "\<not> s_buffering demo_client" "s_buffer demo_client = []"
      "nc_sent (s_conn demo_client) = []"
    by (simp_all add: demo_client_def NewClientSession_def demo_bounded demo_conn_def nc_sent_def sent_def)
  have "received (fst (recvLoop (demo_fed (nc_sent (s_conn c'))))) 0 = [5, 7]"
    using multiplexed_delivery [OF w c(1-3) demo_fed_props(1,2) _ demo_fed_props(4)] c(4)
    by (simp add: demo_fed_props data_of_def)
  then show ?thesis using w by blast
qed



text \<open>C7. Closing is final: from a closed session no step of the program, the peer or a deadline
  leads back to an open one, and no further byte reaches the peer.\<close>

theorem closed_session_is_silent:
  assumes "reachable s" and "s_die s" and "sess_step s s'"
  shows "s_die s' \<and> nc_sent (s_conn s') = nc_sent (s_conn s)"
  using settles_sess_step [OF assms(3)] reachable_shut [OF assms(1,2)] assms(2)
  by (auto simp: settles_def shut_def split: if_splits)

theorem closed_session_is_silent_witness:
  "s_die (fst (Stream_Write (fst (Session_Close demo_server)) 0 [1])) \<and>
   nc_sent (s_conn (fst (Stream_Write (fst (Session_Close demo_server)) 0 [1]))) =
     nc_sent (s_conn (fst (Session_Close demo_server)))"
proof -
  have r: "reachable (fst (Session_Close demo_server))"
    using reachable.step [OF reachable_demo_server sess_step.close] .
  have "0 < length (s_store (fst (Session_Close demo_server)))" by code_simp
  then show ?thesis using closed_session_is_silent [OF r] sess_step.written by simp
qed



end
