(* ===== verification/Session_Protocol.thy ===== *)
theory Session_Protocol
  imports Session_Delivery "HOL-Library.Multiset"
begin

text \<open>
  The protocol between the two ends, beyond data: what a written control frame is on the wire,
  how a server answers a SYN, the handshake report of a stream, and the negotiation of version
  and padding scheme.
\<close>

section \<open>Writing frames\<close>

lemma demo_write: "\<exists>s'. writeDataFrame demo_client 1 [9] = (s', 1, None)"
  by (simp add: client_eval)

lemma writeControlFrame_refines:
  assumes "writeControlFrame s f = (s', Inr n)" and "scheme_bounded (s_padding s)" and "in_sync s" and "wf_frame f"
  shows "in_sync s' \<and> frames_written s' = frames_written s @ filter not_waste [f]"
  using writeControlFrame_ok [OF assms(1)] doWriteConn_refines assms(2-4) by metis

lemma writeDataFrame_refines:
  assumes "writeDataFrame s sid d = (s', n, None)" and "scheme_bounded (s_padding s)" and "in_sync s"
  shows "n = length d \<and> in_sync s' \<and> frames_written s' = frames_written s @ map (psh sid) (data_chunks d)"
proof -
  obtain fs where "n = length d" "sends s fs s'" "filter not_waste fs = map (psh sid) (data_chunks d)"
    using writeDataFrame_loop_sends [OF assms(1) [unfolded writeDataFrame_def] assms(2)] by auto
  then show ?thesis using sends_refines [OF _ assms(3)] by metis
qed

text \<open>C12. Padding is invisible (refinement). Seen through the peer's frame decoder, with the padding
  frames dropped, the write path is an append-only list of frames: a successful control write
  appends exactly its frame, a successful data write exactly the frames of its data, cut so
  that no payload exceeds 65535 bytes; a failed control write closes the session.\<close>

theorem write_path_refines_frames:
  assumes "scheme_bounded (s_padding s)" and "in_sync s" and "wf_frame f" and "f_cmd f \<noteq> cmdWaste"
  shows "(case writeControlFrame s f of
            (s', Inr n) \<Rightarrow> n = length (f_data f) \<and> in_sync s' \<and> frames_written s' = frames_written s @ [f]
          | (s', Inl e) \<Rightarrow> Session_IsClosed s')
    \<and> (case writeDataFrame s sid d of
            (s', n, None) \<Rightarrow> n = length d \<and> in_sync s'
              \<and> frames_written s' = frames_written s @ map (psh sid) (data_chunks d)
          | (s', n, Some e) \<Rightarrow> True)"
proof (intro conjI)
  obtain s1 r where w: "writeControlFrame s f = (s1, r)" by fastforce
  show "case writeControlFrame s f of
            (s', Inr n) \<Rightarrow> n = length (f_data f) \<and> in_sync s' \<and> frames_written s' = frames_written s @ [f]
          | (s', Inl e) \<Rightarrow> Session_IsClosed s'"
  proof (cases r)
    case (Inl e)
    then show ?thesis using w writeControlFrame_err by (simp add: Session_IsClosed_def)
  next
    case (Inr n)
    have "n = length (f_data f)" using w Inr by (auto elim: writeControlFrame_ok)
    then show ?thesis using w Inr writeControlFrame_refines [OF w [unfolded Inr] assms(1-3)] assms(4)
      by (simp add: not_waste_def)
  qed
  show "case writeDataFrame s sid d of
            (s', n, None) \<Rightarrow> n = length d \<and> in_sync s'
              \<and> frames_written s' = frames_written s @ map (psh sid) (data_chunks d)
          | (s', n, Some e) \<Rightarrow> True"
    using writeDataFrame_refines [OF _ assms(1,2), of sid d] by (auto split: prod.split option.split)
qed

theorem write_path_refines_frames_witness:
  "\<exists>s'. writeDataFrame demo_client 1 [9] = (s', 1, None) \<and> frames_written s' = [psh 1 [9]]"
proof -
  have c: "scheme_bounded (s_padding demo_client)" "outgoing demo_client = []"
    by (simp_all add: demo_client_def NewClientSession_def demo_bounded demo_conn_def nc_sent_def sent_def
        outgoing_def)
  then have s: "in_sync demo_client" "frames_written demo_client = []"
    by (simp_all add: in_sync_def frames_written_def)
  have f: "wf_frame (newFrame cmdSYN 1)" "f_cmd (newFrame cmdSYN 1) \<noteq> cmdWaste"
    by (simp_all add: wf_frame_def newFrame_def cmd_defs)
  obtain s' where w: "writeDataFrame demo_client 1 [9] = (s', 1, None)" using demo_write by blast
  show ?thesis
    using conjunct2 [OF write_path_refines_frames [OF c(1) s(1) f, where sid = 1 and d = "[9]"]] s(2) w
    by (simp add: data_chunks.simps)
qed

section \<open>SYN on a server\<close>

definition refusal :: "session \<Rightarrow> u32 \<Rightarrow> frame" where
  "refusal s sid = (if s_peerVersion s \<ge> 2
     then \<lparr>f_cmd = cmdSYNACK, f_sid = sid, f_data = bytes_of ''too many streams''\<rparr>
     else \<lparr>f_cmd = cmdFIN, f_sid = sid, f_data = []\<rparr>)"

lemma refuseStream_write:
  "refuseStream s sid = (fst (writeControlFrame s (refusal s sid)), err_of (snd (writeControlFrame s (refusal s sid))))"
  by (simp add: refuseStream_def refusal_def newFrame_def Let_def case_prod_unfold)

text \<open>A server's answer to a SYN: before the client's settings it sends an alert and the loop
  ends; a SYN for an open stream changes nothing; with room it registers one new living stream
  under the id; at the limit it writes the refusal and registers nothing, and ends the loop
  only if that write fails.\<close>

theorem server_SYN:
  assumes "\<not> s_isClient s" and "sid = rawHeader_StreamID hdr"
  shows "recv_SYN s hdr =
    (if \<not> s_recvSettings s then (fst (writeControlFrame s alert_no_settings), Return None)
     else if map_of (s_streams s) sid \<noteq> None then (s, Continue)
     else if length (s_streams s) < 1024 then
       (s\<lparr>s_store := s_store s @ [newStream sid],
          s_streams := AList.update sid (length (s_store s)) (s_streams s)\<rparr>, Continue)
     else (case writeControlFrame s (refusal s sid) of
             (s', Inl e) \<Rightarrow> (s', Return (Some e))
           | (s', Inr n) \<Rightarrow> (s', Continue)))"
  using assms by (auto simp: recv_SYN_def acceptStream_def refuseStream_write register_def
      maxServerStreams_def err_of_def Let_def split: option.split prod.split sum.split)

theorem server_SYN_witness:
  "recv_SYN demo_server (take 7 (encode_frame (newFrame cmdSYN 1))) = (demo_server, Continue)"
proof -
  have h: "rawHeader_StreamID (take 7 (encode_frame (newFrame cmdSYN 1))) = 1" by code_simp
  have "\<not> s_isClient demo_server" "s_recvSettings demo_server" by code_simp+
  then show ?thesis using server_SYN [of demo_server 1] h demo_server_state(1) by simp
qed

section \<open>The handshake report\<close>

lemma Session_Close_reportOnce:
  assumes "r < length (s_store s)"
  shows "r < length (s_store (fst (Session_Close s))) \<and>
    st_reportOnce (s_store (fst (Session_Close s)) ! r) = st_reportOnce (s_store s ! r)"
proof (cases "s_die s")
  case False
  have "st_reportOnce (closeLocally x) = st_reportOnce x" for x by (simp add: closeLocally_def)
  then show ?thesis using Session_Close_open [OF False] assms by (auto split: if_splits)
qed (simp add: Session_Close_def assms)

lemma writeControlFrame_reportOnce:
  assumes "r < length (s_store s)"
  shows "r < length (s_store (fst (writeControlFrame s f))) \<and>
    st_reportOnce (s_store (fst (writeControlFrame s f)) ! r) = st_reportOnce (s_store s ! r)"
proof (cases rule: writeControlFrame_cases [of s f])
  case (wait e)
  then show ?thesis using Session_Close_reportOnce [OF assms] by simp
next
  case (fail bp s1 e)
  have "s_store s1 = s_store s" using doWriteConn_frame [OF fail(1)] by (simp add: write_frame_rel_def)
  then show ?thesis using fail(2) Session_Close_reportOnce [of r s1] assms by simp
next
  case (ok bp s1 m)
  have "s_store s1 = s_store s" using doWriteConn_frame [OF ok(1)] by (simp add: write_frame_rel_def)
  then show ?thesis using ok(2) assms by simp
qed

lemma reported:
  assumes "r < length (s_store s)" and "st_reportOnce (s_store s ! r)"
  shows "HandshakeSuccess s r = (s, None)" and "HandshakeFailure s r m = (s, None)"
proof -
  have "(s_store s ! r)\<lparr>st_reportOnce := True\<rparr> = s_store s ! r" using assms(2) by simp
  then have "update_stream (\<lambda>st. st\<lparr>st_reportOnce := True\<rparr>) r s = s"
    by (simp add: update_stream_def)
  then show "HandshakeSuccess s r = (s, None)" "HandshakeFailure s r m = (s, None)"
    using assms(2) by (simp_all add: HandshakeSuccess_def HandshakeFailure_def Let_def split: option.split)
qed

lemma report_marks:
  assumes "r < length (s_store s)" and "s1 = fst (HandshakeSuccess s r) \<or> s1 = fst (HandshakeFailure s r m)"
  shows "r < length (s_store s1) \<and> st_reportOnce (s_store s1 ! r)"
proof -
  let ?t = "update_stream (\<lambda>st. st\<lparr>st_reportOnce := True\<rparr>) r s"
  have t: "r < length (s_store ?t)" "st_reportOnce (s_store ?t ! r)"
    using assms(1) by (simp_all add: nth_store_update_stream)
  from assms(2) consider "s1 = ?t" | f where "s1 = fst (writeControlFrame ?t f)"
    by (auto simp: HandshakeSuccess_def HandshakeFailure_def Let_def case_prod_unfold split: option.splits if_splits)
  then show ?thesis using t writeControlFrame_reportOnce [OF t(1)] by cases simp_all
qed

text \<open>A stream's outcome is reported at most once: after one report, of success or failure, a
  second report of either kind sends nothing and changes nothing.\<close>

theorem handshake_reported_once:
  assumes "r < length (s_store s)" and "s1 = fst (HandshakeSuccess s r) \<or> s1 = fst (HandshakeFailure s r m)"
  shows "HandshakeSuccess s1 r = (s1, None) \<and> HandshakeFailure s1 r m' = (s1, None)"
  using reported report_marks [OF assms] by simp

theorem handshake_reported_once_witness:
  "HandshakeFailure (fst (HandshakeSuccess demo_server 0)) 0 (Some ''refused'')
     = (fst (HandshakeSuccess demo_server 0), None)"
proof -
  have "0 < length (s_store demo_server)" by code_simp
  from handshake_reported_once [OF this disjI1 [OF refl]] show ?thesis by simp
qed

section \<open>Version and padding scheme\<close>

text \<open>Go's \<^verbatim>\<open>range\<close> over a map visits every entry exactly once, in some order.\<close>

definition iterates :: "env \<Rightarrow> bool" where
  "iterates ev \<longleftrightarrow> (\<forall>m. mset (e_iter ev m) = mset m)"

lemma client_settings_map:
  assumes "iterates (s_env c)" and "newline \<notin> set (pf_Md5 (s_padding c))"
  defines "m \<equiv> StringMapFromBytes (StringMap_ToBytes (client_settings c))"
  shows "StringMap_get m ''v'' = ''2''" "StringMap_get m ''padding-md5'' = pf_Md5 (s_padding c)"
proof -
  let ?l = "[(''v'', ''2''), (''client'', ProgramVersionName), (''padding-md5'', pf_Md5 (s_padding c))]"
  have ms: "mset (client_settings c) = mset ?l" using assms(1) by (simp add: iterates_def client_settings_def)
  then have st: "set (client_settings c) = set ?l" using mset_eq_setD by blast
  have "mset (map fst (client_settings c)) = mset (map fst ?l)" using ms by (metis mset_map)
  moreover have "distinct (map fst ?l)" by simp
  ultimately have d: "distinct_keys (client_settings c)"
    unfolding distinct_keys_def by (metis mset_eq_imp_distinct_iff)
  have "line_safe ?l" using assms(2) by (simp add: line_safe_def ProgramVersionName_def)
  then have "line_safe (client_settings c)" using st by (simp add: line_safe_def)
  then have m: "m = client_settings c" unfolding m_def using d by (simp add: FromBytes_ToBytes)
  show "StringMap_get m ''v'' = ''2''" "StringMap_get m ''padding-md5'' = pf_Md5 (s_padding c)"
    using map_of_SomeI [OF d, of "''v''" "''2''"] map_of_SomeI [OF d, of "''padding-md5''"] st
    by (simp_all add: m StringMap_get_def)
qed

definition settings_frame :: "session \<Rightarrow> frame" where
  "settings_frame c = (newFrame cmdSettings 0)\<lparr>f_data := StringMap_ToBytes (client_settings c)\<rparr>"

definition scheme_frame :: "PaddingFactory \<Rightarrow> frame" where
  "scheme_frame p = (newFrame cmdUpdatePaddingScheme 0)\<lparr>f_data := pf_RawScheme p\<rparr>"

definition version_frame :: frame where
  "version_frame = (newFrame cmdServerSettings 0)\<lparr>f_data := StringMap_ToBytes [(''v'', ''2'')]\<rparr>"

text \<open>The frames a server answers a client's settings with.\<close>

definition settings_reply :: "PaddingFactory \<Rightarrow> PaddingFactory \<Rightarrow> frame list" where
  "settings_reply client server =
     (if pf_Md5 client \<noteq> pf_Md5 server then [scheme_frame server] else []) @ [version_frame]"

lemma recv_step_body:
  assumes op: "is_open s" and i: "inp s = encode_frame f @ rest" and f: "wf_frame f" "f_data f \<noteq> []"
  obtains c h c2 where "recv_step s = dispatch (s\<lparr>s_conn := c\<rparr>) h" "rawHeader_Cmd h = f_cmd f"
    "\<And>k. with_body (s\<lparr>s_conn := c\<rparr>) h k = k (s\<lparr>s_conn := c2\<rparr>) (f_data f)"
    "c_in (base_conn c2) = rest" "\<not> c_closed (base_conn c2)" "nc_sent c2 = nc_sent (s_conn s)"
proof -
  obtain c h where st: "recv_step s = dispatch (s\<lparr>s_conn := c\<rparr>) h"
    and c: "c_in (base_conn c) = f_data f @ rest" "\<not> c_closed (base_conn c)" "nc_sent c = nc_sent (s_conn s)"
    and h: "rawHeader_Cmd h = f_cmd f" "rawHeader_Length h = word_of_nat (length (f_data f))"
    using recv_step_header [OF op i] by metis
  have "is_open (s\<lparr>s_conn := c\<rparr>)" "inp (s\<lparr>s_conn := c\<rparr>) = f_data f @ rest" "length (f_data f) \<le> 65535"
    using op c f by (simp_all add: is_open_def wf_frame_def)
  from with_body_exact [OF this(1,2) h(2) this(3) f(2)]
  obtain c2 where "\<forall>k. with_body (s\<lparr>s_conn := c\<rparr>) h k = k ((s\<lparr>s_conn := c\<rparr>)\<lparr>s_conn := c2\<rparr>) (f_data f)"
      "c_in (base_conn c2) = rest" "\<not> c_closed (base_conn c2)" "nc_sent c2 = nc_sent c"
    by auto
  then show thesis using st h c(3) by (intro that [of c h c2]) simp_all
qed

lemma Atoi_2: "Atoi ''2'' = Some 2"
  by (simp add: parse_eval)

lemma reply_scheme_refines:
  assumes "reply_scheme s m = (s', None)" and "scheme_bounded (s_padding s)" and "in_sync s"
    and "length (pf_RawScheme (s_padding s)) \<le> 65535"
  shows "in_sync s' \<and> write_frame_rel s s' \<and> frames_written s' = frames_written s @
    (if StringMap_get m ''padding-md5'' \<noteq> pf_Md5 (s_padding s) then [scheme_frame (s_padding s)] else [])"
proof (cases "StringMap_get m ''padding-md5'' = pf_Md5 (s_padding s)")
  case False
  obtain n where w: "writeControlFrame s (scheme_frame (s_padding s)) = (s', Inr n)"
    using assms(1) False unfolding scheme_frame_def
    by (auto simp: reply_scheme_def Let_def err_of_def split: prod.splits sum.splits)
  have "wf_frame (scheme_frame (s_padding s))" "not_waste (scheme_frame (s_padding s))"
    using assms(4) by (simp_all add: wf_frame_def scheme_frame_def newFrame_def carries_data_def not_waste_def cmd_defs)
  then show ?thesis using writeControlFrame_refines [OF w assms(2,3)] writeControlFrame_frame [OF w] False by simp
qed (use assms in \<open>simp add: reply_scheme_def\<close>)

lemma reply_version_refines:
  assumes "reply_version s m = (s', None)" and "StringMap_get m ''v'' = ''2''"
    and "scheme_bounded (s_padding s)" and "in_sync s"
  shows "in_sync s' \<and> s_peerVersion s' = 2 \<and> s_recvSettings s' = s_recvSettings s \<and>
    frames_written s' = frames_written s @ [version_frame]"
proof -
  let ?t = "s\<lparr>s_peerVersion := 2\<rparr>"
  obtain n where w: "writeControlFrame ?t version_frame = (s', Inr n)"
    using assms(1) Atoi_2 unfolding version_frame_def
    by (auto simp: reply_version_def assms(2) Let_def err_of_def split: prod.splits sum.splits)
  have t: "scheme_bounded (s_padding ?t)" "in_sync ?t" "frames_written ?t = frames_written s"
    using assms(3,4) by (simp_all add: in_sync_def frames_written_def outgoing_def)
  have "wf_frame version_frame" "not_waste version_frame"
    by (simp_all add: wf_frame_def version_frame_def newFrame_def carries_data_def not_waste_def cmd_defs
        StringMap_ToBytes_def bytes_of_def)
  then show ?thesis using writeControlFrame_refines [OF w t(1,2)] writeControlFrame_frame [OF w] t(3)
    by (simp add: write_frame_rel_def)
qed

lemma StringMap_get_Nil: "StringMap_get (StringMapFromBytes []) k = []"
  by (simp add: StringMap_get_def StringMapFromBytes_def string_of_def add_line_def SplitN2_def)

text \<open>C22. Negotiation. A server that reads the settings frame of a client of this program either
  answers it with its padding scheme, if and only if the digests differ, followed by its own
  version, and then knows the client speaks version 2 and accepts its streams; or a write
  failed and the loop ends with the error.\<close>

theorem settings_negotiated:
  assumes "iterates (s_env cl)" and "newline \<notin> set (pf_Md5 (s_padding cl))" and "wf_frame (settings_frame cl)"
    and "is_open s" and "\<not> s_isClient s" and "inp s = encode_frame (settings_frame cl) @ rest"
    and "scheme_bounded (s_padding s)" and "in_sync s" and "length (pf_RawScheme (s_padding s)) \<le> 65535"
  shows "case recv_step s of
      (s', Continue) \<Rightarrow> s_recvSettings s' \<and> s_peerVersion s' = 2 \<and> in_sync s' \<and>
        frames_written s' = frames_written s @ settings_reply (s_padding cl) (s_padding s)
    | (s', Return e) \<Rightarrow> e \<noteq> None"
proof -
  let ?m = "StringMapFromBytes (StringMap_ToBytes (client_settings cl))"
  note m = client_settings_map [OF assms(1,2)]
  have f: "f_cmd (settings_frame cl) = cmdSettings"
      "f_data (settings_frame cl) = StringMap_ToBytes (client_settings cl)"
    by (simp_all add: settings_frame_def newFrame_def)
  have ne: "f_data (settings_frame cl) \<noteq> []"
    using m(1) StringMap_get_Nil [of "''v''"] unfolding f(2) by (cases "StringMap_ToBytes (client_settings cl)") auto
  obtain c h c2 where st: "recv_step s = dispatch (s\<lparr>s_conn := c\<rparr>) h" "rawHeader_Cmd h = cmdSettings"
      and body: "\<And>k. with_body (s\<lparr>s_conn := c\<rparr>) h k = k (s\<lparr>s_conn := c2\<rparr>) (StringMap_ToBytes (client_settings cl))"
      and sent: "nc_sent c2 = nc_sent (s_conn s)"
    using recv_step_body [OF assms(4,6,3) ne] unfolding f by metis
  define t where "t = s\<lparr>s_conn := c2, s_recvSettings := True\<rparr>"
  have t: "in_sync t" "frames_written t = frames_written s" "s_padding t = s_padding s" "s_recvSettings t"
    using assms(8) sent by (simp_all add: t_def in_sync_def frames_written_def outgoing_def)
  have step: "recv_step s = (case reply_scheme t ?m of
             (s2, Some e) \<Rightarrow> (s2, Return (Some e))
           | (s2, None) \<Rightarrow> (case reply_version s2 ?m of
                  (s3, Some e) \<Rightarrow> (s3, Return (Some e)) | (s3, None) \<Rightarrow> (s3, Continue)))"
    using st body assms(5) by (simp add: dispatch_def recv_Settings_def cmd_defs t_def Let_def)
  have "s_recvSettings s3 \<and> s_peerVersion s3 = 2 \<and> in_sync s3 \<and>
      frames_written s3 = frames_written s @ settings_reply (s_padding cl) (s_padding s)"
    if r2: "reply_scheme t ?m = (s2, None)" and r3: "reply_version s2 ?m = (s3, None)" for s2 s3
  proof -
    have two: "in_sync s2" "write_frame_rel t s2" "frames_written s2 = frames_written t @
        (if pf_Md5 (s_padding cl) \<noteq> pf_Md5 (s_padding s) then [scheme_frame (s_padding s)] else [])"
      using reply_scheme_refines [OF r2] assms(7,9) t m(2) by simp_all
    have "scheme_bounded (s_padding s2)" "s_recvSettings s2"
      using two(2) assms(7) t by (simp_all add: write_frame_rel_def)
    then show ?thesis using reply_version_refines [OF r3 m(1) _ two(1)] two(3) t(2)
      by (simp add: settings_reply_def)
  qed
  note good = this
  obtain s2 r2 where r2: "reply_scheme t ?m = (s2, r2)" by fastforce
  obtain s3 r3 where r3: "reply_version s2 ?m = (s3, r3)" by fastforce
  show ?thesis
  proof (cases "r2 = None \<and> r3 = None")
    case True
    then have "recv_step s = (s3, Continue)" unfolding step r2 prod.case by (simp add: r3)
    then show ?thesis using good [of s2 s3] r2 r3 True by simp
  next
    case False
    then have "\<exists>u e. recv_step s = (u, Return (Some e))"
      unfolding step r2 prod.case by (cases r2; cases r3) (simp_all add: r3)
    then show ?thesis by auto
  qed
qed

text \<open>A client of the small instance whose digest differs from the server's.\<close>

definition demo_settings_client :: session where
  "demo_settings_client = demo_client\<lparr>s_padding := demo_padding\<lparr>pf_Md5 := ''x''\<rparr>\<rparr>"

lemma demo_settings_frame: "f_data (settings_frame demo_settings_client) =
    bytes_of (''v=2'' @ [newline] @ ''client=anytls/2026.10.17'' @ [newline] @ ''padding-md5=x'')"
  by (simp add: settings_frame_def newFrame_def demo_settings_client_def demo_client_def NewClientSession_def
      client_settings_def demo_env_def demo_padding_def StringMap_ToBytes_def ProgramVersionName_def)

definition demo_fresh_server :: session where
  "demo_fresh_server = NewServerSession demo_env
     (demo_conn (encode_frame (settings_frame demo_settings_client))) True demo_padding"

lemma demo_fresh_server_props:
  "is_open demo_fresh_server" "\<not> s_isClient demo_fresh_server" "s_padding demo_fresh_server = demo_padding"
  "inp demo_fresh_server = encode_frame (settings_frame demo_settings_client) @ []"
  "in_sync demo_fresh_server" "frames_written demo_fresh_server = []"
  "length (pf_RawScheme demo_padding) \<le> 65535"
  by (simp_all add: demo_fresh_server_def NewServerSession_def is_open_def demo_conn_def inp_def in_sync_def
      frames_written_def outgoing_def nc_sent_def sent_def demo_padding_def)

theorem settings_negotiated_witness:
  "case recv_step demo_fresh_server of
      (s', Continue) \<Rightarrow> s_recvSettings s' \<and> s_peerVersion s' = 2 \<and>
        frames_written s' = settings_reply (demo_padding\<lparr>pf_Md5 := ''x''\<rparr>) demo_padding
    | (s', Return e) \<Rightarrow> e \<noteq> None"
proof -
  have c: "iterates (s_env demo_settings_client)" "s_padding demo_settings_client = demo_padding\<lparr>pf_Md5 := ''x''\<rparr>"
    by (simp_all add: demo_settings_client_def demo_client_def NewClientSession_def iterates_def demo_env_def)
  have n: "newline \<notin> set (pf_Md5 (s_padding demo_settings_client))" by (simp add: c(2))
  have w: "wf_frame (settings_frame demo_settings_client)"
    by (simp add: wf_frame_def demo_settings_frame)
      (simp add: settings_frame_def newFrame_def carries_data_def)
  note p = demo_fresh_server_props
  have b: "scheme_bounded (s_padding demo_fresh_server)" "length (pf_RawScheme (s_padding demo_fresh_server)) \<le> 65535"
    using p demo_bounded by simp_all
  show ?thesis
    using settings_negotiated [OF c(1) n w p(1,2,4) b(1) p(5) b(2)] p(3,6) c(2)
    by (auto split: prod.split recv_res.split)
qed

text \<open>Schemes converge. When a client that is not debugging its padding reads the scheme frame of a
  server whose factory was built from a valid scheme, it adopts exactly that factory; a server
  with that factory does not send it again.\<close>

theorem padding_scheme_converges:
  assumes "s_isClient c" and "\<not> e_debugPadding (s_env c)" and "is_open c" and "iterates (s_env c)"
    and "NewPaddingFactory (e_md5 (s_env c)) raw = Some p" and "length raw \<le> 65535" and "newline \<notin> set (pf_Md5 p)"
    and "inp c = encode_frame (scheme_frame p) @ rest" and "s_padding sv = p"
  shows "case recv_step c of
      (c', Continue) \<Rightarrow> s_padding c' = p \<and> inp c' = rest \<and>
        reply_scheme sv (StringMapFromBytes (StringMap_ToBytes (client_settings c'))) = (sv, None)
    | (c', Return e) \<Rightarrow> False"
proof -
  have raw: "pf_RawScheme p = raw" using assms(5) by (auto simp: NewPaddingFactory_def Let_def split: if_splits option.splits)
  have ne: "raw \<noteq> []"
  proof
    assume "raw = []"
    then have "StringMapFromBytes raw = []"
      by (simp add: StringMapFromBytes_def string_of_def add_line_def SplitN2_def)
    then show False using assms(5) by (simp add: NewPaddingFactory_def)
  qed
  have f: "f_cmd (scheme_frame p) = cmdUpdatePaddingScheme" "f_data (scheme_frame p) = raw"
    by (simp_all add: scheme_frame_def newFrame_def raw)
  have wf: "wf_frame (scheme_frame p)" using assms(6) by (simp add: wf_frame_def f carries_data_def)
  obtain c1 h c2 where st: "recv_step c = dispatch (c\<lparr>s_conn := c1\<rparr>) h" "rawHeader_Cmd h = cmdUpdatePaddingScheme"
      and body: "\<And>k. with_body (c\<lparr>s_conn := c1\<rparr>) h k = k (c\<lparr>s_conn := c2\<rparr>) raw"
      and c2: "c_in (base_conn c2) = rest"
    using recv_step_body [OF assms(3,8) wf] ne unfolding f by metis
  let ?c' = "c\<lparr>s_conn := c2, s_padding := p\<rparr>"
  have step: "recv_step c = (?c', Continue)"
    using st body assms(1,2,5) by (simp add: dispatch_def recv_UpdatePaddingScheme_def cmd_defs UpdatePaddingScheme_def)
  have "StringMap_get (StringMapFromBytes (StringMap_ToBytes (client_settings ?c'))) ''padding-md5'' = pf_Md5 p"
    using client_settings_map(2) [of ?c'] assms(4,7) by simp
  then show ?thesis using step c2 assms(9) by (simp add: reply_scheme_def)
qed

definition default_factory :: PaddingFactory where
  "default_factory = \<lparr>pf_scheme = default_scheme_lines, pf_RawScheme = defaultPaddingScheme, pf_Stop = 8,
     pf_Md5 = ''''\<rparr>"

theorem padding_scheme_converges_witness:
  "case recv_step (demo_client\<lparr>s_conn := demo_conn (encode_frame (scheme_frame default_factory))\<rparr>) of
      (c', Continue) \<Rightarrow> s_padding c' = default_factory
    | (c', Return e) \<Rightarrow> False"
proof -
  let ?c = "demo_client\<lparr>s_conn := demo_conn (encode_frame (scheme_frame default_factory))\<rparr>"
  have c: "s_isClient ?c" "\<not> e_debugPadding (s_env ?c)" "is_open ?c" "iterates (s_env ?c)"
      "inp ?c = encode_frame (scheme_frame default_factory) @ []" "e_md5 (s_env ?c) = (\<lambda>_. '''')"
    by (simp_all add: demo_client_def NewClientSession_def demo_env_def is_open_def demo_conn_def iterates_def inp_def)
  have p: "NewPaddingFactory (e_md5 (s_env ?c)) defaultPaddingScheme = Some default_factory"
    unfolding c(6) default_scheme_factory by (simp add: default_factory_def)
  have l: "length defaultPaddingScheme \<le> 65535" by (simp add: defaultPaddingScheme_def)
  have n: "newline \<notin> set (pf_Md5 default_factory)" by (simp add: default_factory_def)
  let ?sv = "demo_fresh_server\<lparr>s_padding := default_factory\<rparr>"
  have "s_padding ?sv = default_factory" by simp
  from padding_scheme_converges [OF c(1-4) p l n c(5) this]
  show ?thesis by (auto split: prod.splits recv_res.splits)
qed

end
