(* ===== verification/Session_Script.thy ===== *)
theory Session_Script
  imports Session_Protocol
begin

text \<open>
  A session from its first byte to its last. A client starts a session, opens streams and writes on
  them; a server reads what this put on the wire. The theory relates the two ends through what the
  frames mean to a reader of the streams: a list of stream ids with the data of each.
\<close>

section \<open>What a client does\<close>

text \<open>A stream is named by its position among the opened ones.\<close>

datatype act = Open | Send nat bytes

fun perform :: "session \<Rightarrow> act list \<Rightarrow> session option" where
  "perform s [] = Some s"
| "perform s (Open # as) =
     (case OpenStream s of (s', Inr r) \<Rightarrow> perform s' as | (s', Inl e) \<Rightarrow> None)"
| "perform s (Send r d # as) =
     (if r < length (s_store s)
      then (case Stream_Write s r d of (s', n, None) \<Rightarrow> perform s' as | (s', n, Some e) \<Rightarrow> None)
      else None)"

definition opens :: "act list \<Rightarrow> nat" where
  "opens as = length (filter (\<lambda>a. a = Open) as)"

lemma opens_simps [simp]: "opens [] = 0" "opens (Open # as) = Suc (opens as)" "opens (Send r d # as) = opens as"
  by (simp_all add: opens_def)

section \<open>What a reader of the streams sees\<close>

type_synonym view = "(u32 \<times> bytes) list"

fun expected :: "act list \<Rightarrow> view \<Rightarrow> view" where
  "expected [] v = v"
| "expected (Open # as) v = expected as (v @ [(word_of_nat (Suc (length v)), [])])"
| "expected (Send r d # as) v = expected as (v[r := (fst (v ! r), snd (v ! r) @ d)])"

definition view_of :: "session \<Rightarrow> view" where
  "view_of s = map (\<lambda>st. (st_id st, st_read st)) (s_store s)"

text \<open>What one frame means.\<close>

definition see :: "frame \<Rightarrow> view \<Rightarrow> view" where
  "see f v =
     (if f_cmd f = cmdSYN then (if f_sid f \<in> fst ` set v then v else v @ [(f_sid f, [])])
      else if f_cmd f = cmdPSH then map (\<lambda>(i, b). (i, if i = f_sid f then b @ f_data f else b)) v
      else v)"

definition stream_frame :: "frame \<Rightarrow> bool" where
  "stream_frame f \<longleftrightarrow> wf_frame f \<and> (f_cmd f = cmdSYN \<or> f_cmd f = cmdPSH \<or> f_cmd f = cmdWaste)"

lemma see_waste [simp]: "see (waste l) v = v"
  by (simp add: see_def cmd_defs)

lemma fold_see_wastes [simp]: "fold see (map waste ws) v = v"
  by (induction ws) simp_all

lemma fst_see: "\<exists>w. map fst (see f v) = map fst v @ w"
  by (auto simp: see_def case_prod_unfold comp_def)

lemma length_fold_see: "length v \<le> length (fold see fs v)"
proof (induction fs arbitrary: v)
  case (Cons f fs)
  obtain w where "map fst (see f v) = map fst v @ w" using fst_see by blast
  then have "length v \<le> length (see f v)" by (metis length_append length_map le_add1)
  then show ?case using Cons.IH [of "see f v"] by simp
qed simp

lemma distinct_see: "distinct (map fst v) \<Longrightarrow> distinct (map fst (see f v))"
  by (auto simp: see_def case_prod_unfold comp_def)

lemma see_psh_at:
  assumes "distinct (map fst v)" "r < length v" "fst (v ! r) = sid"
  shows "see (psh sid d) v = v[r := (sid, snd (v ! r) @ d)]"
proof (rule nth_equalityI)
  fix i assume "i < length (see (psh sid d) v)"
  then have i: "i < length v" by (simp add: see_def psh_def cmd_defs)
  then have "fst (v ! i) = sid \<longleftrightarrow> i = r" using assms nth_eq_iff_index_eq [of "map fst v" i r] by auto
  then show "see (psh sid d) v ! i = v[r := (sid, snd (v ! r) @ d)] ! i"
    using i by (auto simp: see_def psh_def cmd_defs nth_list_update case_prod_unfold prod_eq_iff)
qed (simp add: see_def psh_def cmd_defs)

lemma fold_see_data:
  assumes "filter not_waste fs = map (psh sid) ds" "distinct (map fst v)" "r < length v" "fst (v ! r) = sid"
  shows "fold see fs v = v[r := (sid, snd (v ! r) @ concat ds)]"
  using assms
proof (induction fs arbitrary: ds v)
  case Nil
  then show ?case by (auto simp: list_update_same_conv prod_eq_iff)
next
  case (Cons f fs)
  show ?case
  proof (cases "not_waste f")
    case False
    then have "see f v = v" by (simp add: see_def not_waste_def cmd_defs)
    then show ?thesis using Cons.IH [of ds v] Cons.prems False by simp
  next
    case True
    then obtain d ds' where ds: "ds = d # ds'" "f = psh sid d" using Cons.prems(1) by (cases ds) auto
    let ?v = "v[r := (sid, snd (v ! r) @ d)]"
    have s: "see f v = ?v" using see_psh_at [OF Cons.prems(2-4)] ds by simp
    have "distinct (map fst ?v)" using distinct_see [OF Cons.prems(2), of f] s by simp
    then have "fold see fs ?v = ?v[r := (sid, snd (?v ! r) @ concat ds')]"
      using Cons.IH [of ds' ?v] Cons.prems ds True by simp
    then show ?thesis using s ds Cons.prems(3) by simp
  qed
qed

section \<open>The client's end\<close>

definition emits :: "session \<Rightarrow> frame list \<Rightarrow> session \<Rightarrow> bool" where
  "emits s fs s' \<longleftrightarrow> outgoing s' = outgoing s @ concat (map encode_frame fs) \<and> (\<forall>f \<in> set fs. stream_frame f)"

lemma emits_refl: "emits s [] s"
  by (simp add: emits_def)

lemma emits_trans: "emits s fs t \<Longrightarrow> emits t gs u \<Longrightarrow> emits s (fs @ gs) u"
  by (auto simp: emits_def)

lemma stream_frame_waste: "good_size l \<Longrightarrow> stream_frame (waste l)"
  by (simp add: stream_frame_def wf_waste)

lemma sends_emits: "sends s fs s' \<Longrightarrow> emits s fs s'"
  by (auto simp: sends_def emits_def stream_frame_def)

text \<open>The streams of a client that has opened those of \<open>v\<close> are numbered from one.\<close>

definition client_at :: "session \<Rightarrow> view \<Rightarrow> bool" where
  "client_at c v \<longleftrightarrow> map st_id (s_store c) = map fst v \<and> s_streamId c = word_of_nat (length v) \<and>
     map fst v = map (\<lambda>i. word_of_nat (Suc i)) [0..<length v] \<and> scheme_bounded (s_padding c)"

lemma small_ids_distinct:
  assumes "n < 2 ^ 32"
  shows "distinct (map (\<lambda>i. word_of_nat (Suc i) :: u32) [0..<n])"
proof -
  have "unat (word_of_nat (Suc i) :: u32) = Suc i" if "i < n" for i
    using that assms by (simp add: unsigned_of_nat take_bit_nat_eq_self del: of_nat_Suc)
  then show ?thesis unfolding distinct_map inj_on_def by (metis Suc_inject atLeastLessThan_iff distinct_upt set_upt)
qed

lemma client_at_distinct: "client_at c v \<Longrightarrow> length v < 2 ^ 32 \<Longrightarrow> distinct (map fst v)"
  using small_ids_distinct [of "length v"] by (simp add: client_at_def)

lemma client_at_fresh:
  assumes "client_at c v" "Suc (length v) < 2 ^ 32"
  shows "word_of_nat (Suc (length v)) \<notin> fst ` set v"
proof -
  have "map fst v @ [word_of_nat (Suc (length v))] = map (\<lambda>i. word_of_nat (Suc i)) [0..<Suc (length v)]"
    using assms(1) by (simp add: client_at_def)
  then have "distinct (map fst v @ [word_of_nat (Suc (length v)) :: u32])" using small_ids_distinct [OF assms(2)] by simp
  then show ?thesis by simp
qed

lemma wf_syn: "wf_frame (newFrame cmdSYN sid)" "stream_frame (newFrame cmdSYN sid)"
  by (simp_all add: wf_frame_def stream_frame_def newFrame_def)

lemma control_emits:
  assumes "writeControlFrame s f = (s', Inr n)" "scheme_bounded (s_padding s)"
  obtains ws where "\<forall>w \<in> set ws. good_size w"
    "outgoing s' = outgoing s @ concat (map encode_frame (f # map waste ws))" "write_frame_rel s s'"
proof -
  obtain bp m where d: "doWriteConn s (encode_frame f) bp = (s', Inr m)" using writeControlFrame_ok [OF assms(1)] by blast
  obtain ws where "\<forall>w \<in> set ws. good_size w" "outgoing s' = outgoing s @ encode_frame f @ concat (map waste_frame ws)"
    using doWriteConn_sends [OF d assms(2)] by blast
  then show thesis using that [of ws] concat_waste_frames [of ws] doWriteConn_frame [OF d] by simp
qed

lemma OpenStream_emits:
  assumes "OpenStream c = (c', Inr r)" "client_at c v" "Suc (length v) < 2 ^ 32"
  shows "\<exists>fs. emits c fs c' \<and> client_at c' (v @ [(word_of_nat (Suc (length v)), [])]) \<and>
    fold see fs v = v @ [(word_of_nat (Suc (length v)), [])]"
proof -
  let ?sid = "word_of_nat (Suc (length v)) :: u32"
  note k = assms(2) [unfolded client_at_def]
  have sid: "s_streamId c + 1 = ?sid" using k by simp
  define s2 where "s2 = (if ?sid \<ge> 2 \<and> s_peerVersion c \<ge> 2 then c\<lparr>s_streamId := ?sid, s_synDone := True\<rparr> else c\<lparr>s_streamId := ?sid\<rparr>)"
  obtain s3 n where w: "writeControlFrame s2 (newFrame cmdSYN ?sid) = (s3, Inr n)" and c': "c' = register ?sid (s3\<lparr>s_buffering := False\<rparr>)"
    using assms(1) unfolding OpenStream_def Let_def sid s2_def
    by (auto split: if_splits prod.splits sum.splits)
  have s2: "outgoing s2 = outgoing c" "s_store s2 = s_store c" "s_padding s2 = s_padding c" "s_streamId s2 = ?sid"
    by (simp_all add: s2_def outgoing_def)
  have sb: "scheme_bounded (s_padding s2)" using k s2(3) by simp
  obtain ws where ws: "\<forall>w \<in> set ws. good_size w"
      and out: "outgoing s3 = outgoing s2 @ concat (map encode_frame (newFrame cmdSYN ?sid # map waste ws))"
      and rel: "write_frame_rel s2 s3"
    by (rule control_emits [OF w sb])
  let ?fs = "newFrame cmdSYN ?sid # map waste ws"
  have "outgoing c' = outgoing s3" by (simp add: c' register_def outgoing_def)
  then have "emits c ?fs c'" using out s2(1) ws stream_frame_waste wf_syn(2) by (simp add: emits_def del: of_nat_Suc)
  moreover have "client_at c' (v @ [(?sid, [])])"
  proof -
    have "s_store c' = s_store c @ [newStream ?sid]" "s_streamId c' = ?sid" "s_padding c' = s_padding c"
      using rel s2 by (simp_all add: c' register_def write_frame_rel_def del: of_nat_Suc)
    then show ?thesis using k by (simp add: client_at_def newStream_def del: of_nat_Suc)
  qed
  moreover have "fold see ?fs v = v @ [(?sid, [])]"
    using client_at_fresh [OF assms(2,3)] by (simp add: see_def newFrame_def)
  ultimately show ?thesis by blast
qed

lemma outgoing_account [simp]: "outgoing (account g r s) = outgoing s"
  by (simp add: account_def Let_def outgoing_def)

lemma account_client_at [simp]: "client_at (account g r s) v = client_at s v"
proof -
  have "map st_id (s_store (account g r s)) = map st_id (s_store s)"
    by (simp add: account_def Let_def update_stream_def map_update) (simp add: list_eq_iff_nth_eq nth_list_update)
  then show ?thesis by (simp add: client_at_def account_def Let_def)
qed

lemma Stream_Write_emits:
  assumes "Stream_Write c r d = (c', n, None)" "client_at c v" "r < length (s_store c)" "length v < 2 ^ 32"
  shows "\<exists>fs. emits c fs c' \<and> client_at c' (v[r := (fst (v ! r), snd (v ! r) @ d)]) \<and>
    fold see fs v = v[r := (fst (v ! r), snd (v ! r) @ d)]"
proof -
  note k = assms(2) [unfolded client_at_def]
  have l: "length (s_store c) = length v" using k by (metis length_map)
  have id: "st_id (s_store c ! r) = fst (v ! r)" using k assms(3) l by (metis nth_map)
  obtain s' where w: "writeDataFrame c (fst (v ! r)) d = (s', n, None)" and c': "c' = (if n > 0 then account (AddRx n) r s' else s')"
    using assms(1) id by (auto simp: Stream_Write_def Let_def split: if_splits option.splits prod.splits)
  obtain fs where fs: "sends c fs s'" "filter not_waste fs = map (psh (fst (v ! r))) (data_chunks d)"
    using writeDataFrame_loop_sends [OF w [unfolded writeDataFrame_def]] k by blast
  have rel: "write_frame_rel c s'" by (rule writeDataFrame_loop_frame [OF w [unfolded writeDataFrame_def]])
  let ?v = "v[r := (fst (v ! r), snd (v ! r) @ d)]"
  have ids: "map fst ?v = map fst v" using assms(3) l by (simp add: map_update) (metis list_update_id map_update)
  have "emits c fs c'" using sends_emits [OF fs(1)] by (simp add: emits_def c')
  moreover have "client_at s' ?v" using k rel ids unfolding client_at_def by (simp add: write_frame_rel_def)
  then have "client_at c' ?v" by (simp add: c')
  moreover have "fold see fs v = ?v"
    using fold_see_data [OF fs(2) client_at_distinct [OF assms(2,4)] _ refl] assms(3) l by (simp add: concat_data_chunks)
  ultimately show ?thesis by blast
qed

lemma perform_emits:
  assumes "perform c as = Some c'" "client_at c v" "length v + opens as < 2 ^ 32"
  shows "\<exists>fs. emits c fs c' \<and> fold see fs v = expected as v"
  using assms
proof (induction c as arbitrary: v rule: perform.induct)
  case (1 s)
  then show ?case using emits_refl by (intro exI [of _ "[]"]) simp
next
  case (2 s as)
  obtain s1 r where o: "OpenStream s = (s1, Inr r)" and p: "perform s1 as = Some c'"
    using "2.prems"(1) by (auto split: prod.splits sum.splits)
  obtain fs where fs: "emits s fs s1" "client_at s1 (v @ [(word_of_nat (Suc (length v)), [])])"
      "fold see fs v = v @ [(word_of_nat (Suc (length v)), [])]"
    using OpenStream_emits [OF o "2.prems"(2)] "2.prems"(3) by auto
  obtain gs where "emits s1 gs c'" "fold see gs (v @ [(word_of_nat (Suc (length v)), [])]) = expected as (v @ [(word_of_nat (Suc (length v)), [])])"
    using "2.IH" [OF o [symmetric] refl p fs(2)] "2.prems"(3) by auto
  then show ?case using emits_trans [OF fs(1)] fs(3) by (intro exI [of _ "fs @ gs"]) simp
next
  case (3 s r d as)
  obtain s1 n where l: "r < length (s_store s)" and w: "Stream_Write s r d = (s1, n, None)" and p: "perform s1 as = Some c'"
    using "3.prems"(1) by (auto split: prod.splits option.splits if_splits)
  let ?v = "v[r := (fst (v ! r), snd (v ! r) @ d)]"
  obtain fs where fs: "emits s fs s1" "client_at s1 ?v" "fold see fs v = ?v"
    using Stream_Write_emits [OF w "3.prems"(2) l] "3.prems"(3) by auto
  obtain gs where "emits s1 gs c'" "fold see gs ?v = expected as ?v"
    using "3.IH" [OF l w [symmetric] refl refl p fs(2)] "3.prems"(3) by auto
  then show ?case using emits_trans [OF fs(1)] fs(3) by (intro exI [of _ "fs @ gs"]) simp
qed

section \<open>The server's end\<close>

text \<open>A server that has read the settings and whose streams are exactly those of the view, all alive.\<close>

definition server_at :: "session \<Rightarrow> view \<Rightarrow> bool" where
  "server_at s v \<longleftrightarrow> is_open s \<and> \<not> s_isClient s \<and> s_recvSettings s \<and> view_of s = v \<and> distinct (map fst v) \<and>
     s_streams s = map (\<lambda>r. (fst (v ! r), r)) [0..<length v] \<and> (\<forall>st \<in> set (s_store s). \<not> st_pipeDone st)"

lemma server_at_store:
  assumes "server_at s v"
  shows "length (s_store s) = length v" "r < length v \<Longrightarrow> v ! r = (st_id (s_store s ! r), st_read (s_store s ! r))"
  using assms by (auto simp: server_at_def view_of_def)

lemma server_at_lookup:
  assumes "server_at s v"
  shows "map_of (s_streams s) sid = Some r \<longleftrightarrow> r < length v \<and> fst (v ! r) = sid"
    and "map_of (s_streams s) sid = None \<longleftrightarrow> sid \<notin> fst ` set v"
proof -
  have st: "s_streams s = map (\<lambda>r. (fst (v ! r), r)) [0..<length v]" and d: "distinct (map fst v)"
    using assms by (simp_all add: server_at_def)
  have k: "map fst (s_streams s) = map fst v" unfolding st by (intro nth_equalityI) simp_all
  have "map_of (s_streams s) sid = Some r \<longleftrightarrow> (sid, r) \<in> set (s_streams s)" using d k by (metis map_of_eq_Some_iff)
  then show "map_of (s_streams s) sid = Some r \<longleftrightarrow> r < length v \<and> fst (v ! r) = sid" by (auto simp: st)
  have "map_of (s_streams s) sid = None \<longleftrightarrow> sid \<notin> set (map fst (s_streams s))" by (simp add: map_of_eq_None_iff)
  then show "map_of (s_streams s) sid = None \<longleftrightarrow> sid \<notin> fst ` set v" unfolding k by simp
qed

lemma server_at_conn: "server_at s v \<Longrightarrow> \<not> c_closed (base_conn c) \<Longrightarrow> server_at (s\<lparr>s_conn := c\<rparr>) v"
  by (simp add: server_at_def is_open_def view_of_def)

lemma server_at_absorb:
  assumes "server_at s v" "f_cmd f = cmdPSH \<or> f_cmd f = cmdWaste"
  shows "server_at (absorb f s) (see f v)"
proof (cases "f_cmd f = cmdPSH \<and> f_sid f \<in> fst ` set v")
  case False
  then have "absorb f s = s" using server_at_lookup(2) [OF assms(1), of "f_sid f"] by (auto simp: absorb_def split: option.split)
  moreover have "see f v = v" using False assms(2)
    by (force simp: see_def cmd_defs case_prod_unfold intro!: map_idI)
  ultimately show ?thesis using assms(1) by simp
next
  case True
  obtain r where r: "r < length v" "fst (v ! r) = f_sid f" using True by (metis imageE in_set_conv_nth)
  have f: "psh (f_sid f) (f_data f) = f" using True by (simp add: psh_def)
  have dv: "distinct (map fst v)" using assms(1) by (simp add: server_at_def)
  have sv: "see f v = v[r := (f_sid f, snd (v ! r) @ f_data f)]"
    using see_psh_at [OF dv r, of "f_data f"] unfolding f .
  have live: "\<not> st_pipeDone (s_store s ! r)" using assms(1) r(1) server_at_store(1) [OF assms(1)] by (simp add: server_at_def)
  note st = server_at_store(2) [OF assms(1) r(1)]
  let ?x = "(s_store s ! r)\<lparr>st_read := st_read (s_store s ! r) @ f_data f\<rparr>"
  have a: "absorb f s = s\<lparr>s_store := (s_store s)[r := ?x]\<rparr>"
    using True r live server_at_lookup(1) [OF assms(1), of "f_sid f" r] server_at_store(1) [OF assms(1)]
    by (simp add: absorb_def update_stream_def deliver_def)
  have vw: "view_of (absorb f s) = see f v"
    unfolding sv a using assms(1) r st by (simp add: view_of_def server_at_def map_update)
  have "map (\<lambda>q. (fst (see f v ! q), q)) [0..<length (see f v)] = map (\<lambda>q. (fst (v ! q), q)) [0..<length v]"
    using r unfolding sv by (auto simp: nth_list_update)
  moreover have "\<forall>y \<in> set (s_store (absorb f s)). \<not> st_pipeDone y"
    using assms(1) live set_update_subset_insert [of "s_store s" r ?x] by (auto simp: a server_at_def)
  ultimately show ?thesis
    using assms(1) vw distinct_see [of v f] unfolding server_at_def by (simp add: a is_open_def)
qed

lemma AList_update_new: "k \<notin> fst ` set l \<Longrightarrow> AList.update k x l = l @ [(k, x)]"
  by (induction l) auto

lemma server_at_SYN:
  assumes "server_at s v" "rawHeader_StreamID h = f_sid f" "f_cmd f = cmdSYN" "length v < 1024"
  shows "\<exists>s'. recv_SYN s h = (s', Continue) \<and> s_conn s' = s_conn s \<and> server_at s' (see f v)"
proof (cases "f_sid f \<in> fst ` set v")
  case True
  then have "map_of (s_streams s) (f_sid f) \<noteq> None" using server_at_lookup(2) [OF assms(1)] by blast
  then show ?thesis using True assms by (simp add: recv_SYN_def acceptStream_def server_at_def see_def)
next
  case False
  have n: "map_of (s_streams s) (f_sid f) = None" using False server_at_lookup(2) [OF assms(1)] by blast
  have l: "length (s_store s) = length v" "length (s_streams s) = length v" using assms(1) server_at_store(1) by (simp_all add: server_at_def)
  have st: "s_streams s = map (\<lambda>r. (fst (v ! r), r)) [0..<length v]" using assms(1) by (simp add: server_at_def)
  let ?s = "register (f_sid f) s" and ?v = "v @ [(f_sid f, [])]"
  have "recv_SYN s h = (?s, Continue)"
    using assms n l by (simp add: recv_SYN_def acceptStream_def server_at_def maxServerStreams_def)
  moreover have "s_streams ?s = map (\<lambda>r. (fst (?v ! r), r)) [0..<length ?v]"
  proof -
    have "f_sid f \<notin> fst ` set (s_streams s)" using n by (simp add: map_of_eq_None_iff)
    then show ?thesis using st l by (simp add: register_def AList_update_new nth_append)
  qed
  then have "server_at ?s ?v"
    using assms(1) False unfolding server_at_def by (auto simp: register_def view_of_def newStream_def is_open_def)
  ultimately show ?thesis using False assms(3) by (simp add: see_def register_def)
qed

lemma server_at_step:
  assumes "server_at s v" "inp s = encode_frame f @ rest" "stream_frame f" "length (see f v) \<le> 1024"
  shows "\<exists>s'. recv_step s = (s', Continue) \<and> inp s' = rest \<and> server_at s' (see f v)"
proof (cases "f_cmd f = cmdSYN")
  case False
  have op: "is_open s" using assms(1) by (simp add: server_at_def)
  obtain c where c: "recv_step s = (absorb f (s\<lparr>s_conn := c\<rparr>), Continue)" "c_in (base_conn c) = rest" "\<not> c_closed (base_conn c)"
    using recv_step_absorb [OF op assms(2)] assms(3) False by (auto simp: stream_frame_def data_frame_def)
  have "server_at (absorb f (s\<lparr>s_conn := c\<rparr>)) (see f v)"
    using server_at_absorb [OF server_at_conn [OF assms(1) c(3)]] assms(3) False by (auto simp: stream_frame_def)
  then show ?thesis using c by (simp add: inp_def)
next
  case True
  have op: "is_open s" using assms(1) by (simp add: server_at_def)
  have nd: "f_data f = []" using assms(3) True by (auto simp: stream_frame_def wf_frame_def carries_data_def cmd_defs)
  obtain c h where c: "recv_step s = dispatch (s\<lparr>s_conn := c\<rparr>) h" "c_in (base_conn c) = f_data f @ rest"
      "\<not> c_closed (base_conn c)" "rawHeader_Cmd h = f_cmd f" "rawHeader_StreamID h = f_sid f"
    using recv_step_header [OF op assms(2)] by metis
  have at: "server_at (s\<lparr>s_conn := c\<rparr>) v" by (rule server_at_conn [OF assms(1) c(3)])
  show ?thesis
  proof (cases "f_sid f \<in> fst ` set v \<and> length v \<ge> 1024")
    case True
    then have "map_of (s_streams s) (f_sid f) \<noteq> None" using server_at_lookup(2) [OF assms(1)] by blast
    then have "recv_step s = (s\<lparr>s_conn := c\<rparr>, Continue)" "see f v = v"
      using True \<open>f_cmd f = cmdSYN\<close> c assms(1)
      by (simp_all add: dispatch_def recv_SYN_def acceptStream_def server_at_def see_def cmd_defs)
    then show ?thesis using at c(2) nd by simp
  next
    case False
    then have "length v < 1024" using assms(4) \<open>f_cmd f = cmdSYN\<close> by (auto simp: see_def split: if_splits)
    from server_at_SYN [OF at c(5) \<open>f_cmd f = cmdSYN\<close> this] obtain s' where
      "recv_SYN (s\<lparr>s_conn := c\<rparr>) h = (s', Continue)" "s_conn s' = c" "server_at s' (see f v)" by auto
    then show ?thesis using c \<open>f_cmd f = cmdSYN\<close> nd by (simp add: dispatch_def cmd_defs inp_def)
  qed
qed

lemma view_of_Close: "view_of (fst (Session_Close s)) = view_of s"
proof (cases "s_die s")
  case False
  have k: "(st_id (closeLocally x), st_read (closeLocally x)) = (st_id x, st_read x)" for x by (simp add: closeLocally_def)
  obtain st where st: "fst (Session_Close s) = s\<lparr>s_die := True, s_dieHook := fire (s_dieHook s), s_store := st, s_streams := [],
      s_conn := netConn_Close (s_conn s)\<rparr>" "length st = length (s_store s)"
      "\<forall>i < length st. st ! i = s_store s ! i \<or> st ! i = closeLocally (s_store s ! i)"
    using Session_Close_open [OF False] by fastforce
  have "(st_id (st ! i), st_read (st ! i)) = (st_id (s_store s ! i), st_read (s_store s ! i))" if "i < length st" for i
    using st(3) that k by metis
  then show ?thesis using st(1,2) by (simp add: view_of_def list_eq_iff_nth_eq)
qed (simp add: Session_Close_def)

lemma recvLoop_view:
  assumes "server_at s v" "inp s = concat (map encode_frame fs)" "\<forall>f \<in> set fs. stream_frame f" "length (fold see fs v) \<le> 1024"
  shows "view_of (fst (recvLoop s)) = fold see fs v"
  using assms
proof (induction fs arbitrary: s v)
  case Nil
  have "is_open s" "inp s = []" using Nil by (simp_all add: server_at_def)
  then obtain c where "recvLoop s = (fst (Session_Close (s\<lparr>s_conn := c\<rparr>)), Some EOF)" using recvLoop_EOF by blast
  then show ?case using Nil(1) view_of_Close [of "s\<lparr>s_conn := c\<rparr>"] by (simp add: server_at_def view_of_def)
next
  case (Cons f fs)
  have "length (see f v) \<le> 1024" using Cons.prems(4) length_fold_see [of "see f v" fs] by simp
  then obtain s' where s': "recv_step s = (s', Continue)" "inp s' = concat (map encode_frame fs)" "server_at s' (see f v)"
    using server_at_step [OF Cons.prems(1), of f "concat (map encode_frame fs)"] Cons.prems(2,3) by auto
  have "recvLoop s = recvLoop s'" using s'(1) by (simp add: recvLoop.simps [of s])
  then show ?case using Cons.IH [OF s'(3,2)] Cons.prems(3,4) by simp
qed

section \<open>The settings\<close>

text \<open>A connection without a limit, whose peer keeps accepting.\<close>

definition unlimited :: "netConn \<Rightarrow> bool" where
  "unlimited c \<longleftrightarrow> (\<exists>k. c = Plain k \<and> c_room k = None \<and> \<not> c_closed k)"

abbreviation roomy :: "session \<Rightarrow> bool" where
  "roomy s \<equiv> unlimited (s_conn s)"

lemma unlimited_write:
  assumes "unlimited c"
  shows "\<exists>c' n. (if bp then netConn_WriteUnlimited else netConn_Write) c b = (c', n, None) \<and> unlimited c'"
  using assms by (auto simp: unlimited_def conn_Write_def)

lemma pad_loop_total:
  assumes "\<And>c b. unlimited c \<Longrightarrow> \<exists>c' n. wr c b = (c', n, None) \<and> unlimited c'"
  shows "unlimited c \<Longrightarrow> \<exists>c' x. pad_loop wr ls c b n = (c', Inr x) \<and> unlimited c'"
proof (induction ls arbitrary: c b n)
  case (Cons l ls)
  have go: "\<exists>c' x. (case wr c y of (c', _, Some e) \<Rightarrow> (c', Inl e) | (c', _, None) \<Rightarrow> pad_loop wr ls c' b' n') = (c', Inr x) \<and> unlimited c'"
    for y b' n' using assms [OF Cons.prems, of y] Cons.IH by fastforce
  show ?case using go Cons by (auto simp: Let_def)
qed simp

lemma doWriteConn_total:
  assumes "roomy s"
  shows "\<exists>s' n. doWriteConn s b bp = (s', Inr n) \<and> roomy s'"
proof -
  define wr where "wr = (if bp then netConn_WriteUnlimited else netConn_Write)"
  have wr: "\<exists>c' n. wr c q = (c', n, None) \<and> unlimited c'" if "unlimited c" for c q
    using unlimited_write [OF that] by (simp add: wr_def)
  show ?thesis
  proof (cases "s_buffering s")
    case False
    define b1 where "b1 = (if length (s_buffer s) > 0 then s_buffer s @ b else b)"
    let ?ls = "GenerateRecordPayloadSizes (e_rnd (s_env s) (s_pktCounter s + 1)) (s_padding s) (s_pktCounter s + 1)"
    obtain c x m where pl: "pad_loop wr ?ls (s_conn s) b1 0 = (c, Inr (x, m))" "unlimited c"
      using pad_loop_total [of wr, OF wr assms, of ?ls b1 0] by (metis surj_pair)
    obtain c1 n1 c2 n2 where "wr (s_conn s) b1 = (c1, n1, None)" "unlimited c1" "wr c x = (c2, n2, None)" "unlimited c2"
      using wr [OF assms] wr [OF pl(2)] by metis
    then show ?thesis using False pl unfolding doWriteConn_def Let_def b1_def [symmetric] wr_def [symmetric] by simp
  qed (use assms in \<open>simp add: doWriteConn_def\<close>)
qed

lemma roomy_control:
  assumes "roomy s"
  shows "\<exists>s' n. writeControlFrame s f = (s', Inr n) \<and> roomy s'"
proof -
  have "waitControl (s_conn s) (length (encode_frame f)) = Inr False" using assms by (auto simp: unlimited_def waitControl_def)
  then show ?thesis using doWriteConn_total [OF assms, of "encode_frame f" False] by (auto simp: writeControlFrame_def)
qed

lemma roomy_replies:
  assumes "roomy s"
  obtains s1 s2 where "reply_scheme s m = (s1, None)" "reply_version s1 m = (s2, None)" "inp s2 = inp s" "roomy s2"
    "s_die s2 = s_die s" "s_isClient s2 = s_isClient s" "s_recvSettings s2 = s_recvSettings s"
    "s_store s2 = s_store s" "s_streams s2 = s_streams s"
proof -
  have one: "\<exists>s1. reply_scheme s m = (s1, None) \<and> roomy s1 \<and> write_frame_rel s s1"
  proof -
    let ?f = "(newFrame cmdUpdatePaddingScheme 0)\<lparr>f_data := pf_RawScheme (s_padding s)\<rparr>"
    obtain s1 n where w: "writeControlFrame s ?f = (s1, Inr n)" "roomy s1" using roomy_control [OF assms] by blast
    then show ?thesis using assms writeControlFrame_frame [OF w(1)]
      by (cases "StringMap_get m ''padding-md5'' \<noteq> pf_Md5 (s_padding s)") (simp_all add: reply_scheme_def err_of_def Let_def)
  qed
  then obtain s1 where s1: "reply_scheme s m = (s1, None)" "roomy s1" "write_frame_rel s s1" by blast
  have two: "\<exists>s2. reply_version s1 m = (s2, None) \<and> roomy s2 \<and> (s2 = s1 \<or> (\<exists>p. write_frame_rel (s1\<lparr>s_peerVersion := p\<rparr>) s2))"
  proof (cases "\<exists>v. Atoi (StringMap_get m ''v'') = Some v \<and> v \<ge> 2")
    case True
    then obtain v where v: "Atoi (StringMap_get m ''v'') = Some v" "v \<ge> 2" by blast
    let ?t = "s1\<lparr>s_peerVersion := word_of_int v\<rparr>" and ?f = "(newFrame cmdServerSettings 0)\<lparr>f_data := StringMap_ToBytes [(''v'', ''2'')]\<rparr>"
    have "roomy ?t" using s1(2) by simp
    then obtain s2 n where w: "writeControlFrame ?t ?f = (s2, Inr n)" "roomy s2" using roomy_control by blast
    then have "reply_version s1 m = (s2, None)" using v by (simp add: reply_version_def err_of_def Let_def)
    then show ?thesis using w(2) writeControlFrame_frame [OF w(1)] by blast
  qed (use s1(2) in \<open>auto simp: reply_version_def split: option.split\<close>)
  then obtain s2 where s2: "reply_version s1 m = (s2, None)" "roomy s2"
      "s2 = s1 \<or> (\<exists>p. write_frame_rel (s1\<lparr>s_peerVersion := p\<rparr>) s2)" by blast
  have "inp s2 = inp s" using reply_scheme_inp [of s m] reply_version_inp [of s1 m] s1(1) s2(1) by simp
  then show thesis using that [OF s1(1) s2(1)] s1(3) s2(2,3) by (auto simp: write_frame_rel_def)
qed

lemma settings_frame_body:
  assumes "iterates (s_env cl)" "newline \<notin> set (pf_Md5 (s_padding cl))"
  shows "f_cmd (settings_frame cl) = cmdSettings" "f_data (settings_frame cl) \<noteq> []"
  using client_settings_map(1) [OF assms] StringMap_get_Nil [of "''v''"]
  by (auto simp: settings_frame_def newFrame_def)

lemma server_reads_settings:
  assumes "iterates (s_env cl)" "newline \<notin> set (pf_Md5 (s_padding cl))" "wf_frame (settings_frame cl)"
    and "c_room k = None" "\<not> c_closed k" "c_in k = encode_frame (settings_frame cl) @ rest"
  shows "\<exists>s'. recv_step (NewServerSession ev (Plain k) True p) = (s', Continue) \<and> inp s' = rest \<and> server_at s' []"
proof -
  let ?f = "settings_frame cl"
  note b = settings_frame_body [OF assms(1,2)]
  define h where "h = take 7 (c_in k)"
  note hd = header_encode_frame [of h ?f rest, OF h_def [unfolded assms(6)]]
  define s1 where "s1 = NewServerSession ev (Plain (k\<lparr>c_in := f_data ?f @ rest\<rparr>)) True p"
  define s2 where "s2 = NewServerSession ev (Plain (k\<lparr>c_in := rest\<rparr>)) True p"
  have l: "7 \<le> length (c_in k)" "drop 7 (c_in k) = f_data ?f @ rest"
    using drop_encode_frame [of ?f rest] by (simp_all add: assms(6) encode_frame_def)
  have step: "recv_step (NewServerSession ev (Plain k) True p) = dispatch s1 h"
    using assms(5) l by (simp add: recv_step_def conn_ReadFull_def Session_IsClosed_def NewServerSession_def s1_def h_def)
  have n: "unat (rawHeader_Length h) = length (f_data ?f)" using hd(3) assms(3) by (simp add: wf_frame_def unat_u16_of_nat)
  then have "rawHeader_Length h \<noteq> 0" using b(2) by auto
  then have body: "with_body s1 h j = j s2 (f_data ?f)" for j
    using n assms(5) by (simp add: with_body_def conn_ReadFull_def s1_def s2_def NewServerSession_def word_gt_0)
  define t where "t = s2\<lparr>s_recvSettings := True\<rparr>"
  have "roomy t" using assms(4,5) by (simp add: t_def s2_def unlimited_def NewServerSession_def)
  then obtain t1 t2 where t: "reply_scheme t (StringMapFromBytes (f_data ?f)) = (t1, None)"
      "reply_version t1 (StringMapFromBytes (f_data ?f)) = (t2, None)" "inp t2 = inp t" "roomy t2"
      "s_die t2 = s_die t" "s_isClient t2 = s_isClient t" "s_recvSettings t2 = s_recvSettings t"
      "s_store t2 = s_store t" "s_streams t2 = s_streams t"
    by (rule roomy_replies)
  have "dispatch s1 h = (t2, Continue)"
    using hd(1) b(1) body t(1,2) by (simp add: dispatch_def recv_Settings_def cmd_defs t_def s2_def NewServerSession_def Let_def)
  moreover have "inp t2 = rest" using t(3) by (simp add: t_def s2_def NewServerSession_def inp_def)
  moreover have "server_at t2 []"
    using t(4-9) by (auto simp: server_at_def is_open_def unlimited_def view_of_def t_def s2_def NewServerSession_def)
  ultimately show ?thesis using step by simp
qed

section \<open>A script can be carried out\<close>

text \<open>A script writes only on streams it has opened.\<close>

fun scripted :: "nat \<Rightarrow> act list \<Rightarrow> bool" where
  "scripted n [] = True"
| "scripted n (Open # as) = scripted (Suc n) as"
| "scripted n (Send r d # as) = (r < n \<and> scripted n as)"

definition able :: "session \<Rightarrow> nat \<Rightarrow> bool" where
  "able c n \<longleftrightarrow> roomy c \<and> \<not> s_die c \<and> length (s_store c) = n \<and>
     (\<forall>st \<in> set (s_store c). st_dieErr st = None \<and> \<not> st_writeExpired st)"

lemma able_write: "able c n \<Longrightarrow> write_frame_rel c c' \<Longrightarrow> roomy c' \<Longrightarrow> able c' n"
  by (simp add: able_def write_frame_rel_def)

lemma writeDataFrame_loop_total: "roomy s \<Longrightarrow> \<exists>s' n. writeDataFrame_loop s sid d w = (s', n, None) \<and> roomy s'"
proof (induction s sid d w rule: writeDataFrame_loop.induct)
  case (1 s sid d w)
  define chunk where "chunk = take (min (length d) maxFramePayload) d"
  obtain s1 where s1: "writeDataChunk s sid chunk = (s1, None)" "roomy s1"
    using doWriteConn_total [OF "1.prems", of "encode_frame \<lparr>f_cmd = cmdPSH, f_sid = sid, f_data = chunk\<rparr>" False]
    by (auto simp: writeDataChunk_def writeConn_def)
  have eq: "writeDataFrame_loop s sid d w = (if drop (length chunk) d = [] then (s1, w + length chunk, None)
      else writeDataFrame_loop s1 sid (drop (length chunk) d) (w + length chunk))"
    using s1(1) by (subst writeDataFrame_loop.simps) (simp add: chunk_def Let_def)
  show ?case
  proof (cases "drop (length chunk) d = []")
    case False
    then show ?thesis using "1.IH" [OF chunk_def s1(1) [symmetric] refl refl _ s1(2)] eq by simp
  qed (use eq s1(2) in simp)
qed

lemma OpenStream_total:
  assumes "able c n"
  shows "\<exists>c' r. OpenStream c = (c', Inr r) \<and> able c' (Suc n) \<and> \<not> s_buffering c' \<and> (\<not> s_buffering c \<longrightarrow> s_buffer c' = [])"
proof -
  let ?sid = "s_streamId c + 1"
  define s2 where "s2 = (if ?sid \<ge> 2 \<and> s_peerVersion c \<ge> 2 then c\<lparr>s_streamId := ?sid, s_synDone := True\<rparr> else c\<lparr>s_streamId := ?sid\<rparr>)"
  have a: "able s2 n" "s_buffering s2 = s_buffering c" using assms by (simp_all add: s2_def able_def)
  obtain s3 m where w: "writeControlFrame s2 (newFrame cmdSYN ?sid) = (s3, Inr m)" "roomy s3"
    using roomy_control a(1) unfolding able_def by blast
  have b: "\<not> s_buffering c \<longrightarrow> s_buffer s3 = []"
    using w(1) a(2) by (auto elim!: writeControlFrame_ok dest: doWriteConn_unbuffered)
  have a3: "able s3 n" by (rule able_write [OF a(1) writeControlFrame_frame [OF w(1)] w(2)])
  have "OpenStream c = (register ?sid (s3\<lparr>s_buffering := False\<rparr>), Inr (length (s_store s3)))"
    using w(1) a3 assms unfolding OpenStream_def Let_def s2_def by (auto simp: able_def Session_IsClosed_def)
  then show ?thesis using a3 b by (auto simp: register_def able_def newStream_def)
qed

lemma able_account:
  assumes "able s n"
  shows "able (account g r s) n"
proof -
  let ?x = "(s_store s ! r)\<lparr>st_Counter := map_option g (st_Counter (s_store s ! r))\<rparr>"
  have "st_dieErr y = None \<and> \<not> st_writeExpired y" if "y \<in> set ((s_store s)[r := ?x])" "r < length (s_store s)" for y
  proof -
    have "y = ?x \<or> y \<in> set (s_store s)" using that(1) set_update_subset_insert by fastforce
    then show ?thesis using assms that(2) by (auto simp: able_def)
  qed
  then show ?thesis using assms by (auto simp: able_def account_def Let_def update_stream_def)
qed

lemma Stream_Write_total:
  assumes "able c n" "r < n"
  shows "\<exists>c' m. Stream_Write c r d = (c', m, None) \<and> able c' n \<and> (\<not> s_buffering c \<longrightarrow> \<not> s_buffering c' \<and> s_buffer c' = [])"
proof -
  let ?sid = "st_id (s_store c ! r)"
  obtain s' m where w: "writeDataFrame c ?sid d = (s', m, None)" "roomy s'"
    using writeDataFrame_loop_total assms(1) unfolding able_def writeDataFrame_def by blast
  have st: "st_dieErr (s_store c ! r) = None" "\<not> st_writeExpired (s_store c ! r)" using assms by (auto simp: able_def)
  have "\<not> s_buffering c \<longrightarrow> \<not> s_buffering s' \<and> s_buffer s' = []"
    by (rule writeDataFrame_loop_rel [OF _ doWriteConn_unbuffered w(1) [unfolded writeDataFrame_def]]) auto
  moreover have "able s' n" by (rule able_write [OF assms(1) writeDataFrame_loop_frame [OF w(1) [unfolded writeDataFrame_def]] w(2)])
  moreover have "s_buffering (account g r s') = s_buffering s'" "s_buffer (account g r s') = s_buffer s'" for g
    by (simp_all add: account_def Let_def)
  ultimately show ?thesis using w(1) st able_account [of s' n] by (simp add: Stream_Write_def Let_def)
qed

lemma perform_total:
  assumes "able c n" "scripted n as" "\<not> s_buffering c" "as = [] \<Longrightarrow> s_buffer c = []"
  shows "\<exists>c'. perform c as = Some c' \<and> s_buffer c' = []"
  using assms
proof (induction n as arbitrary: c rule: scripted.induct)
  case (2 n as)
  obtain c1 r where "OpenStream c = (c1, Inr r)" "able c1 (Suc n)" "\<not> s_buffering c1" "s_buffer c1 = []"
    using OpenStream_total [OF "2.prems"(1)] "2.prems"(3) by blast
  then show ?case using "2.IH" [of c1] "2.prems"(2) by simp
next
  case (3 n r d as)
  have r: "r < n" "r < length (s_store c)" using "3.prems"(1,2) by (simp_all add: able_def)
  obtain c1 m where "Stream_Write c r d = (c1, m, None)" "able c1 n" "\<not> s_buffering c1" "s_buffer c1 = []"
    using Stream_Write_total [OF "3.prems"(1) r(1)] "3.prems"(3) by blast
  then show ?case using "3.IH" [of c1] "3.prems"(2) r(2) by simp
qed simp

lemma start_total:
  assumes "unlimited cc" "scripted 0 (Open # a # as)"
  shows "\<exists>c. perform (Session_Run (NewClientSession ev cc p)) (Open # a # as) = Some c \<and> s_buffer c = []"
proof -
  let ?s = "(NewClientSession ev cc p)\<lparr>s_buffering := True\<rparr>"
  let ?f = "(newFrame cmdSettings 0)\<lparr>f_data := StringMap_ToBytes (client_settings (NewClientSession ev cc p))\<rparr>"
  have a: "able ?s 0" using assms(1) by (simp add: able_def NewClientSession_def)
  obtain s1 m where w: "writeControlFrame ?s ?f = (s1, Inr m)" "roomy s1" using roomy_control a unfolding able_def by blast
  have run: "Session_Run (NewClientSession ev cc p) = s1"
    using w(1) by (simp add: Session_Run_def Let_def) (simp add: NewClientSession_def)
  have "able s1 0" by (rule able_write [OF a writeControlFrame_frame [OF w(1)] w(2)])
  then obtain c1 r where "OpenStream s1 = (c1, Inr r)" "able c1 (Suc 0)" "\<not> s_buffering c1" using OpenStream_total by blast
  then show ?thesis using perform_total [of c1 "Suc 0" "a # as"] assms(2) run by simp
qed

section \<open>From start to end\<close>

lemma start_emits:
  assumes "perform (Session_Run (NewClientSession ev cc p)) (Open # as) = Some c"
  defines "c0 \<equiv> NewClientSession ev cc p"
  shows "outgoing (Session_Run c0) = nc_sent cc @ encode_frame (settings_frame c0)" "s_store (Session_Run c0) = []"
    "s_streamId (Session_Run c0) = 0" "s_padding (Session_Run c0) = p"
proof -
  let ?s = "c0\<lparr>s_buffering := True\<rparr>"
  have f: "settings_frame c0 = (newFrame cmdSettings 0)\<lparr>f_data := StringMap_ToBytes (client_settings c0)\<rparr>"
    by (simp add: settings_frame_def)
  have run: "Session_Run c0 = fst (writeControlFrame ?s (settings_frame c0))"
    by (simp add: Session_Run_def Let_def f) (simp add: c0_def NewClientSession_def)
  have "\<not> s_die (Session_Run c0)"
    using assms(1) by (auto simp: c0_def OpenStream_def Session_IsClosed_def split: if_splits)
  then obtain n where w: "writeControlFrame ?s (settings_frame c0) = (Session_Run c0, Inr n)"
    using run writeControlFrame_err [of ?s "settings_frame c0"] by (metis prod.collapse sum.exhaust)
  then have "Session_Run c0 = ?s\<lparr>s_buffer := encode_frame (settings_frame c0)\<rparr>"
    by (auto elim!: writeControlFrame_ok simp: doWriteConn_def c0_def NewClientSession_def)
  then show "outgoing (Session_Run c0) = nc_sent cc @ encode_frame (settings_frame c0)" "s_store (Session_Run c0) = []"
    "s_streamId (Session_Run c0) = 0" "s_padding (Session_Run c0) = p"
    by (simp_all add: outgoing_def c0_def NewClientSession_def)
qed

lemma session_extends:
  assumes "perform (Session_Run (NewClientSession ev cc p)) (Open # as) = Some c" "s_buffer c = []"
    and "scheme_bounded p" "opens (Open # as) \<le> 1024"
  shows "\<exists>x. nc_sent (s_conn c) = nc_sent cc @ x"
proof -
  note st = start_emits [OF assms(1)]
  have "client_at (Session_Run (NewClientSession ev cc p)) []" using st assms(3) by (simp add: client_at_def)
  then obtain fs where "emits (Session_Run (NewClientSession ev cc p)) fs c"
    using perform_emits [OF assms(1)] assms(4) by fastforce
  then have "outgoing c = nc_sent cc @ encode_frame (settings_frame (NewClientSession ev cc p)) @ concat (map encode_frame fs)"
    using st(1) by (simp add: emits_def)
  then show ?thesis using assms(2) by (auto simp: outgoing_def)
qed

lemma session_carries:
  assumes "perform (Session_Run (NewClientSession ev cc p)) (Open # as) = Some c" "s_buffer c = []"
    and "scheme_bounded p" "iterates ev" "newline \<notin> set (pf_Md5 p)" "wf_frame (settings_frame (NewClientSession ev cc p))"
    and "opens (Open # as) \<le> 1024" "nc_sent (s_conn c) = nc_sent cc @ c_in k" "c_room k = None" "\<not> c_closed k"
  shows "view_of (Session_Run (NewServerSession sev (Plain k) True sp)) = expected (Open # as) []"
proof -
  let ?c0 = "NewClientSession ev cc p" and ?sv = "NewServerSession sev (Plain k) True sp"
  note st = start_emits [OF assms(1)]
  have "client_at (Session_Run ?c0) []" using st assms(3) by (simp add: client_at_def)
  then obtain fs where fs: "emits (Session_Run ?c0) fs c" "fold see fs [] = expected (Open # as) []"
    using perform_emits [OF assms(1)] assms(7) by fastforce
  have i: "c_in k = encode_frame (settings_frame ?c0) @ concat (map encode_frame fs)"
  proof -
    have "nc_sent cc @ c_in k = outgoing c" using assms(2,8) by (simp add: outgoing_def)
    also have "\<dots> = nc_sent cc @ encode_frame (settings_frame ?c0) @ concat (map encode_frame fs)"
      using fs(1) st(1) by (simp add: emits_def)
    finally show ?thesis by simp
  qed
  have "iterates (s_env ?c0)" "newline \<notin> set (pf_Md5 (s_padding ?c0))" using assms(4,5) by (simp_all add: NewClientSession_def)
  from server_reads_settings [OF this assms(6,9,10) i] obtain s1 where
    s1: "recv_step ?sv = (s1, Continue)" "inp s1 = concat (map encode_frame fs)" "server_at s1 []" by blast
  have len: "length (expected bs v) = length v + opens bs" for bs v by (induction bs v rule: expected.induct) simp_all
  have "view_of (fst (recvLoop s1)) = fold see fs []"
    by (rule recvLoop_view [OF s1(3,2)]) (use fs assms(7) len [of "Open # as" "[]"] in \<open>simp_all add: emits_def\<close>)
  moreover have "Session_Run ?sv = fst (recvLoop s1)"
    using s1(1) by (simp add: Session_Run_def recvLoop.simps [of ?sv]) (simp add: NewServerSession_def)
  ultimately show ?thesis using fs(2) by simp
qed

end
