(* ===== verification/Config.thy ===== *)
theory Config
  imports Go_Strings Prelude
begin

text \<open>
  The server configuration (\<^verbatim>\<open>config/config.go\<close>): the parsed file, the accessors with their
  defaults, the validation that a loaded file passes, and bandwidth texts.

  The YAML decoder, reading the file and \<^verbatim>\<open>time.ParseDuration\<close> are arguments; a duration is a
  number of nanoseconds.
\<close>

section \<open>Data\<close>

record OutboundSOCKS5Config =
  so_Addr :: string
  so_Username :: string
  so_Password :: string

text \<open>The options of a direct outbound are never looked at beyond their number: only the keys are
  kept.\<close>

record OutboundEntry =
  oe_Name :: string
  oe_Type :: string
  oe_Direct :: "string list"
  oe_SOCKS5 :: OutboundSOCKS5Config

record OutboundConfig =
  oc_AllowPrivate :: bool

record ResolverAddrConfig =
  ra_Addr :: string
  ra_Timeout :: int

record ResolverTLSConfig =
  rt_Addr :: string
  rt_Timeout :: int
  rt_SNI :: string
  rt_Insecure :: bool

record ResolverConfig =
  rc_Type :: string
  rc_TCP :: ResolverAddrConfig
  rc_UDP :: ResolverAddrConfig
  rc_TLS :: ResolverTLSConfig
  rc_HTTPS :: ResolverTLSConfig

record ACLConfig =
  ac_File :: string
  ac_Inline :: "string list"
  ac_GeoIP :: string
  ac_GeoSite :: string
  ac_GeoUpdateInterval :: string

record BandwidthConfig =
  bw_Up :: string
  bw_Down :: string

record TLSConfig =
  tc_Cert :: string
  tc_Key :: string

record HTTPAuthConfig =
  ha_URL :: string
  ha_Insecure :: bool
  ha_CacheTTL :: string
  ha_CacheSize :: int
  ha_NegativeCacheTTL :: string
  ha_MaxConcurrent :: int

record AuthConfig =
  au_Type :: string
  au_HTTP :: HTTPAuthConfig

record TrafficStatsConfig =
  ts_Listen :: string
  ts_Secret :: string

record Config =
  cf_Listen :: string
  cf_Password :: string
  cf_PaddingScheme :: string
  cf_TLS :: TLSConfig
  cf_Auth :: AuthConfig
  cf_ACL :: ACLConfig
  cf_Resolver :: ResolverConfig
  cf_TrafficStats :: TrafficStatsConfig
  cf_Bandwidth :: BandwidthConfig
  cf_Outbound :: OutboundConfig
  cf_Outbounds :: "OutboundEntry list"

definition Default :: Config where
  "Default =
     \<lparr>cf_Listen = ''0.0.0.0:8443'', cf_Password = '''', cf_PaddingScheme = '''',
      cf_TLS = \<lparr>tc_Cert = '''', tc_Key = ''''\<rparr>,
      cf_Auth = \<lparr>au_Type = '''', au_HTTP = \<lparr>ha_URL = '''', ha_Insecure = False, ha_CacheTTL = '''', ha_CacheSize = 0,
        ha_NegativeCacheTTL = '''', ha_MaxConcurrent = 0\<rparr>\<rparr>,
      cf_ACL = \<lparr>ac_File = '''', ac_Inline = [], ac_GeoIP = '''', ac_GeoSite = '''', ac_GeoUpdateInterval = ''''\<rparr>,
      cf_Resolver = \<lparr>rc_Type = '''', rc_TCP = \<lparr>ra_Addr = '''', ra_Timeout = 0\<rparr>, rc_UDP = \<lparr>ra_Addr = '''', ra_Timeout = 0\<rparr>,
        rc_TLS = \<lparr>rt_Addr = '''', rt_Timeout = 0, rt_SNI = '''', rt_Insecure = False\<rparr>,
        rc_HTTPS = \<lparr>rt_Addr = '''', rt_Timeout = 0, rt_SNI = '''', rt_Insecure = False\<rparr>\<rparr>,
      cf_TrafficStats = \<lparr>ts_Listen = '''', ts_Secret = ''''\<rparr>, cf_Bandwidth = \<lparr>bw_Up = '''', bw_Down = ''''\<rparr>,
      cf_Outbound = \<lparr>oc_AllowPrivate = False\<rparr>, cf_Outbounds = []\<rparr>"

text \<open>Every error the file returns, with what its message names.\<close>

datatype config_error =
    ReadConfig string
  | ParseConfig string
  | BadDuration string string
  | NegativeDuration string string
  | BadBandwidth string
  | BadBandwidthUnit string
  | StatsWithoutSecret
  | ACLFileAndInline
  | AuthWithoutURL
  | NegativeMaxConcurrent int
  | BadAuthType string
  | BadResolverType string
  | EmptyResolverAddr string
  | NegativeResolverTimeout string int
  | EmptyOutboundName nat
  | OutboundNameBlanks nat string
  | DuplicateOutbound nat string
  | DirectOptions nat
  | BadOutboundType nat string
  | EmptySOCKS5Addr nat
  | BadSOCKS5Addr nat string
  | SOCKS5EmptyHost nat string
  | SOCKS5Port nat string
  | SOCKS5Credentials nat
  | SOCKS5CredentialLength nat
  | TLSHalfSet

section \<open>Durations\<close>

definition defaultAuthCacheTTL :: int where
  "defaultAuthCacheTTL = 10 * 1000000000"

definition defaultAuthNegativeCacheTTL :: int where
  "defaultAuthNegativeCacheTTL = 60 * 1000000000"

definition defaultAuthMaxConcurrent :: int where
  "defaultAuthMaxConcurrent = 64"

definition non_negative :: "(string \<Rightarrow> int option) \<Rightarrow> string \<Rightarrow> string \<Rightarrow> config_error + int" where
  "non_negative pd field s =
     (case pd s of
        None \<Rightarrow> Inl (BadDuration field s)
      | Some d \<Rightarrow> if d < 0 then Inl (NegativeDuration field s) else Inr d)"

definition AuthCacheTTL :: "(string \<Rightarrow> int option) \<Rightarrow> Config \<Rightarrow> config_error + int" where
  "AuthCacheTTL pd c =
     (let s = ha_CacheTTL (au_HTTP (cf_Auth c))
      in if s = '''' then Inr defaultAuthCacheTTL else non_negative pd ''auth.http.cacheTTL'' s)"

definition AuthNegativeCacheTTL :: "(string \<Rightarrow> int option) \<Rightarrow> Config \<Rightarrow> config_error + int" where
  "AuthNegativeCacheTTL pd c =
     (case AuthCacheTTL pd c of
        Inl e \<Rightarrow> Inl e
      | Inr pos \<Rightarrow>
          (let s = ha_NegativeCacheTTL (au_HTTP (cf_Auth c))
           in if s = '''' then (if pos \<le> 0 then Inr 0 else Inr defaultAuthNegativeCacheTTL)
              else non_negative pd ''auth.http.negativeCacheTTL'' s))"

definition UseHTTPAuth :: "Config \<Rightarrow> bool" where
  "UseHTTPAuth c \<longleftrightarrow> au_Type (cf_Auth c) = ''http'' \<and> ha_URL (au_HTTP (cf_Auth c)) \<noteq> ''''"

definition AuthMaxConcurrent :: "Config \<Rightarrow> int" where
  "AuthMaxConcurrent c =
     (if ha_MaxConcurrent (au_HTTP (cf_Auth c)) \<le> 0 then defaultAuthMaxConcurrent
      else ha_MaxConcurrent (au_HTTP (cf_Auth c)))"

definition StatsEnabled :: "Config \<Rightarrow> bool" where
  "StatsEnabled c \<longleftrightarrow> ts_Listen (cf_TrafficStats c) \<noteq> ''''"

definition ValidateStats :: "Config \<Rightarrow> config_error option" where
  "ValidateStats c =
     (if StatsEnabled c \<and> ts_Secret (cf_TrafficStats c) = '''' then Some StatsWithoutSecret else None)"

definition ACLEnabled :: "Config \<Rightarrow> bool" where
  "ACLEnabled c \<longleftrightarrow> ac_File (cf_ACL c) \<noteq> '''' \<or> length (ac_Inline (cf_ACL c)) > 0"

definition ValidateACL :: "Config \<Rightarrow> config_error option" where
  "ValidateACL c =
     (if ac_File (cf_ACL c) \<noteq> '''' \<and> length (ac_Inline (cf_ACL c)) > 0 then Some ACLFileAndInline else None)"

definition GeoUpdateInterval :: "(string \<Rightarrow> int option) \<Rightarrow> Config \<Rightarrow> config_error + int" where
  "GeoUpdateInterval pd c =
     (let s = ac_GeoUpdateInterval (cf_ACL c)
      in if s = '''' then Inr 0 else non_negative pd ''acl.geoUpdateInterval'' s)"

definition TLSEnabled :: "Config \<Rightarrow> bool" where
  "TLSEnabled c \<longleftrightarrow> tc_Cert (cf_TLS c) \<noteq> '''' \<and> tc_Key (cf_TLS c) \<noteq> ''''"

definition ValidateTLS :: "Config \<Rightarrow> config_error option" where
  "ValidateTLS c =
     (if (tc_Cert (cf_TLS c) \<noteq> '''') \<noteq> (tc_Key (cf_TLS c) \<noteq> '''') then Some TLSHalfSet else None)"

definition ValidateAuth :: "Config \<Rightarrow> config_error option" where
  "ValidateAuth c =
     (let t = au_Type (cf_Auth c); h = au_HTTP (cf_Auth c)
      in if t = '''' \<or> t = ''password'' then None
         else if t = ''http'' then
           (if ha_URL h = '''' then Some AuthWithoutURL
            else if ha_MaxConcurrent h < 0 then Some (NegativeMaxConcurrent (ha_MaxConcurrent h)) else None)
         else Some (BadAuthType t))"

section \<open>The resolver block\<close>

definition ResolverConfig_Kind :: "ResolverConfig \<Rightarrow> string" where
  "ResolverConfig_Kind r = ToLower (TrimSpace (rc_Type r))"

definition ResolverConfig_Enabled :: "ResolverConfig \<Rightarrow> bool" where
  "ResolverConfig_Enabled r \<longleftrightarrow> \<not> (ResolverConfig_Kind r = '''' \<or> ResolverConfig_Kind r = ''system'')"

definition ResolverConfig_Addr :: "ResolverConfig \<Rightarrow> string" where
  "ResolverConfig_Addr r =
     (let k = ResolverConfig_Kind r
      in if k = ''udp'' then ra_Addr (rc_UDP r)
         else if k = ''tcp'' then ra_Addr (rc_TCP r)
         else if k = ''tls'' \<or> k = ''tcp-tls'' then rt_Addr (rc_TLS r)
         else if k = ''https'' \<or> k = ''http'' then rt_Addr (rc_HTTPS r)
         else '''')"

definition ResolverConfig_Validate :: "ResolverConfig \<Rightarrow> config_error option" where
  "ResolverConfig_Validate r =
     (let k = ResolverConfig_Kind r;
          rest = (\<lambda>field timeout.
            if ResolverConfig_Addr r = '''' then Some (EmptyResolverAddr field)
            else if timeout < 0 then Some (NegativeResolverTimeout field timeout) else None)
      in if k = '''' \<or> k = ''system'' then None
         else if k = ''udp'' then rest ''resolver.udp'' (ra_Timeout (rc_UDP r))
         else if k = ''tcp'' then rest ''resolver.tcp'' (ra_Timeout (rc_TCP r))
         else if k = ''tls'' \<or> k = ''tcp-tls'' then rest ''resolver.tls'' (rt_Timeout (rc_TLS r))
         else if k = ''https'' \<or> k = ''http'' then rest ''resolver.https'' (rt_Timeout (rc_HTTPS r))
         else Some (BadResolverType (rc_Type r)))"

section \<open>The outbounds list\<close>

definition OutboundEntry_Kind :: "OutboundEntry \<Rightarrow> string" where
  "OutboundEntry_Kind e = ToLower (TrimSpace (oe_Type e))"

definition validateOutboundName :: "nat \<Rightarrow> string \<Rightarrow> config_error option" where
  "validateOutboundName index name =
     (if TrimSpace name = '''' then Some (EmptyOutboundName index)
      else if TrimSpace name \<noteq> name then Some (OutboundNameBlanks index name) else None)"

definition OutboundSOCKS5Config_validate :: "nat \<Rightarrow> OutboundSOCKS5Config \<Rightarrow> config_error option" where
  "OutboundSOCKS5Config_validate index s =
     (if so_Addr s = '''' then Some (EmptySOCKS5Addr index)
      else case SplitHostPort (so_Addr s) of
        None \<Rightarrow> Some (BadSOCKS5Addr index (so_Addr s))
      | Some (host, port) \<Rightarrow>
          if host = '''' then Some (SOCKS5EmptyHost index (so_Addr s))
          else if ParseUint 16 port = None \<or> ParseUint 16 port = Some 0 then Some (SOCKS5Port index (so_Addr s))
          else if (so_Username s = '''') \<noteq> (so_Password s = '''') then Some (SOCKS5Credentials index)
          else if length (so_Username s) > 255 \<or> length (so_Password s) > 255 then Some (SOCKS5CredentialLength index)
          else None)"

fun validate_outbounds :: "nat \<Rightarrow> string list \<Rightarrow> OutboundEntry list \<Rightarrow> config_error option" where
  "validate_outbounds i seen [] = None"
| "validate_outbounds i seen (e # es) =
     (case validateOutboundName i (oe_Name e) of
        Some err \<Rightarrow> Some err
      | None \<Rightarrow>
          (let key = ToLower (oe_Name e)
           in if key \<in> set seen then Some (DuplicateOutbound i (oe_Name e))
              else if OutboundEntry_Kind e = ''direct'' then
                (if length (oe_Direct e) > 0 then Some (DirectOptions i) else validate_outbounds (Suc i) (key # seen) es)
              else if OutboundEntry_Kind e = ''socks5'' then
                (case OutboundSOCKS5Config_validate i (oe_SOCKS5 e) of
                   Some err \<Rightarrow> Some err
                 | None \<Rightarrow> validate_outbounds (Suc i) (key # seen) es)
              else Some (BadOutboundType i (oe_Type e))))"

definition ValidateOutbounds :: "Config \<Rightarrow> config_error option" where
  "ValidateOutbounds c = validate_outbounds 0 [] (cf_Outbounds c)"

section \<open>Bandwidth\<close>

text \<open>The match of \<^verbatim>\<open>^(\d+)\s*([a-zA-Z]*)$\<close>: the digits and the unit.\<close>

definition is_letter :: "char \<Rightarrow> bool" where
  "is_letter c \<longleftrightarrow> (let n = of_char c :: nat in 65 \<le> n \<and> n \<le> 90 \<or> 97 \<le> n \<and> n \<le> 122)"

definition bandwidthRegex :: "string \<Rightarrow> (string \<times> string) option" where
  "bandwidthRegex s =
     (let ds = takeWhile is_digit s; u = dropWhile is_re_space (dropWhile is_digit s)
      in if ds \<noteq> [] \<and> list_all is_letter u then Some (ds, u) else None)"

text \<open>The factor of a unit; the products wrap modulo \<open>2 ^ 64\<close> as in the source.\<close>

definition bandwidth_factor :: "string \<Rightarrow> u64 option" where
  "bandwidth_factor u =
     (if u \<in> {'''', ''bps'', ''b''} then Some 1
      else if u \<in> {''kbps'', ''kb'', ''k''} then Some 1000
      else if u \<in> {''mbps'', ''mb'', ''m''} then Some (1000 * 1000)
      else if u \<in> {''gbps'', ''gb'', ''g''} then Some (1000 * 1000 * 1000)
      else if u \<in> {''tbps'', ''tb'', ''t''} then Some (1000 * 1000 * 1000 * 1000)
      else None)"

definition parseBandwidth :: "string \<Rightarrow> config_error + u64" where
  "parseBandwidth s0 =
     (let s = ToLower (TrimSpace s0)
      in if s = '''' then Inr 0
         else case bandwidthRegex s of
           None \<Rightarrow> Inl (BadBandwidth s)
         | Some (ds, u) \<Rightarrow>
             (case ParseUint 64 ds of
                None \<Rightarrow> Inl (BadBandwidth s)
              | Some v \<Rightarrow>
                  (case bandwidth_factor u of
                     None \<Rightarrow> Inl (BadBandwidthUnit u)
                   | Some f \<Rightarrow> Inr (word_of_nat v * f))))"

definition BandwidthLimits :: "Config \<Rightarrow> config_error + u64 \<times> u64" where
  "BandwidthLimits c =
     (case parseBandwidth (bw_Up (cf_Bandwidth c)) of
        Inl e \<Rightarrow> Inl e
      | Inr up \<Rightarrow>
          (case parseBandwidth (bw_Down (cf_Bandwidth c)) of
             Inl e \<Rightarrow> Inl e
           | Inr down \<Rightarrow> Inr (up, down)))"

section \<open>Loading\<close>

definition error_of :: "'e + 'a \<Rightarrow> 'e option" where
  "error_of r = (case r of Inl e \<Rightarrow> Some e | Inr _ \<Rightarrow> None)"

text \<open>The checks of a loaded file, in order.\<close>

definition load_checks :: "(string \<Rightarrow> int option) \<Rightarrow> Config \<Rightarrow> config_error option list" where
  "load_checks pd c =
     [error_of (AuthCacheTTL pd c), error_of (AuthNegativeCacheTTL pd c), error_of (BandwidthLimits c),
      error_of (GeoUpdateInterval pd c), ValidateACL c, ValidateTLS c, ValidateAuth c,
      ResolverConfig_Validate (cf_Resolver c), ValidateOutbounds c, ValidateStats c]"

definition LoadFile ::
  "(string \<Rightarrow> int option) \<Rightarrow> (string \<Rightarrow> string + string) \<Rightarrow> (string \<Rightarrow> Config \<Rightarrow> string + Config) \<Rightarrow> string
   \<Rightarrow> config_error + Config" where
  "LoadFile pd ReadFile Unmarshal path =
     (if path = '''' then Inr Default
      else case ReadFile path of
        Inl e \<Rightarrow> Inl (ReadConfig e)
      | Inr data \<Rightarrow>
          (case Unmarshal data Default of
             Inl e \<Rightarrow> Inl (ParseConfig e)
           | Inr c \<Rightarrow>
               (case find (\<lambda>e. e \<noteq> None) (load_checks pd c) of
                  Some (Some e) \<Rightarrow> Inl e
                | _ \<Rightarrow> Inr c)))"

section \<open>What loading accepts\<close>

text \<open>A usable configuration, said without the order of the checks.\<close>

definition duration_ok :: "(string \<Rightarrow> int option) \<Rightarrow> string \<Rightarrow> bool" where
  "duration_ok pd s \<longleftrightarrow> s = '''' \<or> (\<exists>d. pd s = Some d \<and> d \<ge> 0)"

definition socks5_ok :: "OutboundSOCKS5Config \<Rightarrow> bool" where
  "socks5_ok s \<longleftrightarrow>
     (\<exists>host port n. SplitHostPort (so_Addr s) = Some (host, port) \<and> host \<noteq> '''' \<and> ParseUint 16 port = Some n \<and> n \<noteq> 0) \<and>
     (so_Username s = '''' \<longleftrightarrow> so_Password s = '''') \<and> length (so_Username s) \<le> 255 \<and> length (so_Password s) \<le> 255"

definition outbound_ok :: "OutboundEntry \<Rightarrow> bool" where
  "outbound_ok e \<longleftrightarrow> oe_Name e \<noteq> '''' \<and> TrimSpace (oe_Name e) = oe_Name e \<and>
     (OutboundEntry_Kind e = ''direct'' \<and> oe_Direct e = [] \<or> OutboundEntry_Kind e = ''socks5'' \<and> socks5_ok (oe_SOCKS5 e))"

definition resolver_ok :: "ResolverConfig \<Rightarrow> bool" where
  "resolver_ok r \<longleftrightarrow>
     (let k = ResolverConfig_Kind r
      in k \<in> {'''', ''system''} \<or>
         k = ''udp'' \<and> ra_Addr (rc_UDP r) \<noteq> '''' \<and> ra_Timeout (rc_UDP r) \<ge> 0 \<or>
         k = ''tcp'' \<and> ra_Addr (rc_TCP r) \<noteq> '''' \<and> ra_Timeout (rc_TCP r) \<ge> 0 \<or>
         k \<in> {''tls'', ''tcp-tls''} \<and> rt_Addr (rc_TLS r) \<noteq> '''' \<and> rt_Timeout (rc_TLS r) \<ge> 0 \<or>
         k \<in> {''https'', ''http''} \<and> rt_Addr (rc_HTTPS r) \<noteq> '''' \<and> rt_Timeout (rc_HTTPS r) \<ge> 0)"

definition auth_ok :: "AuthConfig \<Rightarrow> bool" where
  "auth_ok a \<longleftrightarrow> au_Type a \<in> {'''', ''password''} \<or>
     au_Type a = ''http'' \<and> ha_URL (au_HTTP a) \<noteq> '''' \<and> ha_MaxConcurrent (au_HTTP a) \<ge> 0"

definition bandwidth_ok :: "string \<Rightarrow> bool" where
  "bandwidth_ok s \<longleftrightarrow> (\<exists>v. parseBandwidth s = Inr v)"

definition wf_config :: "(string \<Rightarrow> int option) \<Rightarrow> Config \<Rightarrow> bool" where
  "wf_config pd c \<longleftrightarrow>
     duration_ok pd (ha_CacheTTL (au_HTTP (cf_Auth c))) \<and>
     duration_ok pd (ha_NegativeCacheTTL (au_HTTP (cf_Auth c))) \<and>
     duration_ok pd (ac_GeoUpdateInterval (cf_ACL c)) \<and>
     bandwidth_ok (bw_Up (cf_Bandwidth c)) \<and> bandwidth_ok (bw_Down (cf_Bandwidth c)) \<and>
     (ac_File (cf_ACL c) = '''' \<or> ac_Inline (cf_ACL c) = []) \<and>
     (tc_Cert (cf_TLS c) = '''' \<longleftrightarrow> tc_Key (cf_TLS c) = '''') \<and>
     auth_ok (cf_Auth c) \<and> resolver_ok (cf_Resolver c) \<and>
     distinct (map (\<lambda>e. ToLower (oe_Name e)) (cf_Outbounds c)) \<and> list_all outbound_ok (cf_Outbounds c) \<and>
     (ts_Listen (cf_TrafficStats c) = '''' \<or> ts_Secret (cf_TrafficStats c) \<noteq> '''')"

named_theorems validation

lemma non_negative_ok: "error_of (if s = '''' then Inr d else non_negative pd f s) = None \<longleftrightarrow> duration_ok pd s"
  by (auto simp: error_of_def non_negative_def duration_ok_def not_less split: option.splits)

lemma AuthCacheTTL_ok [validation]:
  "error_of (AuthCacheTTL pd c) = None \<longleftrightarrow> duration_ok pd (ha_CacheTTL (au_HTTP (cf_Auth c)))"
  unfolding AuthCacheTTL_def Let_def by (rule non_negative_ok)

lemma AuthNegativeCacheTTL_ok [validation]:
  "error_of (AuthNegativeCacheTTL pd c) = None \<longleftrightarrow>
     duration_ok pd (ha_CacheTTL (au_HTTP (cf_Auth c))) \<and> duration_ok pd (ha_NegativeCacheTTL (au_HTTP (cf_Auth c)))"
proof (cases "AuthCacheTTL pd c")
  case (Inl e)
  then show ?thesis using AuthCacheTTL_ok [of pd c] by (simp add: AuthNegativeCacheTTL_def error_of_def)
next
  case (Inr pos)
  then have "duration_ok pd (ha_CacheTTL (au_HTTP (cf_Auth c)))" using AuthCacheTTL_ok [of pd c] by (simp add: error_of_def)
  then show ?thesis unfolding AuthNegativeCacheTTL_def Inr sum.case Let_def if_distrib [of Inr, symmetric]
    by (simp only: non_negative_ok simp_thms)
qed

lemma GeoUpdateInterval_ok [validation]:
  "error_of (GeoUpdateInterval pd c) = None \<longleftrightarrow> duration_ok pd (ac_GeoUpdateInterval (cf_ACL c))"
  unfolding GeoUpdateInterval_def Let_def by (rule non_negative_ok)

lemma BandwidthLimits_ok [validation]:
  "error_of (BandwidthLimits c) = None \<longleftrightarrow> bandwidth_ok (bw_Up (cf_Bandwidth c)) \<and> bandwidth_ok (bw_Down (cf_Bandwidth c))"
  by (auto simp: error_of_def BandwidthLimits_def bandwidth_ok_def split: sum.splits)

lemma ValidateAuth_ok [validation]: "ValidateAuth c = None \<longleftrightarrow> auth_ok (cf_Auth c)"
  by (auto simp: ValidateAuth_def auth_ok_def Let_def not_less)

lemma ResolverConfig_Validate_ok [validation]: "ResolverConfig_Validate r = None \<longleftrightarrow> resolver_ok r"
  unfolding ResolverConfig_Validate_def resolver_ok_def ResolverConfig_Addr_def Let_def by (simp add: not_less)

lemma SOCKS5_validate_ok: "OutboundSOCKS5Config_validate i s = None \<longleftrightarrow> socks5_ok s"
proof -
  have empty: "SplitHostPort '''' = None" by (simp add: SplitHostPort_def)
  show ?thesis
  proof (cases "SplitHostPort (so_Addr s)")
    case None
    then show ?thesis by (simp add: OutboundSOCKS5Config_validate_def socks5_ok_def)
  next
    case (Some hp)
    obtain host port where hp: "hp = (host, port)" by (cases hp)
    have "so_Addr s \<noteq> ''''" using Some empty by auto
    then show ?thesis using Some hp
      by (cases "ParseUint 16 port") (auto simp: OutboundSOCKS5Config_validate_def socks5_ok_def not_less)
  qed
qed

lemma name_ok: "validateOutboundName i n = None \<longleftrightarrow> n \<noteq> '''' \<and> TrimSpace n = n"
  by (auto simp: validateOutboundName_def)

lemma validate_outbounds_ok:
  "validate_outbounds i seen es = None \<longleftrightarrow>
     list_all outbound_ok es \<and> distinct (map (\<lambda>e. ToLower (oe_Name e)) es) \<and>
     set seen \<inter> set (map (\<lambda>e. ToLower (oe_Name e)) es) = {}"
proof (induction es arbitrary: i seen)
  case (Cons e es)
  show ?case
  proof (cases "outbound_ok e \<and> ToLower (oe_Name e) \<notin> set seen")
    case True
    then have "validateOutboundName i (oe_Name e) = None" by (auto simp: outbound_ok_def name_ok)
    then have "validate_outbounds i seen (e # es) = validate_outbounds (Suc i) (ToLower (oe_Name e) # seen) es"
      using True SOCKS5_validate_ok [of i "oe_SOCKS5 e"] by (auto simp: outbound_ok_def Let_def)
    with True show ?thesis by (simp only: Cons.IH) auto
  next
    case False
    have "validate_outbounds i seen (e # es) \<noteq> None"
      using False name_ok [of i "oe_Name e"] SOCKS5_validate_ok [of i "oe_SOCKS5 e"]
      by (auto simp: outbound_ok_def Let_def split: option.splits)
    with False show ?thesis by auto
  qed
qed simp

lemma ValidateOutbounds_ok [validation]:
  "ValidateOutbounds c = None \<longleftrightarrow>
     distinct (map (\<lambda>e. ToLower (oe_Name e)) (cf_Outbounds c)) \<and> list_all outbound_ok (cf_Outbounds c)"
  unfolding ValidateOutbounds_def validate_outbounds_ok by auto

lemma Validate_simple_ok [validation]:
  "ValidateACL c = None \<longleftrightarrow> ac_File (cf_ACL c) = '''' \<or> ac_Inline (cf_ACL c) = []"
  "ValidateTLS c = None \<longleftrightarrow> (tc_Cert (cf_TLS c) = '''' \<longleftrightarrow> tc_Key (cf_TLS c) = '''')"
  "ValidateStats c = None \<longleftrightarrow> ts_Listen (cf_TrafficStats c) = '''' \<or> ts_Secret (cf_TrafficStats c) \<noteq> ''''"
  by (auto simp: ValidateACL_def ValidateTLS_def ValidateStats_def StatsEnabled_def)

lemma load_checks_ok: "list_all (\<lambda>e. e = None) (load_checks pd c) \<longleftrightarrow> wf_config pd c"
  unfolding load_checks_def wf_config_def by (simp add: validation) blast

lemma find_error: "find (\<lambda>e. e \<noteq> None) es = None \<longleftrightarrow> list_all (\<lambda>e. e = None) es"
  by (auto simp: find_None_iff list_all_iff)

lemma find_Some_P: "find P xs = Some x \<Longrightarrow> P x"
  by (metis find_Some_iff)

lemma LoadFile_char:
  "LoadFile pd ReadFile Unmarshal path = Inr c \<longleftrightarrow>
     path = '''' \<and> c = Default \<or>
     path \<noteq> '''' \<and> (\<exists>data. ReadFile path = Inr data \<and> Unmarshal data Default = Inr c \<and> wf_config pd c)"
proof -
  have "(case find (\<lambda>e. e \<noteq> None) (load_checks pd d) of Some (Some e) \<Rightarrow> Inl e | _ \<Rightarrow> Inr d) = Inr c \<longleftrightarrow>
      d = c \<and> wf_config pd d" for d
  proof (cases "find (\<lambda>e. e \<noteq> None) (load_checks pd d)")
    case None
    then show ?thesis using find_error load_checks_ok by auto
  next
    case (Some e)
    then obtain x where "e = Some x" using find_Some_P by fastforce
    then show ?thesis using Some find_error [of "load_checks pd d"] load_checks_ok [of pd d] by auto
  qed
  then show ?thesis by (auto simp: LoadFile_def split: sum.splits)
qed

lemma loaded_outbounds:
  assumes "LoadFile pd ReadFile Unmarshal path = Inr c"
  shows "list_all outbound_ok (cf_Outbounds c)" "distinct (map (\<lambda>e. ToLower (oe_Name e)) (cf_Outbounds c))"
  using assms unfolding LoadFile_char by (auto simp: wf_config_def Default_def)

text \<open>C34. What loading accepts. A configuration comes out of a file exactly when the file is read and
  decoded and is usable: durations and timeouts that parse and are not negative, bandwidths that
  parse, not both kinds of rules, certificate and key together, a known way to authenticate with
  its address, a known resolver with its address, outbounds with distinct names up to case and
  usable settings, and a secret whenever the statistics interface listens.\<close>

theorem LoadFile_accepts:
  "LoadFile pd ReadFile Unmarshal path = Inr c \<longleftrightarrow>
     path = '''' \<and> c = Default \<or>
     path \<noteq> '''' \<and> (\<exists>data. ReadFile path = Inr data \<and> Unmarshal data Default = Inr c \<and> wf_config pd c)"
  by (rule LoadFile_char)

section \<open>Bandwidth texts\<close>

lemma factor_letters:
  assumes "bandwidth_factor u = Some f"
  shows "list_all is_letter u"
proof -
  let ?units = "['''', ''bps'', ''b'', ''kbps'', ''kb'', ''k'', ''mbps'', ''mb'', ''m'', ''gbps'', ''gb'', ''g'', ''tbps'', ''tb'', ''t'']"
  have "list_all (list_all is_letter) ?units" by code_simp
  moreover have "u \<in> set ?units"
  proof (rule ccontr)
    assume "u \<notin> set ?units"
    then have "bandwidth_factor u = None" by (simp add: bandwidth_factor_def)
    with assms show False by simp
  qed
  ultimately show ?thesis unfolding list_all_iff by blast
qed

lemma digits_then:
  assumes "list_all is_digit ds" and "r = [] \<or> \<not> is_digit (hd r)"
  shows "takeWhile is_digit (ds @ r) = ds \<and> dropWhile is_digit (ds @ r) = r"
  using assms by (induction ds) (simp_all, cases r, simp_all)

lemma bandwidthRegex_text:
  assumes "list_all is_re_space sp" and "list_all is_letter u"
  shows "bandwidthRegex (FormatUint v @ sp @ u) = Some (FormatUint v, u)"
proof -
  have d: "list_all is_digit (FormatUint v)" by (simp add: list_all_iff set_FormatUint)
  have no: "is_re_space c \<Longrightarrow> \<not> is_digit c" "is_letter c \<Longrightarrow> \<not> is_digit c" "is_letter c \<Longrightarrow> \<not> is_re_space c" for c
    by (auto simp: is_re_space_def is_digit_def is_letter_def Let_def)
  have "sp @ u = [] \<or> \<not> is_digit (hd (sp @ u))" using assms no by (cases sp; cases u) auto
  note t = digits_then [OF d this]
  have "dropWhile is_re_space u = u" using assms(2) no(3) by (cases u) auto
  then have "dropWhile is_re_space (sp @ u) = u" using assms(1) by (induction sp) auto
  then show ?thesis using t assms(2) by (simp add: bandwidthRegex_def Let_def)
qed

text \<open>Bandwidth texts. A number and a unit, in any case and with blanks around and between them,
  stands for their product in bits per second, as long as the product fits in 64 bits.\<close>

theorem parseBandwidth_value:
  assumes "ToLower (TrimSpace s) = FormatUint v @ sp @ u" and "list_all is_re_space sp"
    and "bandwidth_factor u = Some f" and "v * unat f < 2 ^ 64"
  shows "\<exists>r. parseBandwidth s = Inr r \<and> unat r = v * unat f"
proof -
  have f0: "unat f \<noteq> 0" using assms(3) by (auto simp: bandwidth_factor_def split: if_splits)
  then have "v \<le> v * unat f" by simp
  then have v: "v < 2 ^ 64" using assms(4) by linarith
  have "parseBandwidth s = Inr (word_of_nat v * f)"
    using bandwidthRegex_text [OF assms(2) factor_letters [OF assms(3)], of v] ParseUint_FormatUint [OF v]
    by (simp add: parseBandwidth_def Let_def assms(1,3))
  moreover have "unat (word_of_nat v * f :: u64) = v * unat f"
    using assms(4) v by (simp add: unat_word_ariths unat_of_nat take_bit_nat_eq_self)
  ultimately show ?thesis by blast
qed

theorem parseBandwidth_value_witness: "\<exists>r. parseBandwidth '' 100 Mbps'' = Inr r \<and> unat r = 100000000"
proof -
  have "ToLower (TrimSpace '' 100 Mbps'') = FormatUint 100 @ '' '' @ ''mbps''" by code_simp
  moreover have "list_all is_re_space '' ''" by code_simp
  moreover have "bandwidth_factor ''mbps'' = Some 1000000" by (simp add: bandwidth_factor_def)
  ultimately show ?thesis using parseBandwidth_value [of "'' 100 Mbps''" 100 "'' ''" "''mbps''" 1000000] by simp
qed

text \<open>The product is not checked: a rate far beyond any link wraps to no limit at all.\<close>

lemma parseBandwidth_wraps: "parseBandwidth ''288230376151711744mbps'' = Inr 0"
proof -
  have t: "ToLower (TrimSpace ''288230376151711744mbps'') = ''288230376151711744mbps''" by code_simp
  have "bandwidthRegex ''288230376151711744mbps'' = Some (''288230376151711744'', ''mbps'')" by code_simp
  moreover have "ParseUint 64 ''288230376151711744'' = Some 288230376151711744" by (simp add: parse_eval)
  ultimately show ?thesis unfolding parseBandwidth_def Let_def t by (simp add: bandwidth_factor_def)
qed

end
