(* ===== verification/Auth.thy ===== *)
theory Auth
  imports Config
begin

text \<open>
  Authentication of clients (\<^verbatim>\<open>auth/*.go\<close>) and the chain of authenticators the server builds
  (\<^verbatim>\<open>cmd/server/main.go\<close>).

  An authenticator maps the remote address, the credential as hex text and a rate hint to an id, a
  verdict and an error, and passes on the state of the outside world, which is of any type: the
  authentication backend and the clock are in there. SHA-256, the HTTP exchange with the backend
  and the expiring LRU cache are parameters. The locale \<open>authenticator\<close> is the contract the server
  relies on, since it admits a client on the verdict alone: an error comes with a refusal.
\<close>

section \<open>Authenticators\<close>

datatype auth_error = BuildAuthRequest | CallAuthBackend | AuthBackendStatus int | DecodeAuthResponse | ErrBackendBusy

type_synonym auth_result = "string \<times> bool \<times> auth_error option"
type_synonym 's auth_fn = "string \<Rightarrow> string \<Rightarrow> int \<Rightarrow> 's \<Rightarrow> auth_result \<times> 's"

text \<open>\<^verbatim>\<open>hex.EncodeToString\<close>.\<close>

definition hextable :: string where
  "hextable = ''0123456789abcdef''"

definition EncodeToString :: "bytes \<Rightarrow> string" where
  "EncodeToString b = concat (map (\<lambda>v. [hextable ! (unat v div 16), hextable ! (unat v mod 16)]) b)"

subsection \<open>One password\<close>

record PasswordAuthenticator =
  pa_passwordHex :: string
  pa_id :: string

definition NewPasswordAuthenticator :: "(bytes \<Rightarrow> bytes) \<Rightarrow> string \<Rightarrow> PasswordAuthenticator" where
  "NewPasswordAuthenticator sha256 password =
     (let hash = sha256 (bytes_of password); idSum = sha256 hash
      in \<lparr>pa_passwordHex = EncodeToString hash, pa_id = ''pw-'' @ EncodeToString (take 8 idSum)\<rparr>)"

definition PasswordAuthenticator_Authenticate :: "PasswordAuthenticator \<Rightarrow> 's auth_fn" where
  "PasswordAuthenticator_Authenticate p addr authBlob tx s =
     (if length authBlob \<noteq> length (pa_passwordHex p) then (('''', False, None), s)
      else if authBlob \<noteq> pa_passwordHex p then (('''', False, None), s)
      else ((pa_id p, True, None), s))"

subsection \<open>An HTTP backend\<close>

record HTTPAuthRequest =
  hr_Addr :: string
  hr_Auth :: string
  hr_Tx :: int
  hr_Variant :: string

record HTTPAuthResponse =
  hp_OK :: bool
  hp_ID :: string

record HTTPAuthenticator =
  hu_url :: string
  hu_insecure :: bool

definition authVariant :: string where
  "authVariant = ''geekdada/anytls-go''"

definition NewHTTPAuthenticator :: "string \<Rightarrow> bool \<Rightarrow> HTTPAuthenticator" where
  "NewHTTPAuthenticator url insecure = \<lparr>hu_url = url, hu_insecure = insecure\<rparr>"

text \<open>\<open>validURL\<close> is whether \<^verbatim>\<open>http.NewRequest\<close> accepts the address. \<open>Do\<close> is the exchange: no response, or a status
  with the decoded body if it decodes.\<close>

definition HTTPAuthenticator_Authenticate ::
  "(string \<Rightarrow> bool) \<Rightarrow> (HTTPAuthenticator \<Rightarrow> HTTPAuthRequest \<Rightarrow> 's \<Rightarrow> (int \<times> HTTPAuthResponse option) option \<times> 's) \<Rightarrow>
   HTTPAuthenticator \<Rightarrow> 's auth_fn" where
  "HTTPAuthenticator_Authenticate validURL Do h addr authBlob tx s =
     (if \<not> validURL (hu_url h) then (('''', False, Some BuildAuthRequest), s)
      else
        (let (resp, s') = Do h \<lparr>hr_Addr = addr, hr_Auth = authBlob, hr_Tx = tx, hr_Variant = authVariant\<rparr> s
         in case resp of
              None \<Rightarrow> (('''', False, Some CallAuthBackend), s')
            | Some (status, body) \<Rightarrow>
                if status \<noteq> 200 then (('''', False, Some (AuthBackendStatus status)), s')
                else case body of
                    None \<Rightarrow> (('''', False, Some DecodeAuthResponse), s')
                  | Some ar \<Rightarrow> ((hp_ID ar, hp_OK ar, None), s')))"

subsection \<open>A bound on concurrent calls\<close>

text \<open>\<open>slot\<close> is the outcome of waiting: a slot, or the timer.\<close>

definition LimitedAuthenticator_Authenticate :: "('s \<Rightarrow> bool \<times> 's) \<Rightarrow> 's auth_fn \<Rightarrow> 's auth_fn" where
  "LimitedAuthenticator_Authenticate slot inner addr authBlob tx s =
     (let (got, s') = slot s
      in if got then inner addr authBlob tx s' else (('''', False, Some ErrBackendBusy), s'))"

subsection \<open>A cache\<close>

record ('c, 'v) expirableLRU =
  ex_NewLRU :: "int \<Rightarrow> int \<Rightarrow> 'c"
  ex_Get :: "int \<Rightarrow> 'c \<Rightarrow> string \<Rightarrow> 'v option \<times> 'c"
  ex_Add :: "int \<Rightarrow> 'c \<Rightarrow> string \<Rightarrow> 'v \<Rightarrow> 'c"

record ('c, 'n) caches =
  ca_cache :: 'c
  ca_neg :: "'n option"

definition NewCachingAuthenticator ::
  "('c, string) expirableLRU \<Rightarrow> ('n, unit) expirableLRU \<Rightarrow> int \<Rightarrow> int \<Rightarrow> int \<Rightarrow> ('c, 'n) caches" where
  "NewCachingAuthenticator lru neg ttl capacity negTTL =
     \<lparr>ca_cache = ex_NewLRU lru capacity ttl, ca_neg = (if negTTL > 0 then Some (ex_NewLRU neg capacity negTTL) else None)\<rparr>"

definition known_bad :: "('n, unit) expirableLRU \<Rightarrow> int \<Rightarrow> string \<Rightarrow> ('c, 'n) caches \<Rightarrow> bool \<times> ('c, 'n) caches" where
  "known_bad neg now authBlob c =
     (case ca_neg c of
        None \<Rightarrow> (False, c)
      | Some n \<Rightarrow> (let (g, n') = ex_Get neg now n authBlob in (g \<noteq> None, c\<lparr>ca_neg := Some n'\<rparr>)))"

definition remember ::
  "('c, string) expirableLRU \<Rightarrow> ('n, unit) expirableLRU \<Rightarrow> int \<Rightarrow> string \<Rightarrow> auth_result \<Rightarrow> ('c, 'n) caches \<Rightarrow> ('c, 'n) caches" where
  "remember lru neg now authBlob res c =
     (case res of
        (i, ok, Some e) \<Rightarrow> c
      | (i, ok, None) \<Rightarrow>
          if ok then c\<lparr>ca_cache := ex_Add lru now (ca_cache c) authBlob i\<rparr>
          else case ca_neg c of None \<Rightarrow> c | Some n \<Rightarrow> c\<lparr>ca_neg := Some (ex_Add neg now n authBlob ())\<rparr>)"

definition CachingAuthenticator_Authenticate ::
  "('c, string) expirableLRU \<Rightarrow> ('n, unit) expirableLRU \<Rightarrow> ('s \<Rightarrow> int) \<Rightarrow> 's auth_fn \<Rightarrow> (('c, 'n) caches \<times> 's) auth_fn" where
  "CachingAuthenticator_Authenticate lru neg clock inner addr authBlob tx st =
     (let (c, s) = st; (hit, cache') = ex_Get lru (clock s) (ca_cache c) authBlob; c1 = c\<lparr>ca_cache := cache'\<rparr>
      in case hit of
           Some i \<Rightarrow> ((i, True, None), (c1, s))
         | None \<Rightarrow>
             (let (bad, c2) = known_bad neg (clock s) authBlob c1
              in if bad then (('''', False, None), (c2, s))
                 else (let (res, s') = inner addr authBlob tx s in (res, (remember lru neg (clock s') authBlob res c2, s')))))"

section \<open>The authenticator of the server\<close>

definition on_world :: "'s auth_fn \<Rightarrow> ('c \<times> 's) auth_fn" where
  "on_world f addr authBlob tx st = (let (res, s') = f addr authBlob tx (snd st) in (res, (fst st, s')))"

text \<open>The choice \<^verbatim>\<open>main\<close> makes, with the caches it starts from; none when it refuses to start. A
  lifetime that does not parse counts as zero, as its error is dropped.\<close>

definition main_auth ::
  "(bytes \<Rightarrow> bytes) \<Rightarrow> (string \<Rightarrow> int option) \<Rightarrow> ('c, string) expirableLRU \<Rightarrow> ('n, unit) expirableLRU \<Rightarrow> ('s \<Rightarrow> int) \<Rightarrow>
   (string \<Rightarrow> bool) \<Rightarrow> (HTTPAuthenticator \<Rightarrow> HTTPAuthRequest \<Rightarrow> 's \<Rightarrow> (int \<times> HTTPAuthResponse option) option \<times> 's) \<Rightarrow>
   (int \<Rightarrow> 's \<Rightarrow> bool \<times> 's) \<Rightarrow> Config \<Rightarrow> ((('c, 'n) caches \<times> 's) auth_fn \<times> ('c, 'n) caches) option" where
  "main_auth sha256 pd lru neg clock validURL Do slot cfg =
     (if UseHTTPAuth cfg then
        (let h = NewHTTPAuthenticator (ha_URL (au_HTTP (cf_Auth cfg))) (ha_Insecure (au_HTTP (cf_Auth cfg)));
             authn = LimitedAuthenticator_Authenticate (slot (AuthMaxConcurrent cfg)) (HTTPAuthenticator_Authenticate validURL Do h);
             ttl = (case AuthCacheTTL pd cfg of Inr t \<Rightarrow> t | Inl e \<Rightarrow> 0);
             capacity = (if ha_CacheSize (au_HTTP (cf_Auth cfg)) \<le> 0 then 4096 else ha_CacheSize (au_HTTP (cf_Auth cfg)));
             negTTL = (case AuthNegativeCacheTTL pd cfg of Inr t \<Rightarrow> t | Inl e \<Rightarrow> 0)
         in if ttl > 0
            then Some (CachingAuthenticator_Authenticate lru neg clock authn, NewCachingAuthenticator lru neg ttl capacity negTTL)
            else Some (on_world authn, \<lparr>ca_cache = ex_NewLRU lru 0 0, ca_neg = None\<rparr>))
      else if cf_Password cfg = '''' then None
      else Some (on_world (PasswordAuthenticator_Authenticate (NewPasswordAuthenticator sha256 (cf_Password cfg))),
                 \<lparr>ca_cache = ex_NewLRU lru 0 0, ca_neg = None\<rparr>))"

section \<open>The contract\<close>

locale authenticator =
  fixes authenticate :: "'s auth_fn"
  assumes error_refuses: "authenticate addr authBlob tx s = ((i, ok, Some e), s') \<Longrightarrow> \<not> ok"
begin

lemma accepted_without_error: "authenticate addr authBlob tx s = ((i, True, err), s') \<Longrightarrow> err = None"
  using error_refuses [where ok = True] by (cases err) auto

lemma limited: "authenticator (LimitedAuthenticator_Authenticate slot authenticate)"
  by unfold_locales (auto simp: LimitedAuthenticator_Authenticate_def split: prod.splits if_splits dest: error_refuses)

lemma caching: "authenticator (CachingAuthenticator_Authenticate lru neg clock authenticate)"
  by unfold_locales
    (auto simp: CachingAuthenticator_Authenticate_def Let_def split: prod.splits if_splits option.splits dest: error_refuses)

lemma in_world: "authenticator (on_world authenticate)"
  by unfold_locales (auto simp: on_world_def split: prod.splits dest: error_refuses)

end

interpretation password: authenticator "PasswordAuthenticator_Authenticate p" for p
  by unfold_locales (auto simp: PasswordAuthenticator_Authenticate_def split: if_splits)

interpretation http: authenticator "HTTPAuthenticator_Authenticate validURL Do h" for validURL Do h
  by unfold_locales (auto simp: HTTPAuthenticator_Authenticate_def Let_def split: prod.splits if_splits option.splits)

interpretation limited_http: authenticator "LimitedAuthenticator_Authenticate slot (HTTPAuthenticator_Authenticate validURL Do h)"
  for slot validURL Do h
  by (rule http.limited)

interpretation cached_http: authenticator
  "CachingAuthenticator_Authenticate lru neg clock (LimitedAuthenticator_Authenticate slot (HTTPAuthenticator_Authenticate validURL Do h))"
  for lru neg clock slot validURL Do h
  by (rule limited_http.caching)

lemma main_auth_contract:
  assumes "main_auth sha256 pd lru neg clock validURL Do slot cfg = Some (authn, c)"
  shows "authenticator authn"
  using assms cached_http.authenticator_axioms limited_http.in_world password.in_world
  by (auto simp: main_auth_def Let_def split: if_splits)
section \<open>Passwords\<close>

lemma hex_pair_inj:
  assumes "hextable ! (unat v div 16) = hextable ! (unat w div 16)" "hextable ! (unat v mod 16) = hextable ! (unat w mod 16)"
  shows "v = (w :: byte)"
proof -
  have d: "distinct hextable" "length hextable = 16" by (simp_all add: hextable_def)
  have "unat v < 256" "unat w < 256" using unsigned_less [of v, where 'a = nat] unsigned_less [of w, where 'a = nat] by simp_all
  then have "unat v div 16 = unat w div 16" "unat v mod 16 = unat w mod 16"
    using assms d by (simp_all add: nth_eq_iff_index_eq)
  then have "unat v = unat w" by (metis mult_div_mod_eq)
  then show ?thesis by (simp only: word_unat_eq_iff)
qed

lemma EncodeToString_Cons:
  "EncodeToString (v # b) = hextable ! (unat v div 16) # hextable ! (unat v mod 16) # EncodeToString b"
  by (simp add: EncodeToString_def)

lemma EncodeToString_inj: "EncodeToString a = EncodeToString b \<longleftrightarrow> a = b"
proof (induction a arbitrary: b)
  case Nil
  then show ?case by (cases b) (simp_all add: EncodeToString_def)
next
  case (Cons v a)
  show ?case
  proof (cases b)
    case Nil
    then show ?thesis by (simp add: EncodeToString_def)
  next
    case b: (Cons w b')
    then show ?thesis using Cons.IH [of b'] hex_pair_inj [of v w] by (simp only: EncodeToString_Cons list.inject b) blast
  qed
qed

lemma password_accepts:
  "PasswordAuthenticator_Authenticate (NewPasswordAuthenticator sha256 password) addr (EncodeToString b) tx s =
     (if b = sha256 (bytes_of password) then ((pa_id (NewPasswordAuthenticator sha256 password), True, None), s)
      else (('''', False, None), s))"
  by (auto simp: PasswordAuthenticator_Authenticate_def NewPasswordAuthenticator_def Let_def EncodeToString_inj)

section \<open>What the cache answers\<close>

text \<open>The documented behaviour of the cache: \<open>contents\<close> is what is stored with the time it was added. A new
  cache is empty, looking up finds only what is stored and not expired, and entries may vanish at any time.\<close>

definition expiring ::
  "('c, 'v) expirableLRU \<Rightarrow> ('c \<Rightarrow> int) \<Rightarrow> ('c \<Rightarrow> string \<rightharpoonup> 'v \<times> int) \<Rightarrow> bool" where
  "expiring lru ttl contents \<longleftrightarrow>
     (\<forall>n d. contents (ex_NewLRU lru n d) = Map.empty \<and> ttl (ex_NewLRU lru n d) = d) \<and>
     (\<forall>now c k v c'. ex_Get lru now c k = (Some v, c') \<and> 0 < ttl c \<longrightarrow> (\<exists>t. contents c k = Some (v, t) \<and> now \<le> t + ttl c)) \<and>
     (\<forall>now c k. contents (snd (ex_Get lru now c k)) \<subseteq>\<^sub>m contents c \<and> ttl (snd (ex_Get lru now c k)) = ttl c) \<and>
     (\<forall>now c k v. contents (ex_Add lru now c k v) \<subseteq>\<^sub>m (contents c)(k \<mapsto> (v, now)) \<and> ttl (ex_Add lru now c k v) = ttl c)"

text \<open>A backend that keeps a log of what it was asked: when the answer came, for which credential, and
  what it was.\<close>

definition logged :: "('s \<Rightarrow> int) \<Rightarrow> 's auth_fn \<Rightarrow> ('s \<times> (int \<times> string \<times> auth_result) list) auth_fn" where
  "logged clock inner addr authBlob tx st =
     (let (res, s') = inner addr authBlob tx (fst st) in (res, (s', snd st @ [(clock s', authBlob, res)])))"

text \<open>Runs of a caching authenticator: it is called, and in between the world changes.\<close>

inductive auth_run ::
  "('c, string) expirableLRU \<Rightarrow> ('n, unit) expirableLRU \<Rightarrow> ('s \<Rightarrow> int) \<Rightarrow> 's auth_fn \<Rightarrow> ('c, 'n) caches \<Rightarrow>
   ('c, 'n) caches \<Rightarrow> 's \<Rightarrow> (int \<times> string \<times> auth_result) list \<Rightarrow> bool"
  for lru neg clock inner c0 where
  start: "auth_run lru neg clock inner c0 c0 s []"
| world: "auth_run lru neg clock inner c0 c s l \<Longrightarrow> auth_run lru neg clock inner c0 c s' l"
| call: "auth_run lru neg clock inner c0 c s l \<Longrightarrow>
    CachingAuthenticator_Authenticate lru neg (clock \<circ> fst) (logged clock inner) addr blob tx (c, (s, l)) = (res, (c', (s', l'))) \<Longrightarrow>
    auth_run lru neg clock inner c0 c' s' l'"

text \<open>Everything a cache holds was answered by the backend.\<close>

definition backed :: "('c \<Rightarrow> int) \<Rightarrow> ('c \<Rightarrow> string \<rightharpoonup> string \<times> int) \<Rightarrow> ('n \<Rightarrow> int) \<Rightarrow> ('n \<Rightarrow> string \<rightharpoonup> unit \<times> int) \<Rightarrow>
    int \<Rightarrow> int \<Rightarrow> ('c, 'n) caches \<Rightarrow> (int \<times> string \<times> auth_result) list \<Rightarrow> bool" where
  "backed ttlc cc ttln cn ttl negTTL c l \<longleftrightarrow>
     ttlc (ca_cache c) = ttl \<and> (\<forall>k v t. cc (ca_cache c) k = Some (v, t) \<longrightarrow> (t, k, (v, True, None)) \<in> set l) \<and>
     (\<forall>n. ca_neg c = Some n \<longrightarrow> ttln n = negTTL \<and> 0 < negTTL \<and>
        (\<forall>k t. cn n k = Some ((), t) \<longrightarrow> (\<exists>i. (t, k, (i, False, None)) \<in> set l)))"

lemma map_le_Some: "m \<subseteq>\<^sub>m n \<Longrightarrow> m k = Some x \<Longrightarrow> n k = Some x"
  by (metis domI map_le_def)

lemma expiringD:
  assumes "expiring lru ttl contents"
  shows "ex_Get lru now c k = (Some v, c') \<Longrightarrow> 0 < ttl c \<Longrightarrow> \<exists>t. contents c k = Some (v, t) \<and> now \<le> t + ttl c"
    and "ex_Get lru now c k = (g, c') \<Longrightarrow> contents c' q = Some x \<Longrightarrow> contents c q = Some x"
    and "ex_Get lru now c k = (g, c') \<Longrightarrow> ttl c' = ttl c"
    and "contents (ex_Add lru now c k v) q = Some x \<Longrightarrow> q = k \<and> x = (v, now) \<or> contents c q = Some x"
    and "ttl (ex_Add lru now c k v) = ttl c"
    and "contents (ex_NewLRU lru n d) = Map.empty" "ttl (ex_NewLRU lru n d) = d"
proof -
  note e = assms [unfolded expiring_def]
  show "ex_Get lru now c k = (Some v, c') \<Longrightarrow> 0 < ttl c \<Longrightarrow> \<exists>t. contents c k = Some (v, t) \<and> now \<le> t + ttl c" using e by blast
  have g: "contents (snd (ex_Get lru now c k)) \<subseteq>\<^sub>m contents c" "ttl (snd (ex_Get lru now c k)) = ttl c" using e by blast+
  show "ex_Get lru now c k = (g, c') \<Longrightarrow> contents c' q = Some x \<Longrightarrow> contents c q = Some x"
    using g(1) by (simp add: map_le_def dom_def)
  show "ex_Get lru now c k = (g, c') \<Longrightarrow> ttl c' = ttl c" using g(2) by simp
  have a: "contents (ex_Add lru now c k v) \<subseteq>\<^sub>m (contents c)(k \<mapsto> (v, now))" using e by blast
  show "contents (ex_Add lru now c k v) q = Some x \<Longrightarrow> q = k \<and> x = (v, now) \<or> contents c q = Some x"
    using map_le_Some [OF a, of q x] by (simp split: if_splits)
  show "ttl (ex_Add lru now c k v) = ttl c" "contents (ex_NewLRU lru n d) = Map.empty" "ttl (ex_NewLRU lru n d) = d" using e by blast+
qed

lemma backed_new:
  assumes "expiring lru ttlc cc" "expiring neg ttln cn"
  shows "backed ttlc cc ttln cn ttl negTTL (NewCachingAuthenticator lru neg ttl capacity negTTL) []"
  using expiringD(6,7) [OF assms(1)] expiringD(6,7) [OF assms(2)] by (simp add: backed_def NewCachingAuthenticator_def)

lemma backed_get:
  assumes "expiring lru ttlc cc" "backed ttlc cc ttln cn ttl negTTL c l" "ex_Get lru now (ca_cache c) k = (g, c')"
  shows "backed ttlc cc ttln cn ttl negTTL (c\<lparr>ca_cache := c'\<rparr>) l"
  using assms(2) expiringD(2,3) [OF assms(1) assms(3)] by (simp add: backed_def)

lemma backed_known_bad:
  assumes "expiring neg ttln cn" "backed ttlc cc ttln cn ttl negTTL c l" "known_bad neg now k c = (bad, c')"
  shows "backed ttlc cc ttln cn ttl negTTL c' l"
    and "bad \<Longrightarrow> \<exists>t i. (t, k, (i, False, None)) \<in> set l \<and> now \<le> t + negTTL"
proof -
  show "backed ttlc cc ttln cn ttl negTTL c' l"
  proof (cases "ca_neg c")
    case (Some n)
    obtain g n' where g: "ex_Get neg now n k = (g, n')" by fastforce
    then have "c' = c\<lparr>ca_neg := Some n'\<rparr>" using Some assms(3) by (simp add: known_bad_def)
    then show ?thesis using assms(2) Some expiringD(2,3) [OF assms(1) g] by (simp add: backed_def)
  qed (use assms(2,3) in \<open>simp add: known_bad_def\<close>)
  assume bad
  then obtain n n' where g: "ca_neg c = Some n" "ex_Get neg now n k = (Some (), n')"
    using assms(3) by (auto simp: known_bad_def split: option.splits prod.splits)
  then have n: "ttln n = negTTL" "0 < negTTL" "\<forall>k t. cn n k = Some ((), t) \<longrightarrow> (\<exists>i. (t, k, (i, False, None)) \<in> set l)"
    using assms(2) by (simp_all add: backed_def)
  then show "\<exists>t i. (t, k, (i, False, None)) \<in> set l \<and> now \<le> t + negTTL"
    using expiringD(1) [OF assms(1) g(2)] by metis
qed

lemma backed_remember:
  assumes "expiring lru ttlc cc" "expiring neg ttln cn" "backed ttlc cc ttln cn ttl negTTL c l"
  shows "backed ttlc cc ttln cn ttl negTTL (remember lru neg now k res c) (l @ [(now, k, res)])"
proof -
  obtain i ok err where res: "res = (i, ok, err)" by (metis prod_cases3)
  have more: "backed ttlc cc ttln cn ttl negTTL c (l @ [(now, k, res)])" using assms(3) unfolding backed_def by fastforce
  consider e where "err = Some e" | "err = None" ok | "err = None" "\<not> ok" by (cases err) auto
  then show ?thesis
  proof cases
    case 1
    then show ?thesis using more res by (simp add: remember_def)
  next
    case 2
    have "(t, q, (v, True, None)) \<in> set (l @ [(now, k, res)])" if "cc (ex_Add lru now (ca_cache c) k i) q = Some (v, t)" for q v t
      using expiringD(4) [OF assms(1) that] more 2 res by (auto simp: backed_def)
    then show ?thesis using more 2 res expiringD(5) [OF assms(1)] by (simp add: remember_def backed_def)
  next
    case 3
    have "\<exists>j. (t, q, (j, False, None)) \<in> set (l @ [(now, k, res)])" if "ca_neg c = Some n" "cn (ex_Add neg now n k ()) q = Some ((), t)" for n q t
      using expiringD(4) [OF assms(2) that(2)] more 3 res that(1) by (auto simp: backed_def)
    then show ?thesis using more 3 res expiringD(5) [OF assms(2)] by (simp add: remember_def backed_def split: option.split)
  qed
qed

text \<open>One call: the backend is asked, or a cache answers with what the backend answered recently.\<close>

lemma caching_call:
  assumes e: "expiring lru ttlc cc" "expiring neg ttln cn" and b: "backed ttlc cc ttln cn ttl negTTL c l" and ttl: "0 < ttl"
    and call: "CachingAuthenticator_Authenticate lru neg (clock \<circ> fst) (logged clock inner) addr blob tx (c, (s, l)) = (res, (c', (s', l')))"
  shows "backed ttlc cc ttln cn ttl negTTL c' l' \<and>
    (l' = l @ [(clock s', blob, res)] \<or>
     l' = l \<and> (\<exists>t i. (t, blob, res) \<in> set l \<and> res = (i, True, None) \<and> clock s \<le> t + ttl) \<or>
     l' = l \<and> (\<exists>t i. (t, blob, (i, False, None)) \<in> set l \<and> res = ('''', False, None) \<and> clock s \<le> t + negTTL))"
proof -
  obtain hit cache' where g: "ex_Get lru (clock s) (ca_cache c) blob = (hit, cache')" by fastforce
  note b1 = backed_get [OF e(1) b g]
  show ?thesis
  proof (cases hit)
    case (Some i)
    have "0 < ttlc (ca_cache c)" using b ttl by (simp add: backed_def)
    then obtain t where "cc (ca_cache c) blob = Some (i, t)" "clock s \<le> t + ttl"
      using expiringD(1) [OF e(1) g [unfolded Some]] b by (auto simp: backed_def)
    then have "(t, blob, (i, True, None)) \<in> set l" "clock s \<le> t + ttl" using b by (auto simp: backed_def)
    then show ?thesis using call g Some b1 by (auto simp: CachingAuthenticator_Authenticate_def)
  next
    case None
    obtain bad c2 where k: "known_bad neg (clock s) blob (c\<lparr>ca_cache := cache'\<rparr>) = (bad, c2)" by fastforce
    note b2 = backed_known_bad [OF e(2) b1 k]
    obtain res0 s0 where i: "inner addr blob tx s = (res0, s0)" by fastforce
    show ?thesis
    proof (cases bad)
      case True
      then show ?thesis using call g None k b2 by (auto simp: CachingAuthenticator_Authenticate_def)
    next
      case False
      have "res = res0" "s' = s0" "l' = l @ [(clock s0, blob, res0)]" "c' = remember lru neg (clock s0) blob res0 c2"
        using call g None k i False by (auto simp: CachingAuthenticator_Authenticate_def logged_def)
      then show ?thesis using backed_remember [OF e b2(1)] by simp
    qed
  qed
qed

lemma backed_run:
  assumes "expiring lru ttlc cc" "expiring neg ttln cn" "0 < ttl"
  shows "auth_run lru neg clock inner (NewCachingAuthenticator lru neg ttl capacity negTTL) c s l \<Longrightarrow> backed ttlc cc ttln cn ttl negTTL c l"
proof (induction rule: auth_run.induct)
  case (call c s l addr blob tx res c' s' l')
  then show ?case using caching_call [OF assms(1,2) call.IH assms(3) call.hyps(2)] by blast
qed (use backed_new [OF assms(1,2)] in auto)

text \<open>C17. A cached decision is a recent decision of the backend. Whatever was asked before, a call to the
  caching authenticator either asks the backend and passes its answer on unchanged, or it answers
  from a cache, and then the backend has given this answer for this very credential without an
  error within the configured lifetime: acceptances with the same id, and refusals. So errors of
  the backend are never cached.\<close>

theorem cached_decision_is_recent:
  assumes "expiring lru ttlc cc" and "expiring neg ttln cn" and "0 < ttl"
    and "auth_run lru neg clock inner (NewCachingAuthenticator lru neg ttl capacity negTTL) c s l"
    and "CachingAuthenticator_Authenticate lru neg (clock \<circ> fst) (logged clock inner) addr blob tx (c, (s, l)) = (res, (c', (s', l')))"
  shows "l' = l @ [(clock s', blob, res)] \<or>
    l' = l \<and> (\<exists>t i. (t, blob, res) \<in> set l \<and> res = (i, True, None) \<and> clock s \<le> t + ttl) \<or>
    l' = l \<and> (\<exists>t i. (t, blob, (i, False, None)) \<in> set l \<and> res = ('''', False, None) \<and> clock s \<le> t + negTTL)"
  using caching_call [OF assms(1,2) backed_run [OF assms(1-4)] assms(3,5)] by blast

text \<open>A cache as an association list, and a backend that accepts one credential and whose calls take
  a unit of time.\<close>

definition list_lru :: "(int \<times> (string \<times> 'v \<times> int) list, 'v) expirableLRU" where
  "list_lru =
     \<lparr>ex_NewLRU = (\<lambda>n d. (d, [])),
      ex_Get = (\<lambda>now c k. (case map_of (snd c) k of None \<Rightarrow> None | Some (v, t) \<Rightarrow> if now \<le> t + fst c then Some v else None, c)),
      ex_Add = (\<lambda>now c k v. (fst c, AList.update k (v, now) (snd c)))\<rparr>"

definition one_user :: "int auth_fn" where
  "one_user addr blob tx s = (if blob = ''c0'' then ((''carol'', True, None), s + 1) else (('''', False, None), s + 1))"

lemma list_lru_expiring: "expiring list_lru fst (\<lambda>c. map_of (snd c))"
  by (auto simp: expiring_def list_lru_def update_conv' split: option.splits if_splits)

theorem cached_decision_is_recent_witness:
  "\<exists>c l. auth_run list_lru list_lru id one_user (NewCachingAuthenticator list_lru list_lru 10 4096 60) c 9 l \<and>
     (\<exists>t i. (t, ''c0'', (''carol'', True, None)) \<in> set l \<and> (''carol'', True, None) = (i, True, None :: auth_error option) \<and> id 9 \<le> t + (10 :: int))"
proof -
  let ?c0 = "NewCachingAuthenticator list_lru list_lru 10 4096 60"
  let ?r = "CachingAuthenticator_Authenticate list_lru list_lru (id \<circ> fst) (logged id one_user) ''1.1.1.1:1'' ''c0'' 0 (?c0, (0, []))"
  let ?c = "fst (snd ?r)" and ?l = "[(1, ''c0'', (''carol'', True, None))]"
  have "?r = ((''carol'', True, None), (?c, (1, ?l)))" by code_simp
  note run = auth_run.world [OF auth_run.call [OF auth_run.start this], of 9]
  let ?q = "CachingAuthenticator_Authenticate list_lru list_lru (id \<circ> fst) (logged id one_user) ''2.2.2.2:2'' ''c0'' 0 (?c, (9, ?l))"
  have "?q = ((''carol'', True, None), (fst (snd ?q), (9, ?l)))" by code_simp
  from cached_decision_is_recent [OF list_lru_expiring list_lru_expiring _ run this] run show ?thesis
    by (intro exI [of _ ?c] exI [of _ ?l]) simp
qed

section \<open>The bound on concurrent calls\<close>

text \<open>Calls of a limited authenticator run concurrently. Each waits for a slot or its timer, is
  inside the backend, or has returned.\<close>

datatype limited_call = Waiting | Inside | Returned auth_result

record limited =
  la_cap :: nat
  la_slots :: nat
  la_calls :: "limited_call list"

definition NewLimitedAuthenticator :: "int \<Rightarrow> limited" where
  "NewLimitedAuthenticator maxConcurrent = \<lparr>la_cap = nat maxConcurrent, la_slots = 0, la_calls = []\<rparr>"

inductive limited_step :: "limited \<Rightarrow> limited \<Rightarrow> bool" where
  call: "limited_step l (l\<lparr>la_calls := la_calls l @ [Waiting]\<rparr>)"
| slot: "i < length (la_calls l) \<Longrightarrow> la_calls l ! i = Waiting \<Longrightarrow> la_slots l < la_cap l \<Longrightarrow>
    limited_step l (l\<lparr>la_slots := la_slots l + 1, la_calls := (la_calls l)[i := Inside]\<rparr>)"
| timeout: "i < length (la_calls l) \<Longrightarrow> la_calls l ! i = Waiting \<Longrightarrow>
    limited_step l (l\<lparr>la_calls := (la_calls l)[i := Returned ('''', False, Some ErrBackendBusy)]\<rparr>)"
| return: "i < length (la_calls l) \<Longrightarrow> la_calls l ! i = Inside \<Longrightarrow>
    limited_step l (l\<lparr>la_slots := la_slots l - 1, la_calls := (la_calls l)[i := Returned res]\<rparr>)"

definition slots_ok :: "limited \<Rightarrow> bool" where
  "slots_ok l \<longleftrightarrow> la_slots l = count_list (la_calls l) Inside \<and> la_slots l \<le> la_cap l"

lemma count_list_update:
  "i < length xs \<Longrightarrow> count_list (xs[i := y]) x + (if xs ! i = x then 1 else 0) = count_list xs x + (if y = x then 1 else 0)"
proof (induction xs arbitrary: i)
  case (Cons z zs)
  then show ?case
  proof (cases i)
    case (Suc n)
    then show ?thesis using Cons.IH [of n] Cons.prems by (cases "y = x") auto
  qed simp
qed simp

lemma slots_step: "limited_step l m \<Longrightarrow> slots_ok l \<Longrightarrow> slots_ok m \<and> la_cap m = la_cap l"
proof (induction rule: limited_step.induct)
  case (slot i l)
  then show ?case using count_list_update [of i "la_calls l" Inside Inside] by (simp add: slots_ok_def)
next
  case (timeout i l)
  then show ?case using count_list_update [of i "la_calls l" "Returned ('''', False, Some ErrBackendBusy)" Inside] by (simp add: slots_ok_def)
next
  case (return i l res)
  then show ?case using count_list_update [of i "la_calls l" "Returned res" Inside] by (auto simp: slots_ok_def)
qed (simp add: slots_ok_def)

text \<open>C35. The load on the backend is bounded. However calls arrive, time out and return, no more than the
  configured number are inside the backend, and a slot is free whenever fewer are: no slot leaks.\<close>

theorem limited_load:
  assumes "limited_step\<^sup>*\<^sup>* (NewLimitedAuthenticator maxConcurrent) l"
  shows "count_list (la_calls l) Inside \<le> nat maxConcurrent \<and>
    (count_list (la_calls l) Inside < nat maxConcurrent \<longleftrightarrow> la_slots l < la_cap l)"
proof -
  have "slots_ok l \<and> la_cap l = nat maxConcurrent"
    using assms by (induction rule: rtranclp_induct)
      (auto simp: NewLimitedAuthenticator_def slots_ok_def [of "\<lparr>la_cap = _, la_slots = _, la_calls = _\<rparr>"] dest: slots_step)
  then show ?thesis by (simp add: slots_ok_def)
qed

theorem limited_load_witness:
  "\<exists>l. limited_step\<^sup>*\<^sup>* (NewLimitedAuthenticator 1) l \<and> la_calls l = [Inside, Waiting] \<and>
     (count_list (la_calls l) Inside < nat 1 \<longleftrightarrow> la_slots l < la_cap l)"
proof -
  let ?start = "NewLimitedAuthenticator 1" and ?fin = "\<lparr>la_cap = 1, la_slots = 1, la_calls = [Inside, Waiting]\<rparr>"
  have "limited_step ?start \<lparr>la_cap = 1, la_slots = 0, la_calls = [Waiting]\<rparr>"
    using limited_step.call [of ?start] by (simp add: NewLimitedAuthenticator_def)
  moreover have "limited_step \<lparr>la_cap = 1, la_slots = 0, la_calls = [Waiting]\<rparr> \<lparr>la_cap = 1, la_slots = 0, la_calls = [Waiting, Waiting]\<rparr>"
    using limited_step.call [of "\<lparr>la_cap = 1, la_slots = 0, la_calls = [Waiting]\<rparr>"] by simp
  moreover have "limited_step \<lparr>la_cap = 1, la_slots = 0, la_calls = [Waiting, Waiting]\<rparr> ?fin"
    using limited_step.slot [of 0 "\<lparr>la_cap = 1, la_slots = 0, la_calls = [Waiting, Waiting]\<rparr>"] by simp
  ultimately have r: "limited_step\<^sup>*\<^sup>* ?start ?fin" by (meson converse_rtranclp_into_rtranclp rtranclp.rtrancl_refl)
  from limited_load [OF r] r show ?thesis by (intro exI [of _ ?fin]) simp
qed

end
