(* ===== verification/Handshake.thy ===== *)
theory Handshake
  imports Auth Padding
begin

text \<open>
  The first packet of a connection: what the client sends (\<^verbatim>\<open>createOutboundConnection\<close> of
  \<^verbatim>\<open>cmd/client/myclient.go\<close>) and how the server reads it (the first half of \<^verbatim>\<open>handleTcpConnection\<close> of
  \<^verbatim>\<open>cmd/server/inbound_tcp.go\<close>): the hash of the password, a length and that much padding.

  The packet buffer is the one of the \<^verbatim>\<open>sing\<close> library and is a parameter, with its contents as an
  abstraction.
\<close>

section \<open>The client\<close>

record 'b packet_writer =
  pw_New :: 'b
  pw_Write :: "'b \<Rightarrow> bytes \<Rightarrow> 'b"
  pw_WriteZeroN :: "'b \<Rightarrow> nat \<Rightarrow> 'b"

text \<open>Extending by two bytes and storing the length there is a write of the length. The padding is as long as
  the first size of the scheme for packet 0, and the length field is that size cut to 16 bits.\<close>

definition auth_packet :: "'b packet_writer \<Rightarrow> bytes \<Rightarrow> int list \<Rightarrow> 'b" where
  "auth_packet w passwordSha256 pad =
     (let b = pw_Write w (pw_New w) passwordSha256;
          paddingLen = (if length pad > 0 then pad ! 0 else 0);
          b = pw_Write w b (PutUint16 (word_of_int paddingLen))
      in if paddingLen > 0 then pw_WriteZeroN w b (nat paddingLen) else b)"

text \<open>A failed dial, or a failed write after which the connection is closed, gives no connection.\<close>

definition createOutboundConnection ::
  "'b packet_writer \<Rightarrow> ('s \<Rightarrow> 'k option \<times> 's) \<Rightarrow> ('b \<Rightarrow> 'k \<Rightarrow> 's \<Rightarrow> bool \<times> 's) \<Rightarrow> ('k \<Rightarrow> 's \<Rightarrow> 's) \<Rightarrow> (nat \<Rightarrow> nat) \<Rightarrow> PaddingFactory \<Rightarrow>
   bytes \<Rightarrow> 's \<Rightarrow> 'k option \<times> 's" where
  "createOutboundConnection w dialOut WriteTo close rnd factory passwordSha256 s =
     (case dialOut s of
        (None, s1) \<Rightarrow> (None, s1)
      | (Some conn, s1) \<Rightarrow>
          (let (ok, s2) = WriteTo (auth_packet w passwordSha256 (GenerateRecordPayloadSizes rnd factory 0)) conn s1
           in if ok then (Some conn, s2) else (None, close conn s2)))"

section \<open>The server\<close>

datatype 'b handshake = NoData | Fallback | Admitted string 'b

text \<open>\<open>first\<close> is what the one read from the connection gave. The buffer of an admitted client still holds what
  follows the packet.\<close>

definition server_handshake ::
  "('b \<Rightarrow> nat \<Rightarrow> (bytes \<times> 'b) option) \<Rightarrow> 's auth_fn \<Rightarrow> string \<Rightarrow> 'b option \<Rightarrow> 's \<Rightarrow> 'b handshake \<times> 's" where
  "server_handshake ReadBytes authenticate remote first s =
     (case first of
        None \<Rightarrow> (NoData, s)
      | Some b \<Rightarrow>
          (case ReadBytes b 32 of
             None \<Rightarrow> (Fallback, s)
           | Some (by, b) \<Rightarrow>
               (case authenticate remote (EncodeToString by) 0 s of
                  ((i, ok, authErr), s) \<Rightarrow>
                    if \<not> ok then (Fallback, s)
                    else case ReadBytes b 2 of
                        None \<Rightarrow> (Fallback, s)
                      | Some (by, b) \<Rightarrow>
                          if Uint16 by > 0
                          then (case ReadBytes b (unat (Uint16 by)) of
                                  None \<Rightarrow> (Fallback, s)
                                | Some (_, b) \<Rightarrow> (Admitted i b, s))
                          else (Admitted i b, s))))"

section \<open>The buffer\<close>

text \<open>The documented behaviour: reading takes from the front or fails, and writing appends while it fits.\<close>

definition reads_front :: "('b \<Rightarrow> bytes) \<Rightarrow> ('b \<Rightarrow> nat \<Rightarrow> (bytes \<times> 'b) option) \<Rightarrow> bool" where
  "reads_front contents ReadBytes \<longleftrightarrow>
     (\<forall>b n. case ReadBytes b n of
          None \<Rightarrow> length (contents b) < n
        | Some (x, b') \<Rightarrow> n \<le> length (contents b) \<and> x = take n (contents b) \<and> contents b' = drop n (contents b))"

definition appends :: "nat \<Rightarrow> ('b \<Rightarrow> bytes) \<Rightarrow> 'b packet_writer \<Rightarrow> bool" where
  "appends cap contents w \<longleftrightarrow> contents (pw_New w) = [] \<and>
     (\<forall>b x. length (contents b) + length x \<le> cap \<longrightarrow> contents (pw_Write w b x) = contents b @ x) \<and>
     (\<forall>b n. length (contents b) + n \<le> cap \<longrightarrow> contents (pw_WriteZeroN w b n) = contents b @ replicate n 0)"

lemma reads_front_Some:
  assumes "reads_front contents ReadBytes" "n \<le> length (contents b)"
  shows "\<exists>b'. ReadBytes b n = Some (take n (contents b), b') \<and> contents b' = drop n (contents b)"
  using assms(1) [unfolded reads_front_def, THEN spec, THEN spec, of b n] assms(2) by (auto split: option.splits)

lemma reads_front_None:
  assumes "reads_front contents ReadBytes" "length (contents b) < n"
  shows "ReadBytes b n = None"
  using assms(1) [unfolded reads_front_def, THEN spec, THEN spec, of b n] assms(2) by (auto split: option.splits)

lemma auth_packet_contents:
  assumes w: "appends cap contents w" and p: "p = (if pad = [] then 0 else hd pad)" "0 \<le> p"
    and cap: "length hash + 2 + nat p \<le> cap"
  shows "contents (auth_packet w hash pad) = hash @ PutUint16 (word_of_int p) @ replicate (nat p) 0"
proof -
  note a = w [unfolded appends_def]
  have 1: "contents (pw_Write w (pw_New w) hash) = hash" using a cap by simp
  have 2: "contents (pw_Write w (pw_Write w (pw_New w) hash) (PutUint16 (word_of_int p))) = hash @ PutUint16 (word_of_int p)"
    using a cap 1 by simp
  have p': "(if length pad > 0 then pad ! 0 else 0) = p" using p(1) by (cases pad) simp_all
  show ?thesis
  proof (cases "p > 0")
    case True
    then show ?thesis using a cap 2 unfolding auth_packet_def Let_def p' by simp
  next
    case False
    then show ?thesis using 2 p(2) unfolding auth_packet_def Let_def p' by simp
  qed
qed
section \<open>Claims\<close>

text \<open>A client that knows the password gets in. For any scheme whose ranges fit a frame and whose packet 0
  does not start with a check mark: where the server's first read returns the packet of the client
  and whatever follows it, the server admits the client under the id of the password and is left
  with exactly what follows. This needs the packet to fit the buffer and the hash to have 32 bytes.\<close>

theorem client_is_admitted:
  assumes "reads_front rc ReadBytes" and "appends cap wc w"
    and "length (sha (bytes_of password)) = 32" and "scheme_bounded factory"
    and "pad = GenerateRecordPayloadSizes rnd factory 0" and "CheckMark \<notin> set (take 1 pad)"
    and "34 + (if pad = [] then 0 else nat (hd pad)) \<le> cap"
    and "rc b = wc (auth_packet w (sha (bytes_of password)) pad) @ rest"
  shows "\<exists>b'. server_handshake ReadBytes (PasswordAuthenticator_Authenticate (NewPasswordAuthenticator sha password)) remote (Some b) s =
      (Admitted (pa_id (NewPasswordAuthenticator sha password)) b', s) \<and> rc b' = rest"
proof -
  let ?hash = "sha (bytes_of password)" and ?p = "if pad = [] then 0 else hd pad"
  have p: "0 \<le> ?p" "?p \<le> 65535"
    using sizes_sign [of "hd pad" rnd factory 0] sizes_bounded [OF assms(4), of "hd pad" rnd 0] assms(5,6) by (cases pad; fastforce)+
  define n where "n = nat ?p"
  have pn: "?p = int n" using p(1) by (simp add: n_def)
  have n: "word_of_int ?p = (word_of_nat n :: u16)" "n \<le> 65535" using p(2) unfolding pn by simp_all
  have "length ?hash + 2 + nat ?p \<le> cap" using assms(3,7) by (simp split: if_splits)
  then have c: "rc b = ?hash @ PutUint16 (word_of_nat n) @ replicate n 0 @ rest"
    using auth_packet_contents [OF assms(2) refl p(1)] assms(8) n(1) by (simp add: n_def)
  obtain b1 where b1: "ReadBytes b 32 = Some (?hash, b1)" "rc b1 = PutUint16 (word_of_nat n) @ replicate n 0 @ rest"
    using reads_front_Some [OF assms(1), of 32 b] assms(3) c by auto
  obtain b2 where b2: "ReadBytes b1 2 = Some (PutUint16 (word_of_nat n), b2)" "rc b2 = replicate n 0 @ rest"
    using reads_front_Some [OF assms(1), of 2 b1] b1(2) by auto
  obtain b3 where b3: "ReadBytes b2 n = Some (replicate n 0, b3)" "rc b3 = rest"
    using reads_front_Some [OF assms(1), of n b2] b2(2) by auto
  have u: "unat (word_of_nat n :: u16) = n" using n(2) by (simp add: unat_u16_of_nat)
  have z: "(word_of_nat n :: u16) > 0 \<longleftrightarrow> n > 0" using u by (metis unat_gt_0 word_gt_0)
  show ?thesis
    using b1(1) b2 b3 u z by (cases "n > 0") (auto simp: server_handshake_def password_accepts)
qed


definition list_writer :: "bytes packet_writer" where
  "list_writer = \<lparr>pw_New = [], pw_Write = (@), pw_WriteZeroN = (\<lambda>b n. b @ replicate n 0)\<rparr>"

definition list_ReadBytes :: "bytes \<Rightarrow> nat \<Rightarrow> (bytes \<times> bytes) option" where
  "list_ReadBytes b n = (if n \<le> length b then Some (take n b, drop n b) else None)"

definition default_factory :: PaddingFactory where
  "default_factory = \<lparr>pf_scheme = default_scheme_lines, pf_RawScheme = defaultPaddingScheme, pf_Stop = 8, pf_Md5 = []\<rparr>"

lemma default_first_size: "GenerateRecordPayloadSizes rnd default_factory 0 = [30]"
proof -
  have "FormatUint 0 = ''0''" by code_simp
  then show ?thesis
    by (simp add: GenerateRecordPayloadSizes_def default_factory_def default_scheme_lines_def range_size_def parse_eval del: FormatUint.simps)
qed

lemma list_buffer: "reads_front id list_ReadBytes" "appends 16384 id list_writer"
  by (simp_all add: reads_front_def list_ReadBytes_def appends_def list_writer_def)

theorem client_is_admitted_witness:
  "\<exists>b'. server_handshake list_ReadBytes (PasswordAuthenticator_Authenticate (NewPasswordAuthenticator (\<lambda>x. replicate 32 7) ''pw''))
       ''10.0.0.1:1000'' (Some (id (auth_packet list_writer (replicate 32 7) [30]) @ [1, 2, 3])) () =
     (Admitted (pa_id (NewPasswordAuthenticator (\<lambda>x. replicate 32 7) ''pw'')) b', ()) \<and> id b' = [1, 2, 3]"
proof -
  have "scheme_bounded default_factory" by (rule default_scheme_bounded) (simp add: default_factory_def)
  note adm = client_is_admitted [where rc = id and wc = id and w = list_writer and cap = 16384
      and factory = default_factory and pad = "[30]" and rest = "[1, 2, 3]" and ReadBytes = list_ReadBytes,
      OF list_buffer _ this default_first_size [symmetric]]
  show ?thesis by (rule adm) (simp_all add: CheckMark_def)
qed

context authenticator
begin

text \<open>The server admits on the verdict, and with the contract this means that there was no error.\<close>

lemma admitted_was_accepted:
  assumes "server_handshake ReadBytes authenticate remote (Some b) s = (Admitted i b', s')" "reads_front rc ReadBytes"
  shows "32 \<le> length (rc b) \<and> authenticate remote (EncodeToString (take 32 (rc b))) 0 s = ((i, True, None), s')"
proof -
  obtain x b1 where r: "ReadBytes b 32 = Some (x, b1)"
    using assms(1) by (auto simp: server_handshake_def split: option.splits)
  then have x: "32 \<le> length (rc b)" "x = take 32 (rc b)"
    using assms(2) [unfolded reads_front_def, THEN spec, THEN spec, of b 32] by simp_all
  obtain j ok err s1 where a: "authenticate remote (EncodeToString x) 0 s = ((j, ok, err), s1)" by (metis surj_pair)
  have ok: "ok \<and> j = i \<and> s1 = s'"
    using assms(1) r a by (auto simp: server_handshake_def split: option.splits if_splits)
  then have "err = None" using accepted_without_error [of remote "EncodeToString x" 0 s j err s1] a by simp
  then show ?thesis using a x ok by simp
qed

end

text \<open>C4. Nobody else gets in. Whatever authenticator the configuration selects, a client is admitted only if
  it sent a credential that this authenticator accepted, without an error, under the id the
  connection then has; with a password, only if the first 32 bytes are the hash of that password.\<close>

theorem only_authenticated_admitted:
  assumes "main_auth sha256 pd lru neg clock validURL Do slot cfg = Some (authn, c)" and "reads_front rc ReadBytes"
    and "server_handshake ReadBytes authn remote (Some b) st = (Admitted i b', st')"
  shows "32 \<le> length (rc b) \<and> authn remote (EncodeToString (take 32 (rc b))) 0 st = ((i, True, None), st') \<and>
    (\<not> UseHTTPAuth cfg \<longrightarrow> take 32 (rc b) = sha256 (bytes_of (cf_Password cfg)))"
proof -
  note a = authenticator.admitted_was_accepted [OF main_auth_contract [OF assms(1)] assms(3,2)]
  have "take 32 (rc b) = sha256 (bytes_of (cf_Password cfg))" if "\<not> UseHTTPAuth cfg"
  proof -
    have "authn = on_world (PasswordAuthenticator_Authenticate (NewPasswordAuthenticator sha256 (cf_Password cfg)))"
      using assms(1) that by (auto simp: main_auth_def split: if_splits)
    then show ?thesis using a by (auto simp: on_world_def password_accepts split: if_splits)
  qed
  then show ?thesis using a by blast
qed

definition password_config :: Config where
  "password_config = Default\<lparr>cf_Password := ''pw''\<rparr>"

theorem only_authenticated_admitted_witness:
  "\<exists>authn c i st'. main_auth (\<lambda>x. replicate 32 7) (\<lambda>x. None) list_lru list_lru id (\<lambda>u. True) (\<lambda>h q s. (None, s)) (\<lambda>n s. (True, s)) password_config =
       Some (authn, c) \<and>
     server_handshake list_ReadBytes authn ''10.0.0.1:1000'' (Some (replicate 32 7 @ [0, 0, 9])) (c, 0) = (Admitted i [9], st') \<and>
     authn ''10.0.0.1:1000'' (EncodeToString (replicate 32 7)) 0 (c, 0) = ((i, True, None), st')"
proof -
  let ?sha = "\<lambda>x :: bytes. replicate 32 (7 :: byte)"
  let ?authn = "on_world (PasswordAuthenticator_Authenticate (NewPasswordAuthenticator ?sha ''pw''))"
  let ?c = "\<lparr>ca_cache = ex_NewLRU list_lru 0 0, ca_neg = None\<rparr>" and ?i = "pa_id (NewPasswordAuthenticator ?sha ''pw'')"
  let ?b = "replicate 32 7 @ [0, 0, 9]"
  have m: "main_auth ?sha (\<lambda>x. None) list_lru list_lru id (\<lambda>u. True) (\<lambda>h q s. (None, s)) (\<lambda>n s. (True, s)) password_config = Some (?authn, ?c)"
    by (simp add: main_auth_def password_config_def Default_def UseHTTPAuth_def)
  have h: "server_handshake list_ReadBytes ?authn ''10.0.0.1:1000'' (Some ?b) (?c, 0) = (Admitted ?i [9], (?c, 0))"
    by (simp add: server_handshake_def list_ReadBytes_def on_world_def password_accepts Uint16_def)
  from only_authenticated_admitted [OF m list_buffer(1) h] m h show ?thesis
    by (intro exI [of _ ?authn] exI [of _ ?c] exI [of _ ?i] exI [of _ "(?c, 0)"]) simp
qed

text \<open>A scheme whose packet 0 starts with a check mark locks its own clients out. The check mark is written as
  the length 65535 while no padding follows, so the server waits for padding that is not there and
  falls back, unless 65535 bytes happen to follow in the same read.\<close>

theorem check_mark_locks_out:
  assumes "reads_front rc ReadBytes" and "appends cap wc w" and "34 \<le> cap"
    and "length (sha256 (bytes_of password)) = 32" and "length rest < 65535"
    and "rc b = wc (auth_packet w (sha256 (bytes_of password)) (CheckMark # pad)) @ rest"
  shows "server_handshake ReadBytes (PasswordAuthenticator_Authenticate (NewPasswordAuthenticator sha256 password)) remote (Some b) s =
    (Fallback, s)"
proof -
  let ?hash = "sha256 (bytes_of password)" and ?len = "PutUint16 (word_of_int CheckMark)"
  have "wc (auth_packet w ?hash (CheckMark # pad)) = ?hash @ ?len"
    using assms(2-4) by (simp add: auth_packet_def appends_def Let_def CheckMark_def)
  then have c: "rc b = ?hash @ ?len @ rest" using assms(6) by simp
  obtain b1 where b1: "ReadBytes b 32 = Some (?hash, b1)" "rc b1 = ?len @ rest"
    using reads_front_Some [OF assms(1), of 32 b] assms(4) c by auto
  obtain b2 where b2: "ReadBytes b1 2 = Some (?len, b2)" "rc b2 = rest"
    using reads_front_Some [OF assms(1), of 2 b1] b1(2) by auto
  have u: "Uint16 ?len = 65535" by (simp add: CheckMark_def)
  have "ReadBytes b2 65535 = None" using reads_front_None [OF assms(1)] b2(2) assms(5) by simp
  then show ?thesis using b1(1) b2(1) u by (simp add: server_handshake_def password_accepts del: Uint16_Put')
qed

theorem check_mark_locks_out_witness:
  "server_handshake list_ReadBytes (PasswordAuthenticator_Authenticate (NewPasswordAuthenticator (\<lambda>x. replicate 32 7) ''pw''))
     ''10.0.0.1:1000'' (Some (id (auth_packet list_writer (replicate 32 7) [CheckMark]) @ [1, 2, 3])) () = (Fallback, ())"
  by (rule check_mark_locks_out [OF list_buffer, where rest = "[1, 2, 3]" and pad = "[]"]) simp_all

end
