(* ===== verification/Net_IP.thy ===== *)
theory Net_IP
  imports Go_Strings
begin

unbundle bit_operations_syntax

text \<open>
  The part of Go's \<^verbatim>\<open>net\<close> and \<^verbatim>\<open>net/netip\<close> packages that address policy rests on: addresses as
  byte slices, comparison, networks and masks, and the textual forms the configuration uses.
  A \<^verbatim>\<open>net.IP\<close> is a list of 4 or 16 bytes; \<^verbatim>\<open>nil\<close> is the empty list.
\<close>

section \<open>Addresses\<close>

type_synonym IP = bytes

definition v4InV6Prefix :: bytes where
  "v4InV6Prefix = replicate 10 0 @ [0xff, 0xff]"

definition To4 :: "IP \<Rightarrow> IP" where
  "To4 ip = (if length ip = 4 then ip
     else if length ip = 16 \<and> take 12 ip = v4InV6Prefix then drop 12 ip else [])"

definition To16 :: "IP \<Rightarrow> IP" where
  "To16 ip = (if length ip = 4 then v4InV6Prefix @ ip else if length ip = 16 then ip else [])"

definition IP_Equal :: "IP \<Rightarrow> IP \<Rightarrow> bool" where
  "IP_Equal a b \<longleftrightarrow>
     (if length a = length b then a = b
      else if length a = 4 \<and> length b = 16 then take 12 b = v4InV6Prefix \<and> a = drop 12 b
      else if length a = 16 \<and> length b = 4 then take 12 a = v4InV6Prefix \<and> drop 12 a = b
      else False)"

text \<open>\<^verbatim>\<open>netip.Addr.Unmap\<close> of an address given as bytes, as \<^verbatim>\<open>ipToNetip\<close> uses it.\<close>

definition Unmap :: "IP \<Rightarrow> IP" where
  "Unmap ip = (if To4 ip \<noteq> [] then To4 ip else ip)"

text \<open>\<^verbatim>\<open>bytes.Compare(a, b) < 0\<close>.\<close>

fun bytes_less :: "bytes \<Rightarrow> bytes \<Rightarrow> bool" where
  "bytes_less a [] = False"
| "bytes_less [] (b # bs) = True"
| "bytes_less (a # as) (b # bs) = (a < b \<or> a = b \<and> bytes_less as bs)"

section \<open>Networks\<close>

record IPNet =
  n_IP :: IP
  n_Mask :: bytes

text \<open>One byte of a mask that keeps the \<open>k\<close> highest bits.\<close>

definition mask_byte :: "nat \<Rightarrow> byte" where
  "mask_byte k = (if k \<ge> 8 then 0xff else NOT (mask (8 - k)))"

fun mask_bytes :: "nat \<Rightarrow> nat \<Rightarrow> bytes" where
  "mask_bytes 0 ones = []"
| "mask_bytes (Suc n) ones = mask_byte ones # mask_bytes n (ones - 8)"

definition CIDRMask :: "nat \<Rightarrow> nat \<Rightarrow> bytes" where
  "CIDRMask ones bits =
     (if bits \<noteq> 32 \<and> bits \<noteq> 128 then [] else if ones > bits then [] else mask_bytes (bits div 8) ones)"

definition networkNumberAndMask :: "IPNet \<Rightarrow> IP \<times> bytes" where
  "networkNumberAndMask n =
     (let ip = (if To4 (n_IP n) \<noteq> [] then To4 (n_IP n) else n_IP n); m = n_Mask n
      in if To4 (n_IP n) = [] \<and> length ip \<noteq> 16 then ([], [])
         else if length m = 4 then (if length ip \<noteq> 4 then ([], []) else (ip, m))
         else if length m = 16 then (if length ip = 4 then (ip, drop 12 m) else (ip, m))
         else ([], []))"

definition masked :: "bytes \<Rightarrow> bytes \<Rightarrow> bytes" where
  "masked ip m = map2 (AND) ip m"

definition IPNet_Contains :: "IPNet \<Rightarrow> IP \<Rightarrow> bool" where
  "IPNet_Contains n ip =
     (let (nn, m) = networkNumberAndMask n;
          ip' = (if To4 ip \<noteq> [] then To4 ip else ip)
      in length ip' = length nn \<and> masked nn m = masked ip' m)"

section \<open>Text\<close>

text \<open>An octet of a dotted address: decimal, no leading zero, at most 255.\<close>

definition parse_octet :: "string \<Rightarrow> byte option" where
  "parse_octet s =
     (if s = [] \<or> length s > 1 \<and> hd s = CHR ''0'' then None
      else case ParseUint 8 s of None \<Rightarrow> None | Some n \<Rightarrow> Some (word_of_nat n))"

fun parse_octets :: "string list \<Rightarrow> bytes option" where
  "parse_octets [] = Some []"
| "parse_octets (p # ps) =
     (case parse_octet p of
        None \<Rightarrow> None
      | Some b \<Rightarrow> (case parse_octets ps of None \<Rightarrow> None | Some bs \<Rightarrow> Some (b # bs)))"

definition parseIPv4 :: "string \<Rightarrow> bytes option" where
  "parseIPv4 s = (let ps = Split (CHR ''.'') s in if length ps = 4 then parse_octets ps else None)"

definition hex_val :: "char \<Rightarrow> nat option" where
  "hex_val c = (let n = of_char c :: nat
     in if 48 \<le> n \<and> n \<le> 57 then Some (n - 48) else if 97 \<le> n \<and> n \<le> 102 then Some (n - 87)
        else if 65 \<le> n \<and> n \<le> 70 then Some (n - 55) else None)"

definition is_hex :: "char \<Rightarrow> bool" where
  "is_hex c \<longleftrightarrow> hex_val c \<noteq> None"

definition hex_group :: "string \<Rightarrow> nat" where
  "hex_group s = foldl (\<lambda>a c. a * 16 + (case hex_val c of Some d \<Rightarrow> d | None \<Rightarrow> 0)) 0 s"

text \<open>
  The loop of \<^verbatim>\<open>parseIPv6\<close>: the bytes so far, where the ellipsis stood, and the rest of the text.
  The result is the bytes and the ellipsis, when all of the text was used.
\<close>

function ipv6_loop :: "bytes \<Rightarrow> nat option \<Rightarrow> string \<Rightarrow> (bytes \<times> nat option) option" where
  "ipv6_loop acc ell s =
     (if length acc \<ge> 16 then (if s = [] then Some (acc, ell) else None)
      else let d = takeWhile is_hex s; r = dropWhile is_hex s
           in if d = [] \<or> length d > 4 then None
              else if r \<noteq> [] \<and> hd r = CHR ''.'' then
                (if ell = None \<and> length acc \<noteq> 12 \<or> length acc + 4 > 16 then None
                 else case parseIPv4 s of None \<Rightarrow> None | Some q \<Rightarrow> Some (acc @ q, ell))
              else let v = hex_group d; acc' = acc @ [word_of_nat (v div 256), word_of_nat (v mod 256)]
                   in if r = [] then Some (acc', ell)
                      else if hd r \<noteq> CHR '':'' \<or> tl r = [] then None
                      else if hd (tl r) = CHR '':'' then
                        (if ell \<noteq> None then None
                         else if tl (tl r) = [] then Some (acc', Some (length acc'))
                         else ipv6_loop acc' (Some (length acc')) (tl (tl r)))
                      else ipv6_loop acc' ell (tl r))"
  by pat_completeness auto
termination
  by (relation "measure (\<lambda>(acc, ell, s). 16 - length acc)") auto

declare ipv6_loop.simps [simp del]

definition parseIPv6 :: "string \<Rightarrow> bytes option" where
  "parseIPv6 s =
     (let lead = HasPrefix s ''::''; r = (if lead then drop 2 s else s)
      in if lead \<and> r = [] then Some (replicate 16 0)
         else case ipv6_loop [] (if lead then Some 0 else None) r of
           None \<Rightarrow> None
         | Some (acc, ell) \<Rightarrow>
             if length acc < 16 then
               (case ell of
                  None \<Rightarrow> None
                | Some e \<Rightarrow> Some (take e acc @ replicate (16 - length acc) 0 @ drop e acc))
             else if ell \<noteq> None then None else Some acc)"

text \<open>\<^verbatim>\<open>netip.ParseAddr\<close> without zones: an address with a zone is refused by every caller.\<close>

definition ParseAddr :: "string \<Rightarrow> bytes option" where
  "ParseAddr s =
     (case dropWhile (\<lambda>c. c \<noteq> CHR ''.'' \<and> c \<noteq> CHR '':'' \<and> c \<noteq> CHR ''%'') s of
        [] \<Rightarrow> None
      | c # _ \<Rightarrow> if c = CHR ''.'' then parseIPv4 s else if c = CHR '':'' then parseIPv6 s else None)"

text \<open>\<^verbatim>\<open>net.ParseIP\<close> yields the 16-byte form, or nil.\<close>

definition ParseIP :: "string \<Rightarrow> IP" where
  "ParseIP s = (case ParseAddr s of None \<Rightarrow> [] | Some a \<Rightarrow> To16 a)"

definition ParseCIDR :: "string \<Rightarrow> IPNet option" where
  "ParseCIDR s =
     (if CHR ''/'' \<notin> set s then None
      else let a = takeWhile (\<lambda>c. c \<noteq> CHR ''/'') s; m = tl (dropWhile (\<lambda>c. c \<noteq> CHR ''/'') s)
           in case ParseAddr a of
                None \<Rightarrow> None
              | Some ip \<Rightarrow>
                  (case ParseUint 23 m of
                     None \<Rightarrow> None
                   | Some n \<Rightarrow>
                       if n > 8 * length ip then None
                       else let k = CIDRMask n (8 * length ip)
                            in Some \<lparr>n_IP = masked ip k, n_Mask = k\<rparr>))"

section \<open>Networks are intervals\<close>

lemma bytes_less_irrefl [simp]: "\<not> bytes_less a a"
  by (induction a) auto

lemma bytes_less_trans: "bytes_less a b \<Longrightarrow> bytes_less b c \<Longrightarrow> bytes_less a c"
proof (induction a b arbitrary: c rule: bytes_less.induct)
  case (2 b bs)
  then show ?case by (cases c) auto
next
  case (3 a as b bs)
  then show ?case by (cases c) (auto intro: less_trans)
qed simp

lemma bytes_less_total: "length a = length b \<Longrightarrow> a \<noteq> b \<Longrightarrow> bytes_less a b \<or> bytes_less b a"
proof (induction a b rule: bytes_less.induct)
  case (3 a as b bs)
  then show ?case by (cases "a = b") (auto simp: neq_iff)
qed auto

text \<open>What a mask byte keeps of a byte: its bits above position \<open>8 - k\<close>, as a number.\<close>

definition high :: "nat \<Rightarrow> byte \<Rightarrow> nat" where
  "high k a = unat a div 2 ^ (8 - k)"

lemma mask_byte_not: "mask_byte k = NOT (mask (8 - k))"
  by (simp add: mask_byte_def)

lemma and_mask_byte_eq: "a AND mask_byte k = b AND mask_byte k \<longleftrightarrow> high k a = high k b"
proof -
  let ?j = "8 - k"
  have "a AND mask_byte k = push_bit ?j (drop_bit ?j a)" for a
    by (rule bit_eqI) (auto simp: mask_byte_not bit_simps)
  moreover have "drop_bit ?j (push_bit ?j (drop_bit ?j a)) = drop_bit ?j a" for a :: byte
    by (rule bit_eqI) (auto simp: bit_simps dest: bit_imp_le_length)
  ultimately have "a AND mask_byte k = b AND mask_byte k \<longleftrightarrow> drop_bit ?j a = drop_bit ?j b" by metis
  moreover have "unat (drop_bit ?j a) = high k a" for a
    using unat_drop_bit_eq [of ?j a] drop_bit_eq_div [of ?j "unat a"] by (simp only: high_def)
  ultimately show ?thesis by (metis unsigned_word_eqI)
qed

lemma high_mono: "a \<le> b \<Longrightarrow> high k a \<le> high k b"
  by (simp add: high_def word_le_nat_alt div_le_mono)

lemma high_less: "a < b \<Longrightarrow> high k a \<noteq> high k b \<Longrightarrow> high k x = high k a \<Longrightarrow> x < b"
  using high_mono [of a b k] high_mono [of b x k] by (metis less_imp_le not_le order_antisym)

lemma high_greater: "b < a \<Longrightarrow> high k a \<noteq> high k b \<Longrightarrow> high k x = high k a \<Longrightarrow> b < x"
  using high_mono [of b a k] high_mono [of x b k] by (metis less_imp_le not_le order_antisym)

lemma high_full: "k \<ge> 8 \<Longrightarrow> high k a = high k b \<longleftrightarrow> a = b"
  by (simp add: high_def word_unat_eq_iff)

lemma high_zero: "high 0 a = 0"
proof -
  have "unat a < 2 ^ 8" using unsigned_less [of a] by simp
  then show ?thesis by (simp add: high_def)
qed

text \<open>Two addresses lie in the same network.\<close>

fun same_net :: "nat \<Rightarrow> bytes \<Rightarrow> bytes \<Rightarrow> bool" where
  "same_net k (a # as) (b # bs) = (high k a = high k b \<and> same_net (k - 8) as bs)"
| "same_net k as bs = (as = [] \<and> bs = [])"

lemma masked_same_net:
  "length a = n \<Longrightarrow> length b = n \<Longrightarrow> masked a (mask_bytes n k) = masked b (mask_bytes n k) \<longleftrightarrow> same_net k a b"
proof (induction n arbitrary: a b k)
  case (Suc n)
  then show ?case by (cases a; cases b) (auto simp: masked_def and_mask_byte_eq)
qed (simp add: masked_def)

lemma same_net_refl [simp]: "same_net k a a"
  by (induction a arbitrary: k) auto

lemma same_net_length: "same_net k a b \<Longrightarrow> length a = length b"
  by (induction k a b rule: same_net.induct) auto

lemma same_net_zero: "length a = length b \<Longrightarrow> same_net 0 a b"
  by (induction "0::nat" a b rule: same_net.induct) (auto simp: high_zero)

text \<open>An address outside a network lies on one side of all of it.\<close>

lemma same_net_below:
  "length a = length c \<Longrightarrow> \<not> same_net k a c \<Longrightarrow> bytes_less a c \<Longrightarrow> same_net k a x \<Longrightarrow> bytes_less x c"
proof (induction k a c arbitrary: x rule: same_net.induct)
  case (1 k a as c cs)
  obtain y ys where x: "x = y # ys" using "1.prems"(4) by (cases x) auto
  show ?case
  proof (cases "high k a = high k c")
    case False
    then have "a < c" using "1.prems"(3) by auto
    then have "y < c" using high_less [of a c k y] False "1.prems"(4) x by simp
    then show ?thesis using x by simp
  next
    case True
    then have ns: "\<not> same_net (k - 8) as cs" using "1.prems"(2) by simp
    then have "k > 8" using same_net_zero "1.prems"(1) by (cases "k \<le> 8") auto
    then have "a = c" "y = a" using True "1.prems"(4) x high_full by auto
    then show ?thesis using "1.IH" [of ys] "1.prems" ns x by auto
  qed
qed auto

lemma same_net_above:
  "length a = length c \<Longrightarrow> \<not> same_net k a c \<Longrightarrow> bytes_less c a \<Longrightarrow> same_net k a x \<Longrightarrow> bytes_less c x"
proof (induction k a c arbitrary: x rule: same_net.induct)
  case (1 k a as c cs)
  obtain y ys where x: "x = y # ys" using "1.prems"(4) by (cases x) auto
  show ?case
  proof (cases "high k a = high k c")
    case False
    then have "c < a" using "1.prems"(3) by auto
    then have "c < y" using high_greater [of c a k y] False "1.prems"(4) x by simp
    then show ?thesis using x by simp
  next
    case True
    then have ns: "\<not> same_net (k - 8) as cs" using "1.prems"(2) by simp
    then have "k > 8" using same_net_zero "1.prems"(1) by (cases "k \<le> 8") auto
    then have "a = c" "y = a" using True "1.prems"(4) x high_full by auto
    then show ?thesis using "1.IH" [of ys] "1.prems" ns x by auto
  qed
qed auto

end
