(* ===== verification/ACL_Match.thy ===== *)
theory ACL_Match
  imports Net_IP
begin

text \<open>
  The host matchers of the ACL engine (\<^verbatim>\<open>acl/matchers.go\<close>, \<^verbatim>\<open>acl/matchers_v2geo.go\<close>).

  \<^verbatim>\<open>idna.ToUnicode\<close> and compiled regular expressions are not part of the repository: the first is
  an argument, the second is carried by a matcher as the predicate it decides.
\<close>

section \<open>Hosts and matchers\<close>

record HostInfo =
  hi_Name :: string
  hi_IPv4 :: IP
  hi_IPv6 :: IP

datatype domainMode = domainMatchExact | domainMatchWildcard | domainMatchSuffix

record domainMatcher =
  dm_Pattern :: string
  dm_Mode :: domainMode

record geoipMatcher =
  gi_N4 :: "IPNet list"
  gi_N6 :: "IPNet list"
  gi_Inverse :: bool

datatype geositeDomainType = geositeDomainPlain | geositeDomainRegex | geositeDomainRoot | geositeDomainFull

record geositeDomain =
  gd_Type :: geositeDomainType
  gd_Value :: string
  gd_Regex :: "(string \<Rightarrow> bool) option"
  gd_Attrs :: "string list"

record geositeMatcher =
  gs_Domains :: "geositeDomain list"
  gs_Attrs :: "string list"

datatype hostMatcher =
    AllMatcher
  | IpMatcher IP
  | CidrMatcher IPNet
  | DomainMatcher domainMatcher
  | GeoIPMatcher geoipMatcher
  | GeositeMatcher geositeMatcher

definition ipMatcher_Match :: "IP \<Rightarrow> HostInfo \<Rightarrow> bool" where
  "ipMatcher_Match ip host \<longleftrightarrow> IP_Equal ip (hi_IPv4 host) \<or> IP_Equal ip (hi_IPv6 host)"

definition cidrMatcher_Match :: "IPNet \<Rightarrow> HostInfo \<Rightarrow> bool" where
  "cidrMatcher_Match n host \<longleftrightarrow> IPNet_Contains n (hi_IPv4 host) \<or> IPNet_Contains n (hi_IPv6 host)"

fun deepMatchRune :: "string \<Rightarrow> string \<Rightarrow> bool" where
  "deepMatchRune str [] = (str = [])"
| "deepMatchRune str (p # pattern) =
     (if p = CHR ''*'' then
        deepMatchRune str pattern \<or> (case str of [] \<Rightarrow> False | c # cs \<Rightarrow> deepMatchRune cs (p # pattern))
      else case str of [] \<Rightarrow> False | c # cs \<Rightarrow> c = p \<and> deepMatchRune cs pattern)"

definition domainMatcher_Match :: "(string \<Rightarrow> string option) \<Rightarrow> domainMatcher \<Rightarrow> HostInfo \<Rightarrow> bool" where
  "domainMatcher_Match toUnicode m host =
     (let name = (case toUnicode (hi_Name host) of None \<Rightarrow> hi_Name host | Some n \<Rightarrow> n)
      in case dm_Mode m of
           domainMatchExact \<Rightarrow> name = dm_Pattern m
         | domainMatchWildcard \<Rightarrow> deepMatchRune name (dm_Pattern m)
         | domainMatchSuffix \<Rightarrow> name = dm_Pattern m \<or> HasSuffix name (''.'' @ dm_Pattern m))"

function geo_search :: "IPNet list \<Rightarrow> IP \<Rightarrow> int \<Rightarrow> int \<Rightarrow> bool" where
  "geo_search n ip left right =
     (if left \<le> right then
        (let mid = (left + right) div 2; e = n ! nat mid
         in if IPNet_Contains e ip then True
            else if bytes_less (n_IP e) ip then geo_search n ip (mid + 1) right
            else geo_search n ip left (mid - 1))
      else False)"
  by pat_completeness auto
termination
  by (relation "measure (\<lambda>(n, ip, left, right). nat (right + 1 - left))") auto

declare geo_search.simps [simp del]

definition matchIP :: "geoipMatcher \<Rightarrow> IP \<Rightarrow> bool" where
  "matchIP m ip =
     (let ip4 = To4 ip
      in if ip4 \<noteq> [] then geo_search (gi_N4 m) ip4 0 (int (length (gi_N4 m)) - 1)
         else geo_search (gi_N6 m) ip 0 (int (length (gi_N6 m)) - 1))"

definition geoipMatcher_Match :: "geoipMatcher \<Rightarrow> HostInfo \<Rightarrow> bool" where
  "geoipMatcher_Match m host =
     (if hi_IPv4 host \<noteq> [] \<and> matchIP m (hi_IPv4 host) then \<not> gi_Inverse m
      else if hi_IPv6 host \<noteq> [] \<and> matchIP m (hi_IPv6 host) then \<not> gi_Inverse m
      else gi_Inverse m)"

definition matchDomain :: "geositeMatcher \<Rightarrow> geositeDomain \<Rightarrow> HostInfo \<Rightarrow> bool" where
  "matchDomain m domain host =
     (if gs_Attrs m \<noteq> [] \<and> (gd_Attrs domain = [] \<or> \<not> list_all (\<lambda>a. a \<in> set (gd_Attrs domain)) (gs_Attrs m))
      then False
      else case gd_Type domain of
        geositeDomainPlain \<Rightarrow> Contains (hi_Name host) (gd_Value domain)
      | geositeDomainRegex \<Rightarrow> (case gd_Regex domain of None \<Rightarrow> False | Some r \<Rightarrow> r (hi_Name host))
      | geositeDomainFull \<Rightarrow> hi_Name host = gd_Value domain
      | geositeDomainRoot \<Rightarrow> hi_Name host = gd_Value domain \<or> HasSuffix (hi_Name host) (''.'' @ gd_Value domain))"

definition geositeMatcher_Match :: "geositeMatcher \<Rightarrow> HostInfo \<Rightarrow> bool" where
  "geositeMatcher_Match m host = list_ex (\<lambda>d. matchDomain m d host) (gs_Domains m)"

fun hostMatcher_Match :: "(string \<Rightarrow> string option) \<Rightarrow> hostMatcher \<Rightarrow> HostInfo \<Rightarrow> bool" where
  "hostMatcher_Match tu AllMatcher host = True"
| "hostMatcher_Match tu (IpMatcher ip) host = ipMatcher_Match ip host"
| "hostMatcher_Match tu (CidrMatcher n) host = cidrMatcher_Match n host"
| "hostMatcher_Match tu (DomainMatcher m) host = domainMatcher_Match tu m host"
| "hostMatcher_Match tu (GeoIPMatcher m) host = geoipMatcher_Match m host"
| "hostMatcher_Match tu (GeositeMatcher m) host = geositeMatcher_Match m host"

section \<open>Building the geo matchers\<close>

text \<open>The records of the geo databases, as far as the matchers read them.\<close>

record geoCIDR =
  gc_Ip :: bytes
  gc_Prefix :: u32

record GeoIP =
  g_Cidr :: "geoCIDR list"
  g_InverseMatch :: bool

datatype geoDomainType = Domain_Plain | Domain_Regex | Domain_RootDomain | Domain_Full | Domain_Other

record geoDomain =
  gdm_Type :: geoDomainType
  gdm_Value :: string
  gdm_Attribute :: "string list"

record GeoSite =
  g_Domain :: "geoDomain list"

definition cidr_net :: "nat \<Rightarrow> geoCIDR \<Rightarrow> IPNet" where
  "cidr_net bits c = \<lparr>n_IP = gc_Ip c, n_Mask = CIDRMask (unat (gc_Prefix c)) bits\<rparr>"

text \<open>\<^verbatim>\<open>sort.Slice\<close> is not stable: \<open>sorter\<close> is any way of sorting by the address.\<close>

definition sorted_nets :: "IPNet list \<Rightarrow> bool" where
  "sorted_nets ns \<longleftrightarrow> sorted_wrt (\<lambda>a b. \<not> bytes_less (n_IP b) (n_IP a)) ns"

definition newGeoIPMatcher :: "(IPNet list \<Rightarrow> IPNet list) \<Rightarrow> GeoIP \<Rightarrow> string + geoipMatcher" where
  "newGeoIPMatcher sorter l =
     (if \<not> list_all (\<lambda>c. length (gc_Ip c) = 4 \<or> length (gc_Ip c) = 16) (g_Cidr l) then Inl ''invalid IP length''
      else Inr \<lparr>gi_N4 = sorter (map (cidr_net 32) (filter (\<lambda>c. length (gc_Ip c) = 4) (g_Cidr l))),
                gi_N6 = sorter (map (cidr_net 128) (filter (\<lambda>c. length (gc_Ip c) = 16) (g_Cidr l))),
                gi_Inverse = g_InverseMatch l\<rparr>)"

text \<open>\<open>compile\<close> is \<^verbatim>\<open>regexp.Compile\<close>. The attributes are the keys of the attribute map.\<close>

definition geosite_domain ::
  "(string \<Rightarrow> string + (string \<Rightarrow> bool)) \<Rightarrow> geoDomain \<Rightarrow> string + geositeDomain" where
  "geosite_domain compile d =
     (let mk = (\<lambda>t v r. \<lparr>gd_Type = t, gd_Value = v, gd_Regex = r, gd_Attrs = remdups (gdm_Attribute d)\<rparr>)
      in case gdm_Type d of
           Domain_Plain \<Rightarrow> Inr (mk geositeDomainPlain (gdm_Value d) None)
         | Domain_Regex \<Rightarrow>
             (case compile (gdm_Value d) of
                Inl e \<Rightarrow> Inl e
              | Inr r \<Rightarrow> Inr (mk geositeDomainRegex [] (Some r)))
         | Domain_Full \<Rightarrow> Inr (mk geositeDomainFull (gdm_Value d) None)
         | Domain_RootDomain \<Rightarrow> Inr (mk geositeDomainRoot (gdm_Value d) None)
         | Domain_Other \<Rightarrow> Inl ''unsupported domain type'')"

fun geosite_domains ::
  "(string \<Rightarrow> string + (string \<Rightarrow> bool)) \<Rightarrow> geoDomain list \<Rightarrow> string + geositeDomain list" where
  "geosite_domains compile [] = Inr []"
| "geosite_domains compile (d # ds) =
     (case geosite_domain compile d of
        Inl e \<Rightarrow> Inl e
      | Inr g \<Rightarrow> (case geosite_domains compile ds of Inl e \<Rightarrow> Inl e | Inr gs \<Rightarrow> Inr (g # gs)))"

definition newGeositeMatcher ::
  "(string \<Rightarrow> string + (string \<Rightarrow> bool)) \<Rightarrow> GeoSite \<Rightarrow> string list \<Rightarrow> string + geositeMatcher" where
  "newGeositeMatcher compile l attrs =
     (case geosite_domains compile (g_Domain l) of
        Inl e \<Rightarrow> Inl e
      | Inr ds \<Rightarrow> Inr \<lparr>gs_Domains = ds, gs_Attrs = attrs\<rparr>)"

section \<open>The wildcard matcher decides the glob language\<close>

inductive glob :: "string \<Rightarrow> string \<Rightarrow> bool" where
  glob_end: "glob [] []"
| glob_char: "glob s p \<Longrightarrow> c \<noteq> CHR ''*'' \<Longrightarrow> glob (c # s) (c # p)"
| glob_star: "glob s p \<Longrightarrow> glob (w @ s) (CHR ''*'' # p)"

inductive_cases glob_EndE: "glob s []"
inductive_cases glob_CharE: "glob s (c # p)"

lemma deepMatchRune_star:
  "deepMatchRune s (CHR ''*'' # p) \<longleftrightarrow> (\<exists>w t. s = w @ t \<and> deepMatchRune t p)"
proof (induction s)
  case (Cons c cs)
  show ?case
  proof
    assume "deepMatchRune (c # cs) (CHR ''*'' # p)"
    then show "\<exists>w t. c # cs = w @ t \<and> deepMatchRune t p"
      using Cons by (auto intro: exI [of _ "[]"] exI [of _ "c # _"] dest: Cons_eq_appendI [OF refl])
  next
    assume "\<exists>w t. c # cs = w @ t \<and> deepMatchRune t p"
    then obtain w t where w: "c # cs = w @ t" "deepMatchRune t p" by blast
    show "deepMatchRune (c # cs) (CHR ''*'' # p)"
      using w Cons by (cases w) auto
  qed
qed auto

lemma deepMatchRune_glob: "deepMatchRune s p \<longleftrightarrow> glob s p"
proof (induction p arbitrary: s)
  case Nil
  then show ?case by (auto intro: glob_end elim: glob_EndE)
next
  case (Cons c p)
  show ?case
  proof (cases "c = CHR ''*''")
    case True
    then show ?thesis using Cons deepMatchRune_star [of s p] by (auto intro: glob_star elim: glob_CharE)
  next
    case False
    then show ?thesis using Cons by (cases s) (auto intro: glob_char elim: glob_CharE)
  qed
qed

section \<open>Binary search against linear search\<close>

text \<open>A network of \<open>b\<close> bytes with a prefix of \<open>p\<close> bits, as the constructor builds it; addresses of
  the family that search compares it with.\<close>

definition family :: "nat \<Rightarrow> IP \<Rightarrow> bool" where
  "family b ip \<longleftrightarrow> length ip = b \<and> (b = 4 \<or> b = 16 \<and> To4 ip = [])"

definition wf_net :: "nat \<Rightarrow> IPNet \<Rightarrow> bool" where
  "wf_net b n \<longleftrightarrow> family b (n_IP n) \<and> list_ex (\<lambda>p. n_Mask n = mask_bytes b p) [0..<8 * b + 1]"

definition apart :: "IPNet \<Rightarrow> IPNet \<Rightarrow> bool" where
  "apart n m \<longleftrightarrow> \<not> IPNet_Contains n (n_IP m) \<and> \<not> IPNet_Contains m (n_IP n)"

lemma length_mask_bytes [simp]: "length (mask_bytes n k) = n"
  by (induction n arbitrary: k) auto

lemma wf_net_contains:
  assumes "wf_net b n"
  obtains p where "\<And>ip. family b ip \<Longrightarrow> IPNet_Contains n ip \<longleftrightarrow> same_net p (n_IP n) ip"
proof -
  obtain p where p: "n_Mask n = mask_bytes b p" and f: "family b (n_IP n)"
    using assms by (auto simp: wf_net_def list_ex_iff)
  have "IPNet_Contains n ip \<longleftrightarrow> same_net p (n_IP n) ip" if "family b ip" for ip
  proof -
    have ip: "(if To4 x \<noteq> [] then To4 x else x) = x" if "family b x" for x
      using that by (auto simp: family_def To4_def)
    have "b = 4 \<Longrightarrow> To4 (n_IP n) \<noteq> []" using f by (auto simp: family_def To4_def)
    then have "networkNumberAndMask n = (n_IP n, mask_bytes b p)"
      using f ip [OF f] p by (auto simp: networkNumberAndMask_def family_def Let_def)
    then show ?thesis using f that ip [OF that] masked_same_net [of "n_IP n" b ip p]
      by (simp add: IPNet_Contains_def family_def)
  qed
  then show thesis by (rule that)
qed

lemma contains_below:
  assumes "wf_net b n" "family b c" "family b x" "\<not> IPNet_Contains n c" "bytes_less (n_IP n) c" "IPNet_Contains n x"
  shows "bytes_less x c"
proof -
  obtain p where p: "\<And>ip. family b ip \<Longrightarrow> IPNet_Contains n ip \<longleftrightarrow> same_net p (n_IP n) ip"
    using wf_net_contains [OF assms(1)] by blast
  have "length (n_IP n) = length c" using assms(1,2) by (simp add: wf_net_def family_def)
  then show ?thesis using same_net_below [of "n_IP n" c p x] p assms by simp
qed

lemma contains_above:
  assumes "wf_net b n" "family b c" "family b x" "\<not> IPNet_Contains n c" "bytes_less c (n_IP n)" "IPNet_Contains n x"
  shows "bytes_less c x"
proof -
  obtain p where p: "\<And>ip. family b ip \<Longrightarrow> IPNet_Contains n ip \<longleftrightarrow> same_net p (n_IP n) ip"
    using wf_net_contains [OF assms(1)] by blast
  have "length (n_IP n) = length c" using assms(1,2) by (simp add: wf_net_def family_def)
  then show ?thesis using same_net_above [of "n_IP n" c p x] p assms by simp
qed

lemma contains_self: "wf_net b n \<Longrightarrow> IPNet_Contains n (n_IP n)"
  using wf_net_contains [of b n] same_net_refl by (metis wf_net_def)

text \<open>In a sorted list of separate networks, the network that holds an address lies on the side
  the comparison picks.\<close>

lemma geo_side:
  assumes wf: "wf_net b n" "wf_net b m" and ip: "family b ip" "IPNet_Contains m ip" and ap: "apart n m"
  shows "bytes_less (n_IP n) ip \<longleftrightarrow> bytes_less (n_IP n) (n_IP m)"
proof -
  have fam: "family b (n_IP n)" "family b (n_IP m)" using wf by (simp_all add: wf_net_def)
  have out: "\<not> IPNet_Contains m (n_IP n)" using ap by (simp add: apart_def)
  have ne: "n_IP n \<noteq> n_IP m" using out contains_self [OF wf(2)] by auto
  then consider "bytes_less (n_IP n) (n_IP m)" | "bytes_less (n_IP m) (n_IP n)"
    using bytes_less_total [of "n_IP n" "n_IP m"] fam by (auto simp: family_def)
  then show ?thesis
  proof cases
    case 1
    then show ?thesis using contains_above [OF wf(2) fam(1) ip(1) out _ ip(2)] by simp
  next
    case 2
    then have "bytes_less ip (n_IP n)" using contains_below [OF wf(2) fam(1) ip(1) out _ ip(2)] by simp
    then show ?thesis using 2 bytes_less_trans bytes_less_irrefl by blast
  qed
qed


lemma geo_search_sound: "geo_search ns ip left right \<Longrightarrow> 0 \<le> left \<Longrightarrow> right < int (length ns) \<Longrightarrow>
    \<exists>n \<in> set ns. IPNet_Contains n ip"
proof (induction ns ip left right rule: geo_search.induct)
  case (1 ns ip left right)
  define mid where "mid = (left + right) div 2"
  have le: "left \<le> right" using "1.prems"(1) by (auto simp: geo_search.simps [of ns ip left right] split: if_splits)
  then have mid: "left \<le> mid" "mid \<le> right" by (auto simp: mid_def)
  note st = geo_search.simps [of ns ip left right, folded mid_def]
  show ?case
  proof (cases "IPNet_Contains (ns ! nat mid) ip")
    case True
    then show ?thesis using mid "1.prems" by (intro bexI [of _ "ns ! nat mid"]) auto
  next
    case False
    then show ?thesis using "1.IH" [OF le mid_def refl False] "1.prems" mid le st by (auto simp: Let_def split: if_splits)
  qed
qed

lemma geo_search_complete:
  assumes "\<forall>n \<in> set ns. wf_net b n" and "sorted_nets ns"
    and "\<forall>i < length ns. \<forall>j < length ns. i \<noteq> j \<longrightarrow> apart (ns ! i) (ns ! j)"
    and "family b ip" and "IPNet_Contains (ns ! t) ip" and "t < length ns"
    and "0 \<le> left" "right < int (length ns)" "left \<le> int t" "int t \<le> right"
  shows "geo_search ns ip left right"
  using assms
proof (induction ns ip left right rule: geo_search.induct)
  case (1 ns ip left right)
  define mid where "mid = (left + right) div 2"
  have le: "left \<le> right" using "1.prems"(9,10) by simp
  then have mid: "left \<le> mid" "mid \<le> right" by (auto simp: mid_def)
  note st = geo_search.simps [of ns ip left right, folded mid_def]
  show ?case
  proof (cases "IPNet_Contains (ns ! nat mid) ip")
    case True
    then show ?thesis using st le by (simp add: Let_def)
  next
    case False
    let ?m = "nat mid"
    have m: "?m < length ns" "?m \<noteq> t" using mid "1.prems" False by auto
    have side: "bytes_less (n_IP (ns ! ?m)) ip \<longleftrightarrow> bytes_less (n_IP (ns ! ?m)) (n_IP (ns ! t))"
      using geo_side [of b "ns ! ?m" "ns ! t" ip] "1.prems"(1,3,4,5,6) m by simp
    have ord: "i < j \<Longrightarrow> j < length ns \<Longrightarrow> \<not> bytes_less (n_IP (ns ! j)) (n_IP (ns ! i))" for i j
      using "1.prems"(2) by (simp add: sorted_nets_def sorted_wrt_iff_nth_less)
    have ne: "n_IP (ns ! ?m) \<noteq> n_IP (ns ! t)"
      using "1.prems"(1,3,6) m contains_self [of b "ns ! t"] by (metis apart_def nth_mem)
    have len: "length (n_IP (ns ! ?m)) = length (n_IP (ns ! t))"
      using "1.prems"(1,6) m by (simp add: wf_net_def family_def)
    show ?thesis
    proof (cases "?m < t")
      case True
      then have "bytes_less (n_IP (ns ! ?m)) ip"
        using side ord [OF True "1.prems"(6)] bytes_less_total [OF len ne] by blast
      moreover have "geo_search ns ip (mid + 1) right"
        using "1.IH"(1) [OF le mid_def refl False calculation "1.prems"(1-6)] "1.prems"(7-10) mid True by auto
      ultimately show ?thesis using st le False by (simp add: Let_def)
    next
      case F: False
      then have "\<not> bytes_less (n_IP (ns ! ?m)) ip" using side ord [of t ?m] m by auto
      moreover have "geo_search ns ip left (mid - 1)"
        using "1.IH"(2) [OF le mid_def refl False calculation "1.prems"(1-6)] "1.prems"(7-10) mid F m by auto
      ultimately show ?thesis using st le False by (simp add: Let_def)
    qed
  qed
qed

definition separate :: "IPNet list \<Rightarrow> bool" where
  "separate ns \<longleftrightarrow> list_all (\<lambda>i. list_all (\<lambda>j. i = j \<or> apart (ns ! i) (ns ! j)) [0..<length ns]) [0..<length ns]"

lemma geo_search_linear:
  assumes "list_all (wf_net b) ns" and "sorted_nets ns" and "separate ns" and "family b ip"
  shows "geo_search ns ip 0 (int (length ns) - 1) \<longleftrightarrow> list_ex (\<lambda>n. IPNet_Contains n ip) ns"
proof
  show "geo_search ns ip 0 (int (length ns) - 1) \<Longrightarrow> list_ex (\<lambda>n. IPNet_Contains n ip) ns"
    using geo_search_sound [of ns ip 0 "int (length ns) - 1"] by (simp add: list_ex_iff)
  assume "list_ex (\<lambda>n. IPNet_Contains n ip) ns"
  then obtain t where t: "t < length ns" "IPNet_Contains (ns ! t) ip" by (auto simp: list_ex_iff in_set_conv_nth)
  have "\<forall>i < length ns. \<forall>j < length ns. i \<noteq> j \<longrightarrow> apart (ns ! i) (ns ! j)"
    using assms(3) by (simp add: separate_def list_all_iff Ball_def) blast
  then show "geo_search ns ip 0 (int (length ns) - 1)"
    using geo_search_complete [of ns b ip t 0 "int (length ns) - 1"] assms t by (simp add: list_all_iff)
qed

text \<open>C25. The binary search over a country's networks finds a network exactly when a linear search
  would, whatever order \<^verbatim>\<open>sort.Slice\<close> leaves equal addresses in, provided the networks are well
  formed and none contains another's base address.\<close>

theorem geoip_binary_search_correct:
  assumes "list_all (wf_net 4) (gi_N4 m)" and "sorted_nets (gi_N4 m)" and "separate (gi_N4 m)"
    and "list_all (wf_net 16) (gi_N6 m)" and "sorted_nets (gi_N6 m)" and "separate (gi_N6 m)"
    and "length ip = 4 \<or> length ip = 16"
  shows "matchIP m ip =
    (if To4 ip \<noteq> [] then list_ex (\<lambda>n. IPNet_Contains n (To4 ip)) (gi_N4 m)
     else list_ex (\<lambda>n. IPNet_Contains n ip) (gi_N6 m))"
proof (cases "To4 ip = []")
  case True
  then have "family 16 ip" using assms(7) by (auto simp: family_def To4_def split: if_splits)
  then show ?thesis using True geo_search_linear [OF assms(4-6)] by (simp add: matchIP_def)
next
  case False
  then have "family 4 (To4 ip)" by (auto simp: family_def To4_def split: if_splits)
  then show ?thesis using False geo_search_linear [OF assms(1-3)] by (simp add: matchIP_def)
qed

theorem geoip_binary_search_correct_witness:
  "matchIP \<lparr>gi_N4 = [\<lparr>n_IP = [10, 0, 0, 0], n_Mask = mask_bytes 4 8\<rparr>,
     \<lparr>n_IP = [172, 16, 0, 0], n_Mask = mask_bytes 4 12\<rparr>], gi_N6 = [], gi_Inverse = False\<rparr> [172, 31, 1, 1]"
proof -
  let ?ns = "[\<lparr>n_IP = [10, 0, 0, 0], n_Mask = mask_bytes 4 8\<rparr>, \<lparr>n_IP = [172, 16, 0, 0], n_Mask = mask_bytes 4 12\<rparr>]"
  have "list_all (wf_net 4) ?ns" "sorted_nets ?ns" "separate ?ns"
      "list_ex (\<lambda>n. IPNet_Contains n [172, 31, 1, 1]) ?ns"
    by code_simp+
  then show ?thesis
    using geoip_binary_search_correct [of "\<lparr>gi_N4 = ?ns, gi_N6 = [], gi_Inverse = False\<rparr>" "[172, 31, 1, 1]"]
    by (simp add: sorted_nets_def separate_def To4_def)
qed

text \<open>Without that proviso the search misses: with three nested networks, an address of the
  outermost one is not found.\<close>

lemma geoip_nested_miss:
  "let ns = [\<lparr>n_IP = [10, 0, 0, 0], n_Mask = mask_bytes 4 8\<rparr>, \<lparr>n_IP = [10, 1, 0, 0], n_Mask = mask_bytes 4 16\<rparr>,
             \<lparr>n_IP = [10, 2, 0, 0], n_Mask = mask_bytes 4 16\<rparr>];
       m = \<lparr>gi_N4 = ns, gi_N6 = [], gi_Inverse = False\<rparr>
   in sorted_nets ns \<and> list_ex (\<lambda>n. IPNet_Contains n [10, 200, 0, 1]) ns \<and> \<not> matchIP m [10, 200, 0, 1]"
  by code_simp

section \<open>What every matcher promises\<close>

text \<open>Hosts that no matcher may tell apart: the same name and the same addresses, whether written
  in 4 or in 16 bytes.\<close>

definition same_host :: "HostInfo \<Rightarrow> HostInfo \<Rightarrow> bool" where
  "same_host a b \<longleftrightarrow> hi_Name a = hi_Name b \<and> Unmap (hi_IPv4 a) = Unmap (hi_IPv4 b) \<and>
     Unmap (hi_IPv6 a) = Unmap (hi_IPv6 b)"

locale host_matcher =
  fixes hmatch :: "'m \<Rightarrow> HostInfo \<Rightarrow> bool"
  assumes respects: "same_host a b \<Longrightarrow> hmatch m a = hmatch m b"
begin

lemma find_respects: "same_host a b \<Longrightarrow> find (\<lambda>r. P r \<and> hmatch (sel r) a) rs = find (\<lambda>r. P r \<and> hmatch (sel r) b) rs"
  by (induction rs) (use respects in auto)

end

lemma To4_length: "To4 a \<noteq> [] \<Longrightarrow> length (To4 a) = 4"
  by (auto simp: To4_def split: if_splits)

lemma To4_Unmap: "Unmap a = Unmap b \<Longrightarrow> To4 a = To4 b"
proof -
  have "To4 a = (if length (Unmap a) = 4 then Unmap a else [])" for a
    using To4_length [of a] by (auto simp: Unmap_def) (simp add: To4_def)
  then show "Unmap a = Unmap b \<Longrightarrow> To4 a = To4 b" by simp
qed

lemma Unmap_Nil: "Unmap a = [] \<longleftrightarrow> a = []"
  by (auto simp: Unmap_def To4_def)

lemma mapped_split: "take 12 b = p \<Longrightarrow> b = p @ drop 12 b"
  by (metis append_take_drop_id)

lemma Unmap_cases:
  assumes "Unmap a = Unmap b" and "a \<noteq> b"
  shows "length a = 4 \<and> b = v4InV6Prefix @ a \<or> length b = 4 \<and> a = v4InV6Prefix @ b"
proof -
  have u: "Unmap x = x \<or> length (Unmap x) = 4 \<and> x = v4InV6Prefix @ Unmap x" for x
    using mapped_split [of x v4InV6Prefix] by (auto simp: Unmap_def To4_def)
  show ?thesis using u [of a] u [of b] assms by auto
qed

lemma length_v4InV6Prefix [simp]: "length v4InV6Prefix = 12"
  by (simp add: v4InV6Prefix_def)

lemma IP_Equal_mapped: "length a = 4 \<Longrightarrow> IP_Equal m (v4InV6Prefix @ a) = IP_Equal m a"
  using mapped_split [of m v4InV6Prefix] by (auto simp: IP_Equal_def)

lemma IP_Equal_Unmap: "Unmap a = Unmap b \<Longrightarrow> IP_Equal m a = IP_Equal m b"
  by (metis Unmap_cases IP_Equal_mapped)

lemma Contains_Unmap: "Unmap a = Unmap b \<Longrightarrow> IPNet_Contains n a = IPNet_Contains n b"
  by (simp only: IPNet_Contains_def Unmap_def)

lemma matchIP_Unmap: "Unmap a = Unmap b \<Longrightarrow> matchIP m a = matchIP m b"
  using To4_Unmap [of a b] unfolding matchIP_def Unmap_def Let_def by (metis (full_types))

interpretation ip: host_matcher ipMatcher_Match
  by unfold_locales (metis same_host_def ipMatcher_Match_def IP_Equal_Unmap)

interpretation cidr: host_matcher cidrMatcher_Match
  by unfold_locales (metis same_host_def cidrMatcher_Match_def Contains_Unmap)

interpretation domain: host_matcher "domainMatcher_Match tu" for tu
  by unfold_locales (simp only: same_host_def domainMatcher_Match_def)

interpretation geoip: host_matcher geoipMatcher_Match
proof
  fix a b m
  assume "same_host a b"
  then have "hi_IPv4 a = [] \<longleftrightarrow> hi_IPv4 b = []" "hi_IPv6 a = [] \<longleftrightarrow> hi_IPv6 b = []"
      "matchIP m (hi_IPv4 a) = matchIP m (hi_IPv4 b)" "matchIP m (hi_IPv6 a) = matchIP m (hi_IPv6 b)"
    using Unmap_Nil matchIP_Unmap unfolding same_host_def by metis+
  then show "geoipMatcher_Match m a = geoipMatcher_Match m b" by (simp add: geoipMatcher_Match_def)
qed

interpretation geosite: host_matcher geositeMatcher_Match
  by unfold_locales (simp only: same_host_def geositeMatcher_Match_def matchDomain_def)

interpretation hosts: host_matcher "hostMatcher_Match tu" for tu
proof
  fix a b m
  assume s: "same_host a b"
  show "hostMatcher_Match tu m a = hostMatcher_Match tu m b"
    by (cases m) (use s ip.respects cidr.respects domain.respects geoip.respects geosite.respects in auto)
qed

section \<open>Claims about patterns\<close>

text \<open>C27. A wildcard pattern accepts exactly the names of its glob language, in which a star stands for
  any run of characters, dots included, and every other character for itself.\<close>

theorem wildcard_is_glob:
  "domainMatcher_Match tu \<lparr>dm_Pattern = p, dm_Mode = domainMatchWildcard\<rparr> h \<longleftrightarrow>
     glob (case tu (hi_Name h) of None \<Rightarrow> hi_Name h | Some n \<Rightarrow> n) p"
  by (simp add: domainMatcher_Match_def deepMatchRune_glob)

text \<open>A suffix rule accepts the domain itself and everything below a dot, and nothing else.\<close>

theorem suffix_is_subdomain:
  "domainMatcher_Match tu \<lparr>dm_Pattern = p, dm_Mode = domainMatchSuffix\<rparr> h \<longleftrightarrow>
     (let n = (case tu (hi_Name h) of None \<Rightarrow> hi_Name h | Some n \<Rightarrow> n)
      in n = p \<or> (\<exists>sub. n = sub @ ''.'' @ p))"
proof -
  have "HasSuffix n (''.'' @ p) \<longleftrightarrow> (\<exists>sub. n = sub @ ''.'' @ p)" for n
    by (auto simp: HasSuffix_append)
  then show ?thesis by (simp add: domainMatcher_Match_def Let_def)
qed

end
