(* ===== verification/ACL_Rules.thy ===== *)
theory ACL_Rules
  imports ACL_Match
begin

text \<open>
  ACL rules from text to decision (\<^verbatim>\<open>acl/parse.go\<close>, \<^verbatim>\<open>acl/compile.go\<close>, \<^verbatim>\<open>acl/engine.go\<close>).

  The LRU cache is a third-party package: its operations are parameters, and \<open>lru_documented\<close> is
  what the code relies on, namely that a lookup returns what was last added under the key or
  nothing. Databases come from a \<^verbatim>\<open>GeoLoader\<close>, an argument.
\<close>

section \<open>Parsing\<close>

record TextRule =
  tr_Outbound :: string
  tr_Address :: string
  tr_ProtoPort :: string
  tr_HijackAddress :: string
  tr_LineNum :: nat

definition is_word :: "char \<Rightarrow> bool" where
  "is_word c \<longleftrightarrow> (let n = of_char c :: nat
     in 48 \<le> n \<and> n \<le> 57 \<or> 65 \<le> n \<and> n \<le> 90 \<or> 97 \<le> n \<and> n \<le> 122 \<or> n = 95)"

text \<open>
  The match of \<^verbatim>\<open>^(\w+)\s*\(([^,]+)(?:,([^,]+))?(?:,([^,]+))?\)$\<close>: the word and the one to three
  arguments. The pattern is unambiguous, so taking the longest word and the last parenthesis is
  what the regular expression does.
\<close>

definition linePattern :: "string \<Rightarrow> (string \<times> string list) option" where
  "linePattern line =
     (let w = takeWhile is_word line; r = dropWhile is_re_space (dropWhile is_word line)
      in if w = [] \<or> r = [] \<or> hd r \<noteq> CHR ''('' \<or> length r < 2 \<or> last r \<noteq> CHR '')'' then None
         else let args = Split (CHR '','') (butlast (tl r))
              in if length args \<le> 3 \<and> list_all (\<lambda>a. a \<noteq> []) args then Some (w, args) else None)"

definition arg :: "string list \<Rightarrow> nat \<Rightarrow> string" where
  "arg args i = (if i < length args then TrimSpace (args ! i) else '''')"

definition parseLine :: "string \<Rightarrow> nat \<Rightarrow> TextRule option" where
  "parseLine line num =
     (case linePattern line of
        None \<Rightarrow> None
      | Some (w, args) \<Rightarrow>
          Some \<lparr>tr_Outbound = w, tr_Address = arg args 0, tr_ProtoPort = arg args 1,
                tr_HijackAddress = arg args 2, tr_LineNum = num\<rparr>)"

definition stripLine :: "string \<Rightarrow> string" where
  "stripLine line = TrimSpace (takeWhile (\<lambda>c. c \<noteq> CHR ''#'') line)"

datatype acl_error = InvalidSyntax string nat | CompilationError nat string | NoDefaultOutbound | GeneralError string

fun parse_lines :: "nat \<Rightarrow> string list \<Rightarrow> acl_error + TextRule list" where
  "parse_lines n [] = Inr []"
| "parse_lines n (l # ls) =
     (let line = stripLine l
      in if line = [] then parse_lines (Suc n) ls
         else case parseLine line (Suc n) of
           None \<Rightarrow> Inl (InvalidSyntax line (Suc n))
         | Some r \<Rightarrow> (case parse_lines (Suc n) ls of Inl e \<Rightarrow> Inl e | Inr rs \<Rightarrow> Inr (r # rs)))"

definition ParseTextRules :: "string \<Rightarrow> acl_error + TextRule list" where
  "ParseTextRules s = parse_lines 0 (Split (CHR 0x0A) s)"

section \<open>Compiling\<close>

datatype Protocol = ProtocolBoth | ProtocolTCP | ProtocolUDP

definition parse_port :: "string \<Rightarrow> (u16 \<times> u16) option" where
  "parse_port p =
     (let ports = SplitN2 (CHR ''-'') (TrimSpace p)
      in if length ports = 1 then
           (case ParseUint 16 p of None \<Rightarrow> None | Some n \<Rightarrow> Some (word_of_nat n, word_of_nat n))
         else (case ParseUint 16 (ports ! 0) of
             None \<Rightarrow> None
           | Some a \<Rightarrow>
               (case ParseUint 16 (ports ! 1) of
                  None \<Rightarrow> None
                | Some b \<Rightarrow> if (word_of_nat a :: u16) > word_of_nat b then None
                            else Some (word_of_nat a, word_of_nat b))))"

definition parseProtoPort :: "string \<Rightarrow> (Protocol \<times> u16 \<times> u16) option" where
  "parseProtoPort s =
     (let protoPort = ToLower s
      in if protoPort = '''' \<or> protoPort = ''*'' \<or> protoPort = ''*/*'' then Some (ProtocolBoth, 0, 0)
         else let parts = SplitN2 (CHR ''/'') protoPort
              in if length parts = 1 then
                   (if parts ! 0 = ''tcp'' then Some (ProtocolTCP, 0, 0)
                    else if parts ! 0 = ''udp'' then Some (ProtocolUDP, 0, 0) else None)
                 else case (if parts ! 0 = ''tcp'' then Some ProtocolTCP
                            else if parts ! 0 = ''udp'' then Some ProtocolUDP
                            else if parts ! 0 = ''*'' then Some ProtocolBoth else None) of
                   None \<Rightarrow> None
                 | Some proto \<Rightarrow>
                     if parts ! 1 \<noteq> ''*'' then
                       (case parse_port (parts ! 1) of None \<Rightarrow> None | Some (a, b) \<Rightarrow> Some (proto, a, b))
                     else Some (proto, 0, 0))"

definition parseGeoSiteName :: "string \<Rightarrow> string \<times> string list" where
  "parseGeoSiteName s =
     (let parts = Split (CHR ''@'') s in (TrimSpace (hd parts), map TrimSpace (tl parts)))"

text \<open>What compiling a rule takes from outside: the loader of the databases, the sorting of
  networks, and \<^verbatim>\<open>regexp.Compile\<close>.\<close>

record geo_env =
  ge_LoadGeoIP :: "string + (string \<times> GeoIP) list"
  ge_LoadGeoSite :: "string + (string \<times> GeoSite) list"
  ge_sort :: "IPNet list \<Rightarrow> IPNet list"
  ge_regexp :: "string \<Rightarrow> string + (string \<Rightarrow> bool)"

definition normalizeHost :: "string \<Rightarrow> string" where
  "normalizeHost s = TrimRight (ToLower s) (CHR ''.'')"

definition compile_geoip :: "geo_env \<Rightarrow> string \<Rightarrow> string + hostMatcher" where
  "compile_geoip ge country =
     (if country = [] then Inl ''empty GeoIP country code''
      else case ge_LoadGeoIP ge of
        Inl e \<Rightarrow> Inl e
      | Inr gMap \<Rightarrow>
          (case map_of gMap country of
             None \<Rightarrow> Inl (''GeoIP country code '' @ country @ '' not found'')
           | Some l \<Rightarrow> (case newGeoIPMatcher (ge_sort ge) l of Inl e \<Rightarrow> Inl e | Inr m \<Rightarrow> Inr (GeoIPMatcher m))))"

definition compile_geosite :: "geo_env \<Rightarrow> string \<Rightarrow> string + hostMatcher" where
  "compile_geosite ge s =
     (let (name, attrs) = parseGeoSiteName s
      in if name = [] then Inl ''empty GeoSite name''
         else case ge_LoadGeoSite ge of
           Inl e \<Rightarrow> Inl e
         | Inr gMap \<Rightarrow>
             (case map_of gMap name of
                None \<Rightarrow> Inl (''GeoSite name '' @ name @ '' not found'')
              | Some l \<Rightarrow>
                  (case newGeositeMatcher (ge_regexp ge) l attrs of
                     Inl e \<Rightarrow> Inl e
                   | Inr m \<Rightarrow> Inr (GeositeMatcher m))))"

definition compileHostMatcher :: "geo_env \<Rightarrow> string \<Rightarrow> string + hostMatcher" where
  "compileHostMatcher ge address =
     (let addr = normalizeHost address
      in if addr = ''*'' \<or> addr = ''all'' then Inr AllMatcher
         else if HasPrefix addr ''geoip:'' then compile_geoip ge (drop 6 addr)
         else if HasPrefix addr ''geosite:'' then compile_geosite ge (drop 8 addr)
         else if HasPrefix addr ''suffix:'' then
           (if drop 7 addr = [] then Inl ''empty domain suffix''
            else Inr (DomainMatcher \<lparr>dm_Pattern = drop 7 addr, dm_Mode = domainMatchSuffix\<rparr>))
         else if Contains addr ''/'' then
           (case ParseCIDR addr of
              None \<Rightarrow> Inl (''invalid CIDR address: '' @ addr)
            | Some n \<Rightarrow> Inr (CidrMatcher n))
         else if ParseIP addr \<noteq> [] then Inr (IpMatcher (ParseIP addr))
         else if Contains addr ''*'' then Inr (DomainMatcher \<lparr>dm_Pattern = addr, dm_Mode = domainMatchWildcard\<rparr>)
         else Inr (DomainMatcher \<lparr>dm_Pattern = addr, dm_Mode = domainMatchExact\<rparr>))"

record 'o compiledRule =
  cr_Outbound :: 'o
  cr_HostMatcher :: hostMatcher
  cr_Protocol :: Protocol
  cr_StartPort :: u16
  cr_EndPort :: u16
  cr_HijackAddress :: IP

definition compile_rule :: "geo_env \<Rightarrow> (string \<times> 'o) list \<Rightarrow> TextRule \<Rightarrow> acl_error + 'o compiledRule" where
  "compile_rule ge outbounds rule =
     (case map_of outbounds (ToLower (tr_Outbound rule)) of
        None \<Rightarrow> Inl (CompilationError (tr_LineNum rule) (''outbound '' @ tr_Outbound rule @ '' not found''))
      | Some ob \<Rightarrow>
          (case compileHostMatcher ge (tr_Address rule) of
             Inl e \<Rightarrow> Inl (CompilationError (tr_LineNum rule) e)
           | Inr hm \<Rightarrow>
               (case parseProtoPort (tr_ProtoPort rule) of
                  None \<Rightarrow> Inl (CompilationError (tr_LineNum rule) (''invalid protocol/port: '' @ tr_ProtoPort rule))
                | Some (proto, startPort, endPort) \<Rightarrow>
                    (let mk = (\<lambda>h. \<lparr>cr_Outbound = ob, cr_HostMatcher = hm, cr_Protocol = proto,
                                    cr_StartPort = startPort, cr_EndPort = endPort, cr_HijackAddress = h\<rparr>)
                     in if tr_HijackAddress rule \<noteq> '''' then
                          (if ParseIP (tr_HijackAddress rule) = []
                           then Inl (CompilationError (tr_LineNum rule)
                             (''invalid hijack address (must be an IP address): '' @ tr_HijackAddress rule))
                           else Inr (mk (ParseIP (tr_HijackAddress rule))))
                        else Inr (mk [])))))"

fun compile_rules :: "geo_env \<Rightarrow> (string \<times> 'o) list \<Rightarrow> TextRule list \<Rightarrow> acl_error + 'o compiledRule list" where
  "compile_rules ge outbounds [] = Inr []"
| "compile_rules ge outbounds (r # rs) =
     (case compile_rule ge outbounds r of
        Inl e \<Rightarrow> Inl e
      | Inr c \<Rightarrow> (case compile_rules ge outbounds rs of Inl e \<Rightarrow> Inl e | Inr cs \<Rightarrow> Inr (c # cs)))"

section \<open>Matching\<close>

definition compiledRule_Match ::
  "(string \<Rightarrow> string option) \<Rightarrow> 'o compiledRule \<Rightarrow> HostInfo \<Rightarrow> Protocol \<Rightarrow> u16 \<Rightarrow> bool" where
  "compiledRule_Match tu r host proto port =
     (if cr_Protocol r \<noteq> ProtocolBoth \<and> cr_Protocol r \<noteq> proto then False
      else if cr_StartPort r \<noteq> 0 \<and> (port < cr_StartPort r \<or> port > cr_EndPort r) then False
      else hostMatcher_Match tu (cr_HostMatcher r) host)"

text \<open>\<open>None\<close> is the result of a request that no rule matches.\<close>

type_synonym 'o matchResult = "('o \<times> IP) option"

type_synonym cacheKey = "string \<times> Protocol \<times> u16"

record ('o, 'c) lru =
  lru_New :: 'c
  lru_Get :: "cacheKey \<Rightarrow> 'c \<Rightarrow> 'o matchResult option \<times> 'c"
  lru_Add :: "cacheKey \<Rightarrow> 'o matchResult \<Rightarrow> 'c \<Rightarrow> 'c"

record ('o, 'c) compiledRuleSet =
  rs_Rules :: "'o compiledRule list"
  rs_Cache :: 'c

text \<open>\<open>ipString\<close> is \<^verbatim>\<open>net.IP.String\<close>.\<close>

definition HostInfo_String :: "(IP \<Rightarrow> string) \<Rightarrow> HostInfo \<Rightarrow> string" where
  "HostInfo_String ipString h = hi_Name h @ ''|'' @ ipString (hi_IPv4 h) @ ''|'' @ ipString (hi_IPv6 h)"

definition first_match ::
  "(string \<Rightarrow> string option) \<Rightarrow> 'o compiledRule list \<Rightarrow> HostInfo \<Rightarrow> Protocol \<Rightarrow> u16 \<Rightarrow> 'o matchResult" where
  "first_match tu rules host proto port =
     (case find (\<lambda>r. compiledRule_Match tu r host proto port) rules of
        None \<Rightarrow> None
      | Some r \<Rightarrow> Some (cr_Outbound r, cr_HijackAddress r))"

definition RuleSet_Match ::
  "('o, 'c) lru \<Rightarrow> (IP \<Rightarrow> string) \<Rightarrow> (string \<Rightarrow> string option) \<Rightarrow> ('o, 'c) compiledRuleSet \<Rightarrow> HostInfo \<Rightarrow> Protocol \<Rightarrow> u16
   \<Rightarrow> ('o, 'c) compiledRuleSet \<times> 'o matchResult" where
  "RuleSet_Match lru ipString tu s host0 proto port =
     (let host = host0\<lparr>hi_Name := normalizeHost (hi_Name host0)\<rparr>;
          key = (HostInfo_String ipString host, proto, port)
      in case lru_Get lru key (rs_Cache s) of
           (Some result, c) \<Rightarrow> (s\<lparr>rs_Cache := c\<rparr>, result)
         | (None, c) \<Rightarrow>
             (let result = first_match tu (rs_Rules s) host proto port
              in (s\<lparr>rs_Cache := lru_Add lru key result c\<rparr>, result)))"

section \<open>The engine\<close>

record ('o, 'c) Engine =
  en_RuleSet :: "('o, 'c) compiledRuleSet"
  en_Default :: 'o

definition Compile ::
  "('o, 'c) lru \<Rightarrow> geo_env \<Rightarrow> TextRule list \<Rightarrow> (string \<times> 'o) list \<Rightarrow> acl_error + ('o, 'c) compiledRuleSet" where
  "Compile lru ge rules outbounds =
     (case compile_rules ge outbounds rules of
        Inl e \<Rightarrow> Inl e
      | Inr cs \<Rightarrow> Inr \<lparr>rs_Rules = cs, rs_Cache = lru_New lru\<rparr>)"

definition NewEngineFromString ::
  "('o, 'c) lru \<Rightarrow> geo_env \<Rightarrow> string \<Rightarrow> (string \<times> 'o) list \<Rightarrow> acl_error + ('o, 'c) Engine" where
  "NewEngineFromString lru ge rules outbounds =
     (case map_of outbounds ''default'' of
        None \<Rightarrow> Inl NoDefaultOutbound
      | Some d \<Rightarrow>
          (case ParseTextRules rules of
             Inl e \<Rightarrow> Inl e
           | Inr trs \<Rightarrow>
               (case Compile lru ge trs outbounds of
                  Inl e \<Rightarrow> Inl e
                | Inr rs \<Rightarrow> Inr \<lparr>en_RuleSet = rs, en_Default = d\<rparr>)))"

definition NewEngineFromFile ::
  "('o, 'c) lru \<Rightarrow> geo_env \<Rightarrow> string + string \<Rightarrow> (string \<times> 'o) list \<Rightarrow> acl_error + ('o, 'c) Engine" where
  "NewEngineFromFile lru ge contents outbounds =
     (case contents of
        Inl e \<Rightarrow> Inl (GeneralError e)
      | Inr bs \<Rightarrow> NewEngineFromString lru ge bs outbounds)"

definition Engine_Lookup ::
  "('o, 'c) lru \<Rightarrow> (IP \<Rightarrow> string) \<Rightarrow> (string \<Rightarrow> string option) \<Rightarrow> ('o, 'c) Engine \<Rightarrow> string \<Rightarrow> IP \<Rightarrow> IP \<Rightarrow> Protocol \<Rightarrow> u16
   \<Rightarrow> ('o, 'c) Engine \<times> 'o \<times> IP" where
  "Engine_Lookup lru ipString tu e host ipv4 ipv6 proto port =
     (case RuleSet_Match lru ipString tu (en_RuleSet e)
             \<lparr>hi_Name = host, hi_IPv4 = ipv4, hi_IPv6 = ipv6\<rparr> proto port of
        (rs, None) \<Rightarrow> (e\<lparr>en_RuleSet := rs\<rparr>, en_Default e, [])
      | (rs, Some (ob, hijack)) \<Rightarrow> (e\<lparr>en_RuleSet := rs\<rparr>, ob, hijack))"

section \<open>The line syntax\<close>

lemma takeWhile_word: "list_all P w \<Longrightarrow> (r = [] \<or> \<not> P (hd r)) \<Longrightarrow> takeWhile P (w @ r) = w \<and> dropWhile P (w @ r) = r"
  by (induction w) (auto, (cases r; auto)+)

lemma word_not_space: "is_word c \<Longrightarrow> \<not> is_re_space c"
  by (auto simp: is_word_def is_re_space_def Let_def)

lemma paren_not_word: "\<not> is_word (CHR ''('')" "\<not> is_re_space (CHR ''('')"
  by code_simp+

lemma linePattern_Some:
  assumes "linePattern line = Some (w, args)"
  shows "\<exists>sp. line = w @ sp @ ''('' @ Join args '','' @ '')'' \<and> w \<noteq> [] \<and> list_all is_word w \<and>
    list_all is_re_space sp \<and> args \<noteq> [] \<and> length args \<le> 3 \<and> list_all (\<lambda>a. a \<noteq> [] \<and> CHR '','' \<notin> set a) args"
proof -
  define d where "d = dropWhile is_word line"
  define r where "r = dropWhile is_re_space d"
  have c: "w = takeWhile is_word line" "w \<noteq> []" "r \<noteq> []" "hd r = CHR ''(''" "\<not> length r < 2" "last r = CHR '')''"
      "args = Split (CHR '','') (butlast (tl r))" "length args \<le> 3" "list_all (\<lambda>a. a \<noteq> []) args"
    using assms by (auto simp: linePattern_def Let_def d_def r_def split: if_splits)
  have "r = ''('' @ butlast (tl r) @ '')''"
    using c(3-6) append_butlast_last_id [of "tl r"] by (cases r; cases "tl r") auto
  moreover have "butlast (tl r) = Join args '',''" using c(7) Join_Split [of "CHR '',''"] by simp
  moreover have "line = w @ takeWhile is_re_space d @ r" by (simp add: c(1) d_def r_def)
  moreover have "list_all is_word w" "list_all is_re_space (takeWhile is_re_space d)"
    unfolding c(1) list_all_iff by (auto dest: set_takeWhileD)
  moreover have "list_all (\<lambda>a. a \<noteq> [] \<and> CHR '','' \<notin> set a) args"
    using c(7,9) Split_parts by (auto simp: list_all_iff)
  ultimately show ?thesis using c by (intro exI [of _ "takeWhile is_re_space d"]) (metis Split_neq_Nil append_assoc)
qed

lemma linePattern_complete:
  assumes "w \<noteq> []" "list_all is_word w" "list_all is_re_space sp" "args \<noteq> []" "length args \<le> 3"
    "list_all (\<lambda>a. a \<noteq> [] \<and> CHR '','' \<notin> set a) args"
  shows "linePattern (w @ sp @ ''('' @ Join args '','' @ '')'') = Some (w, args)"
proof -
  let ?r = "''('' @ Join args '','' @ '')''"
  have "sp @ ?r = [] \<or> \<not> is_word (hd (sp @ ?r))"
    using assms(3) paren_not_word(1) word_not_space by (cases sp) auto
  then have w: "takeWhile is_word (w @ sp @ ?r) = w" "dropWhile is_word (w @ sp @ ?r) = sp @ ?r"
    using takeWhile_word [OF assms(2), of "sp @ ?r"] by simp_all
  have sp: "dropWhile is_re_space (sp @ ?r) = ?r" using takeWhile_word [OF assms(3), of ?r] paren_not_word by simp
  have "Split (CHR '','') (Join args '','') = args"
    using Split_Join [OF assms(4), of "CHR '',''"] assms(6) by (auto simp: list_all_iff)
  then show ?thesis unfolding linePattern_def Let_def w sp using assms
    by (simp add: butlast_append list_all_iff)
qed

text \<open>C26. The rule syntax. A line is a rule exactly when it is a word, optional blanks, and one to three
  non-empty arguments between parentheses, separated by commas; the arguments are trimmed and a
  missing one is empty.\<close>

theorem parseLine_iff:
  "parseLine line num = Some r \<longleftrightarrow>
    (\<exists>w sp args. line = w @ sp @ ''('' @ Join args '','' @ '')'' \<and> w \<noteq> [] \<and> list_all is_word w \<and>
       list_all is_re_space sp \<and> args \<noteq> [] \<and> length args \<le> 3 \<and>
       list_all (\<lambda>a. a \<noteq> [] \<and> CHR '','' \<notin> set a) args \<and>
       r = \<lparr>tr_Outbound = w, tr_Address = arg args 0, tr_ProtoPort = arg args 1,
            tr_HijackAddress = arg args 2, tr_LineNum = num\<rparr>)"
proof
  assume "parseLine line num = Some r"
  then obtain w args where la: "linePattern line = Some (w, args)"
    and r: "r = \<lparr>tr_Outbound = w, tr_Address = arg args 0, tr_ProtoPort = arg args 1,
            tr_HijackAddress = arg args 2, tr_LineNum = num\<rparr>"
    by (auto simp: parseLine_def split: option.splits)
  from linePattern_Some [OF la] r show "\<exists>w sp args. line = w @ sp @ ''('' @ Join args '','' @ '')'' \<and> w \<noteq> [] \<and>
       list_all is_word w \<and> list_all is_re_space sp \<and> args \<noteq> [] \<and> length args \<le> 3 \<and>
       list_all (\<lambda>a. a \<noteq> [] \<and> CHR '','' \<notin> set a) args \<and>
       r = \<lparr>tr_Outbound = w, tr_Address = arg args 0, tr_ProtoPort = arg args 1,
            tr_HijackAddress = arg args 2, tr_LineNum = num\<rparr>"
    by blast
qed (use linePattern_complete in \<open>auto simp: parseLine_def\<close>)

section \<open>Ports\<close>

lemma parse_port_ordered: "parse_port p = Some (a, b) \<Longrightarrow> a \<le> b"
  by (auto simp: parse_port_def Let_def split: if_splits option.splits)

lemma parseProtoPort_ordered: "parseProtoPort s = Some (proto, a, b) \<Longrightarrow> a \<le> b"
  by (auto simp: parseProtoPort_def Let_def parse_port_ordered split: if_splits option.splits)

lemma parse_port_range:
  assumes "a \<le> b" "b < 65536"
  shows "parse_port (FormatUint a @ ''-'' @ FormatUint b) = Some (word_of_nat a, word_of_nat b)"
proof -
  let ?s = "FormatUint a @ ''-'' @ FormatUint b"
  have "TrimSpace ?s = ?s"
    by (rule TrimSpace_digits) (simp_all add: set_FormatUint [OF hd_in_set] set_FormatUint [OF last_in_set])
  moreover have "SplitN2 (CHR ''-'') ?s = [FormatUint a, FormatUint b]"
    using SplitN2_pair [OF FormatUint_plain(1)] by simp
  moreover have "\<not> (word_of_nat a :: u16) > word_of_nat b"
    using assms by (simp add: word_less_nat_alt unat_u16_of_nat)
  ultimately show ?thesis using assms by (simp add: parse_port_def Let_def ParseUint_FormatUint)
qed

lemma parseProtoPort_range:
  assumes "a \<le> b" "b < 65536"
  shows "parseProtoPort (''tcp/'' @ FormatUint a @ ''-'' @ FormatUint b) =
    Some (ProtocolTCP, word_of_nat a, word_of_nat b)"
proof -
  let ?r = "FormatUint a @ ''-'' @ FormatUint b"
  have low: "ToLower (''tcp/'' @ ?r) = ''tcp/'' @ ?r"
    using FormatUint_plain(4) by (simp add: ToLower_def lower_char_def)
  have "SplitN2 (CHR ''/'') (''tcp'' @ CHR ''/'' # ?r) = [''tcp'', ?r]"
    by (rule SplitN2_pair) simp
  then have "SplitN2 (CHR ''/'') (''tcp/'' @ ?r) = [''tcp'', ?r]" by simp
  moreover have "?r \<noteq> ''*''" by (cases "FormatUint a") auto
  ultimately show ?thesis unfolding parseProtoPort_def low Let_def
    using parse_port_range [OF assms] by simp
qed

text \<open>Port ranges. A rule written with \<^verbatim>\<open>tcp/a-b\<close>, where \<open>0 < a \<le> b\<close> and \<open>b\<close> fits in 16 bits, matches
  exactly the TCP requests to the ports \<open>a\<close> to \<open>b\<close>, ends included, to the hosts of the rule.\<close>

theorem port_range_rule:
  assumes "0 < a" and "a \<le> b" and "b < 65536"
    and "tr_ProtoPort r = ''tcp/'' @ FormatUint a @ ''-'' @ FormatUint b"
    and "compile_rule ge outbounds r = Inr c"
  shows "compiledRule_Match tu c host proto port \<longleftrightarrow>
    proto = ProtocolTCP \<and> a \<le> unat port \<and> unat port \<le> b \<and> hostMatcher_Match tu (cr_HostMatcher c) host"
proof -
  have c: "cr_Protocol c = ProtocolTCP" "cr_StartPort c = word_of_nat a" "cr_EndPort c = word_of_nat b"
    using assms(5) parseProtoPort_range [OF assms(2,3)]
    by (auto simp: compile_rule_def assms(4) split: option.splits sum.splits if_splits)
  have "(word_of_nat a :: u16) \<noteq> 0"
  proof
    assume "(word_of_nat a :: u16) = 0"
    then have "unat (word_of_nat a :: u16) = 0" by simp
    then show False using assms(1-3) by (simp add: unat_u16_of_nat)
  qed
  then show ?thesis unfolding compiledRule_Match_def c using assms(1-3)
    by (auto simp: word_less_nat_alt unat_u16_of_nat)
qed

definition demo_geo :: geo_env where
  "demo_geo = \<lparr>ge_LoadGeoIP = Inl ''none'', ge_LoadGeoSite = Inl ''none'', ge_sort = id, ge_regexp = (\<lambda>_. Inl ''none'')\<rparr>"

definition demo_rule :: TextRule where
  "demo_rule = \<lparr>tr_Outbound = ''direct'', tr_Address = ''all'', tr_ProtoPort = ''tcp/80-443'',
     tr_HijackAddress = [], tr_LineNum = 1\<rparr>"

definition demo_compiled :: "nat compiledRule" where
  "demo_compiled = \<lparr>cr_Outbound = 7, cr_HostMatcher = AllMatcher, cr_Protocol = ProtocolTCP, cr_StartPort = 80,
     cr_EndPort = 443, cr_HijackAddress = []\<rparr>"

lemma demo_port_text: "''tcp/80-443'' = ''tcp/'' @ FormatUint 80 @ ''-'' @ FormatUint 443"
  by code_simp

lemma demo_compile: "compile_rule demo_geo [(''direct'', 7)] demo_rule = Inr demo_compiled"
proof -
  have "normalizeHost ''all'' = ''all''" by code_simp
  then have "compileHostMatcher demo_geo ''all'' = Inr AllMatcher" by (simp add: compileHostMatcher_def)
  moreover have "ToLower ''direct'' = ''direct''" by code_simp
  moreover have "parseProtoPort ''tcp/80-443'' = Some (ProtocolTCP, 80, 443)"
    unfolding demo_port_text by (subst parseProtoPort_range) simp_all
  ultimately show ?thesis by (simp add: compile_rule_def demo_rule_def demo_compiled_def)
qed

theorem port_range_rule_witness:
  "compiledRule_Match (\<lambda>_. None) demo_compiled \<lparr>hi_Name = ''a'', hi_IPv4 = [], hi_IPv6 = []\<rparr> ProtocolTCP 443 \<and>
   \<not> compiledRule_Match (\<lambda>_. None) demo_compiled \<lparr>hi_Name = ''a'', hi_IPv4 = [], hi_IPv6 = []\<rparr> ProtocolTCP 444"
proof -
  have "tr_ProtoPort demo_rule = ''tcp/'' @ FormatUint 80 @ ''-'' @ FormatUint 443"
    unfolding demo_port_text [symmetric] by (simp add: demo_rule_def)
  note r = port_range_rule [OF _ _ _ this demo_compile]
  moreover have "cr_HostMatcher demo_compiled = AllMatcher" by (simp add: demo_compiled_def)
  ultimately show ?thesis by (simp add: r)
qed

text \<open>A range that starts at port 0 is not a range: the rule matches every port.\<close>

lemma port_zero_matches_all:
  "parseProtoPort ''tcp/0-100'' = Some (ProtocolTCP, 0, 100)"
  "cr_Protocol c = ProtocolTCP \<Longrightarrow> cr_StartPort c = 0 \<Longrightarrow> cr_HostMatcher c = AllMatcher \<Longrightarrow>
    compiledRule_Match tu c host ProtocolTCP port"
proof -
  have "''tcp/0-100'' = ''tcp/'' @ FormatUint 0 @ ''-'' @ FormatUint 100"
    by code_simp
  then show "parseProtoPort ''tcp/0-100'' = Some (ProtocolTCP, 0, 100)"
    using parseProtoPort_range [of 0 100] by simp
qed (simp add: compiledRule_Match_def)

section \<open>The cache is transparent\<close>

definition lru_documented :: "('o, 'c) lru \<Rightarrow> ('c \<Rightarrow> cacheKey \<Rightarrow> 'o matchResult option) \<Rightarrow> bool" where
  "lru_documented lru contents \<longleftrightarrow>
     (\<forall>k. contents (lru_New lru) k = None) \<and>
     (\<forall>c k v. fst (lru_Get lru k c) = Some v \<longrightarrow> contents c k = Some v) \<and>
     (\<forall>c k k' v. contents (snd (lru_Get lru k c)) k' = Some v \<longrightarrow> contents c k' = Some v) \<and>
     (\<forall>c k v k' v'. contents (lru_Add lru k v c) k' = Some v' \<longrightarrow> k' = k \<and> v' = v \<or> contents c k' = Some v')"

text \<open>\<^verbatim>\<open>net.IP.String\<close> writes an IPv4 address the same in both its forms, different addresses
  differently, and never a vertical bar.\<close>

definition ipString_documented :: "(IP \<Rightarrow> string) \<Rightarrow> bool" where
  "ipString_documented ipString \<longleftrightarrow>
     (\<forall>a b. ipString a = ipString b \<longrightarrow> Unmap a = Unmap b) \<and> (\<forall>a. CHR ''|'' \<notin> set (ipString a))"

lemma append_last_sep:
  assumes "x @ c # s = y @ c # t" and "c \<notin> set s" and "c \<notin> set t"
  shows "x = y \<and> s = t"
proof -
  have "rev (x @ c # s) = rev (y @ c # t)" using assms(1) by (rule arg_cong)
  then have eq: "rev s @ c # rev x = rev t @ c # rev y" by simp
  have "rev s = rev t" using span_neq_append(1) [of c "rev s" "rev x"] span_neq_append(1) [of c "rev t" "rev y"]
    assms(2,3) eq by simp
  then show ?thesis using eq by simp
qed

lemma HostInfo_String_same:
  assumes "ipString_documented f" and "HostInfo_String f a = HostInfo_String f b"
  shows "same_host a b"
proof -
  have bar: "CHR ''|'' \<notin> set (f x)" for x using assms(1) unfolding ipString_documented_def by blast
  have "(hi_Name a @ ''|'' @ f (hi_IPv4 a)) @ CHR ''|'' # f (hi_IPv6 a) =
      (hi_Name b @ ''|'' @ f (hi_IPv4 b)) @ CHR ''|'' # f (hi_IPv6 b)"
    using assms(2) by (simp add: HostInfo_String_def)
  note one = append_last_sep [OF this bar bar]
  then have "hi_Name a @ CHR ''|'' # f (hi_IPv4 a) = hi_Name b @ CHR ''|'' # f (hi_IPv4 b)" by simp
  note two = append_last_sep [OF this bar bar]
  have inj: "f x = f y \<Longrightarrow> Unmap x = Unmap y" for x y using assms(1) unfolding ipString_documented_def by blast
  show ?thesis unfolding same_host_def using one two inj by blast
qed

lemma first_match_same:
  assumes "same_host a b"
  shows "first_match tu rules a proto port = first_match tu rules b proto port"
proof -
  have "find (\<lambda>r. compiledRule_Match tu r h proto port) rules =
      find (\<lambda>r. ((cr_Protocol r = ProtocolBoth \<or> cr_Protocol r = proto) \<and>
          \<not> (cr_StartPort r \<noteq> 0 \<and> (port < cr_StartPort r \<or> port > cr_EndPort r))) \<and>
          hostMatcher_Match tu (cr_HostMatcher r) h) rules" for h
    by (rule arg_cong [where f = "\<lambda>P. find P rules"]) (auto simp: compiledRule_Match_def)
  note eq = this
  show ?thesis unfolding first_match_def eq
    by (subst hosts.find_respects [OF assms]) (rule refl)
qed

text \<open>What the cache holds agrees with the rules.\<close>

definition cache_sound ::
  "('c \<Rightarrow> cacheKey \<Rightarrow> 'o matchResult option) \<Rightarrow> (IP \<Rightarrow> string) \<Rightarrow> (string \<Rightarrow> string option) \<Rightarrow> ('o, 'c) compiledRuleSet \<Rightarrow> bool" where
  "cache_sound contents f tu s \<longleftrightarrow>
     (\<forall>host proto port v. contents (rs_Cache s) (HostInfo_String f host, proto, port) = Some v \<longrightarrow>
        v = first_match tu (rs_Rules s) host proto port)"

lemma RuleSet_Match_uncached:
  assumes lru: "lru_documented lru contents" and f: "ipString_documented f" and snd: "cache_sound contents f tu s"
    and m: "RuleSet_Match lru f tu s h proto port = (s', res)"
  shows "res = first_match tu (rs_Rules s) (h\<lparr>hi_Name := normalizeHost (hi_Name h)\<rparr>) proto port \<and>
    cache_sound contents f tu s' \<and> rs_Rules s' = rs_Rules s"
proof -
  let ?h = "h\<lparr>hi_Name := normalizeHost (hi_Name h)\<rparr>" and ?k = "HostInfo_String f (h\<lparr>hi_Name := normalizeHost (hi_Name h)\<rparr>)"
  obtain g c where g: "lru_Get lru (?k, proto, port) (rs_Cache s) = (g, c)" by fastforce
  have c: "contents c k = Some v \<Longrightarrow> contents (rs_Cache s) k = Some v" for k v
    using lru g unfolding lru_documented_def by (metis snd_conv)
  show ?thesis
  proof (cases g)
    case (Some v)
    then have "contents (rs_Cache s) (?k, proto, port) = Some v" using lru g unfolding lru_documented_def by (metis fst_conv)
    then have "v = first_match tu (rs_Rules s) ?h proto port" using snd by (simp add: cache_sound_def)
    moreover have "s' = s\<lparr>rs_Cache := c\<rparr>" "res = v" using m g Some by (simp_all add: RuleSet_Match_def Let_def)
    ultimately show ?thesis using snd c by (auto simp: cache_sound_def)
  next
    case None
    define r where "r = first_match tu (rs_Rules s) ?h proto port"
    have s': "s' = s\<lparr>rs_Cache := lru_Add lru (?k, proto, port) r c\<rparr>" "res = r"
      using m g None by (auto simp: RuleSet_Match_def Let_def r_def)
    have "v = first_match tu (rs_Rules s) host pr po"
      if "contents (lru_Add lru (?k, proto, port) r c) (HostInfo_String f host, pr, po) = Some v" for host pr po v
    proof -
      from that lru consider "(HostInfo_String f host, pr, po) = (?k, proto, port)" "v = r"
        | "contents c (HostInfo_String f host, pr, po) = Some v" unfolding lru_documented_def by blast
      then show ?thesis
      proof cases
        case 1
        then have "same_host host ?h" "pr = proto" "po = port" using HostInfo_String_same [OF f] by simp_all
        then show ?thesis using 1(2) first_match_same unfolding r_def by metis
      next
        case 2
        then show ?thesis using c snd by (simp add: cache_sound_def)
      qed
    qed
    then show ?thesis using s' by (simp add: cache_sound_def r_def)
  qed
qed

text \<open>A sequence of requests through one rule set.\<close>

fun match_all ::
  "('o, 'c) lru \<Rightarrow> (IP \<Rightarrow> string) \<Rightarrow> (string \<Rightarrow> string option) \<Rightarrow> ('o, 'c) compiledRuleSet \<Rightarrow> (HostInfo \<times> Protocol \<times> u16) list
   \<Rightarrow> 'o matchResult list" where
  "match_all lru f tu s [] = []"
| "match_all lru f tu s ((h, proto, port) # qs) =
     (let (s', r) = RuleSet_Match lru f tu s h proto port in r # match_all lru f tu s' qs)"

lemma match_all_uncached:
  assumes "lru_documented lru contents" and "ipString_documented f" and "cache_sound contents f tu s"
  shows "match_all lru f tu s qs =
    map (\<lambda>(h, proto, port). first_match tu (rs_Rules s) (h\<lparr>hi_Name := normalizeHost (hi_Name h)\<rparr>) proto port) qs"
  using assms(3)
proof (induction qs arbitrary: s)
  case (Cons q qs)
  obtain h proto port where q: "q = (h, proto, port)" by (cases q) auto
  obtain s' r where m: "RuleSet_Match lru f tu s h proto port = (s', r)" by fastforce
  then show ?case using Cons.IH [of s'] RuleSet_Match_uncached [OF assms(1,2) Cons.prems m] by (simp add: q)
qed simp

text \<open>C9. The decision cache never changes a decision. For any sequence of requests to a freshly compiled
  rule set, whatever the cache evicts and when, each answer is that of the first rule that
  matches the normalised request.\<close>

theorem cached_match_is_first_match:
  assumes "lru_documented lru contents" and "ipString_documented f" and "Compile lru ge rules outbounds = Inr s"
  shows "match_all lru f tu s qs =
    map (\<lambda>(h, proto, port). first_match tu (rs_Rules s) (h\<lparr>hi_Name := normalizeHost (hi_Name h)\<rparr>) proto port) qs"
proof -
  have "rs_Cache s = lru_New lru" using assms(3) by (auto simp: Compile_def split: sum.splits)
  then have "cache_sound contents f tu s" using assms(1) by (simp add: cache_sound_def lru_documented_def)
  then show ?thesis by (rule match_all_uncached [OF assms(1,2)])
qed

text \<open>A cache of two entries and a spelling of addresses that behave as documented.\<close>

definition small_cache :: "('o, (cacheKey \<times> 'o matchResult) list) lru" where
  "small_cache = \<lparr>lru_New = [], lru_Get = (\<lambda>k c. (map_of c k, c)), lru_Add = (\<lambda>k v c. (k, v) # take 1 c)\<rparr>"

definition letters :: "byte \<Rightarrow> string" where
  "letters b = [char_of (65 + unat b div 16), char_of (65 + unat b mod 16)]"

definition spell :: "IP \<Rightarrow> string" where
  "spell a = concat (map letters (Unmap a))"

lemma small_cache_documented: "lru_documented small_cache map_of"
proof -
  have "k' = k \<and> v' = v \<or> map_of c k' = Some v'" if "map_of ((k, v) # take 1 c) k' = Some v'"
    for c :: "(cacheKey \<times> 'o matchResult) list" and k k' v v'
  proof (cases "k' = k")
    case True
    with that show ?thesis by (simp del: split_paired_All split_paired_Ex)
  next
    case False
    with that have "map_of (take 1 c) k' = Some v'" by (simp split: if_splits)
    then have "map_of c k' = Some v'" by (cases c) (simp_all split: if_splits)
    then show ?thesis ..
  qed
  then show ?thesis unfolding lru_documented_def small_cache_def lru.simps fst_conv snd_conv
    by (simp only: map_of.simps simp_thms) blast
qed

lemma of_char_letter: "of_char (char_of (65 + n) :: char) = 65 + n" if "n < 16" for n :: nat
  using that by simp

lemma letters_inj: "letters a = letters b \<Longrightarrow> a = b"
proof -
  assume eq: "letters a = letters b"
  have lt: "unat x div 16 < 16" "unat x mod 16 < 16" for x :: byte
    using unsigned_less [of x, where 'a = nat] by simp_all
  have "65 + unat a div 16 = 65 + unat b div 16" "65 + unat a mod 16 = 65 + unat b mod 16"
    using eq of_char_letter lt unfolding letters_def by (metis list.inject)+
  then have "unat a = unat b" by (metis add_left_cancel div_mult_mod_eq)
  then show "a = b" by (simp add: word_unat_eq_iff)
qed

lemma spell_documented: "ipString_documented spell"
proof -
  have bar: "CHR ''|'' \<notin> set (letters b)" for b :: byte
  proof -
    have lt: "unat b div 16 < 16" "unat b mod 16 < 16" using unsigned_less [of b, where 'a = nat] by simp_all
    have "of_char (CHR ''|'') = (124::nat)" by code_simp
    then have "CHR ''|'' \<noteq> char_of (65 + n)" if "n < 16" for n :: nat using of_char_letter [OF that] that by fastforce
    then show ?thesis using lt by (simp add: letters_def)
  qed
  have "concat (map letters xs) = concat (map letters ys) \<Longrightarrow> xs = ys" for xs ys
  proof (induction xs arbitrary: ys)
    case Nil
    then show ?case by (cases ys) (simp_all add: letters_def)
  next
    case (Cons x xs)
    then obtain y zs where ys: "ys = y # zs" by (cases ys) (simp_all add: letters_def)
    have "letters x @ concat (map letters xs) = letters y @ concat (map letters zs)" using Cons.prems ys by simp
    then have "letters x = letters y" "concat (map letters xs) = concat (map letters zs)"
      by (auto simp: letters_def dest: append_eq_append_conv [THEN iffD1, rotated])
    then show ?case using Cons.IH letters_inj ys by blast
  qed
  then show ?thesis using bar unfolding ipString_documented_def spell_def by auto
qed

theorem cached_match_is_first_match_witness:
  "match_all small_cache spell (\<lambda>_. None) \<lparr>rs_Rules = [demo_compiled], rs_Cache = lru_New small_cache\<rparr>
     (replicate 2 (\<lparr>hi_Name = ''A.'', hi_IPv4 = [], hi_IPv6 = []\<rparr>, ProtocolTCP, 80)) = replicate 2 (Some (7, []))"
proof -
  have "Compile small_cache demo_geo [demo_rule] [(''direct'', 7)] =
      Inr \<lparr>rs_Rules = [demo_compiled], rs_Cache = lru_New small_cache\<rparr>"
    by (simp add: Compile_def demo_compile)
  note m = cached_match_is_first_match [OF small_cache_documented spell_documented this]
  show ?thesis unfolding m by (simp add: first_match_def demo_compiled_def compiledRule_Match_def)
qed

end
