(* ===== verification/Resolver.thy ===== *)
theory Resolver
  imports Net_IP Config
begin

text \<open>
  Name resolution (\<^verbatim>\<open>resolver/*.go\<close>, \<^verbatim>\<open>cmd/server/resolver.go\<close>): the standard resolver over UDP, TCP
  and TLS with its pool of connections, retries and CNAME chains, and DNS over HTTPS.

  The DNS library and the network are arguments (\<open>dns_net\<close>, \<open>doh_net\<close>) that act on a state of the
  world \<open>'w\<close>. The two lookups of a resolution are run one after the other; they share only the
  pool.
\<close>

section \<open>Results\<close>

datatype dns_error =
    DNSFailed string bool  \<comment> \<open>an error of the library, and whether it is a timeout\<close>
  | CNAMEChainTooLong
  | ResolverPanic
  | DoHFailed string

record Result =
  re_IPv4 :: IP
  re_IPv6 :: IP
  re_Err :: "dns_error option"

definition Result_Empty :: "Result \<Rightarrow> bool" where
  "Result_Empty r \<longleftrightarrow> re_IPv4 r = [] \<and> re_IPv6 r = []"

datatype qtype = TypeA | TypeAAAA

text \<open>What the code looks at in an answer record.\<close>

datatype RR = RR_A IP | RR_AAAA IP | RR_CNAME string string | RR_Other

definition tryParseIP :: "string \<Rightarrow> Result option" where
  "tryParseIP host =
     (let ip = ParseIP host
      in if ip = [] then None
         else if To4 ip \<noteq> [] then Some \<lparr>re_IPv4 = To4 ip, re_IPv6 = [], re_Err = None\<rparr>
         else Some \<lparr>re_IPv4 = [], re_IPv6 = ip, re_Err = None\<rparr>)"

text \<open>One lookup as its goroutine reports it; \<open>None\<close> is a panic.\<close>

definition reported :: "(dns_error + IP) option \<Rightarrow> IP \<times> dns_error option" where
  "reported r = (case r of None \<Rightarrow> ([], Some ResolverPanic) | Some (Inl e) \<Rightarrow> ([], Some e) | Some (Inr ip) \<Rightarrow> (ip, None))"

definition resolveParallel :: "(dns_error + IP) option \<Rightarrow> (dns_error + IP) option \<Rightarrow> Result" where
  "resolveParallel a aaaa =
     (let (ip4, err4) = reported a; (ip6, err6) = reported aaaa
      in \<lparr>re_IPv4 = ip4, re_IPv6 = ip6, re_Err = (if err4 \<noteq> None then err4 else err6)\<rparr>)"

definition resolverDefaultTimeout :: int where
  "resolverDefaultTimeout = 2 * 1000000000"

definition timeoutOrDefault :: "int \<Rightarrow> int" where
  "timeoutOrDefault t = (if t \<le> 0 then resolverDefaultTimeout else t)"

definition addPortIfMissing :: "string \<Rightarrow> string \<Rightarrow> string" where
  "addPortIfMissing addr port = (case SplitHostPort addr of None \<Rightarrow> JoinHostPort addr port | Some _ \<Rightarrow> addr)"

definition addDefaultPort :: "string \<Rightarrow> string" where
  "addDefaultPort addr = addPortIfMissing addr ''53''"

definition addDefaultPortTLS :: "string \<Rightarrow> string" where
  "addDefaultPortTLS addr = addPortIfMissing addr ''853''"

section \<open>The standard resolver\<close>

text \<open>\<open>sr_idle\<close> is the channel of idle connections, oldest first; UDP has no pool.\<close>

record standardResolver =
  sr_addr :: string
  sr_Net :: string
  sr_Timeout :: int
  sr_SNI :: string
  sr_Insecure :: bool
  sr_idle :: "nat list option"

definition NewUDP :: "string \<Rightarrow> int \<Rightarrow> standardResolver" where
  "NewUDP addr timeout = \<lparr>sr_addr = addDefaultPort addr, sr_Net = '''', sr_Timeout = timeoutOrDefault timeout,
     sr_SNI = '''', sr_Insecure = False, sr_idle = None\<rparr>"

definition NewTCP :: "string \<Rightarrow> int \<Rightarrow> standardResolver" where
  "NewTCP addr timeout = \<lparr>sr_addr = addDefaultPort addr, sr_Net = ''tcp'', sr_Timeout = timeoutOrDefault timeout,
     sr_SNI = '''', sr_Insecure = False, sr_idle = Some []\<rparr>"

definition NewTLS :: "string \<Rightarrow> int \<Rightarrow> string \<Rightarrow> bool \<Rightarrow> standardResolver" where
  "NewTLS addr timeout sni insecure =
     \<lparr>sr_addr = addDefaultPortTLS addr, sr_Net = ''tcp-tls'', sr_Timeout = timeoutOrDefault timeout,
      sr_SNI = sni, sr_Insecure = insecure, sr_idle = Some []\<rparr>"

text \<open>A query is the fully qualified name and the type.\<close>

type_synonym query = "string \<times> qtype"

record 'w dns_net =
  dn_Fqdn :: "string \<Rightarrow> string"
  dn_Exchange :: "standardResolver \<Rightarrow> query \<Rightarrow> 'w \<Rightarrow> (dns_error + RR list) \<times> 'w"
  dn_Dial :: "standardResolver \<Rightarrow> 'w \<Rightarrow> (dns_error + nat) \<times> 'w"
  dn_ExchangeWithConn :: "query \<Rightarrow> nat \<Rightarrow> 'w \<Rightarrow> (dns_error + RR list) \<times> 'w"
  dn_Close :: "nat \<Rightarrow> 'w \<Rightarrow> 'w"
  dn_ctxDone :: "'w \<Rightarrow> bool"

definition maxIdleDNSConns :: nat where
  "maxIdleDNSConns = 8"

definition isTimeout :: "dns_error \<Rightarrow> bool" where
  "isTimeout e = (case e of DNSFailed _ t \<Rightarrow> t | _ \<Rightarrow> False)"

definition pool_get :: "standardResolver \<Rightarrow> standardResolver \<times> nat option" where
  "pool_get r =
     (case sr_idle r of
        Some (conn # rest) \<Rightarrow> (r\<lparr>sr_idle := Some rest\<rparr>, Some conn)
      | _ \<Rightarrow> (r, None))"

definition pool_put :: "'w dns_net \<Rightarrow> nat \<Rightarrow> standardResolver \<Rightarrow> 'w \<Rightarrow> standardResolver \<times> 'w" where
  "pool_put net conn r w =
     (case sr_idle r of
        Some idle \<Rightarrow> if length idle < maxIdleDNSConns then (r\<lparr>sr_idle := Some (idle @ [conn])\<rparr>, w) else (r, dn_Close net conn w)
      | None \<Rightarrow> (r, dn_Close net conn w))"

definition exchangeOn ::
  "'w dns_net \<Rightarrow> query \<Rightarrow> nat \<Rightarrow> standardResolver \<Rightarrow> 'w \<Rightarrow> (dns_error + RR list) \<times> standardResolver \<times> 'w" where
  "exchangeOn net m conn r w =
     (case dn_ExchangeWithConn net m conn w of
        (Inl e, w1) \<Rightarrow> (Inl e, r, dn_Close net conn w1)
      | (Inr resp, w1) \<Rightarrow> (Inr resp, pool_put net conn r w1))"

text \<open>The part of \<^verbatim>\<open>exchange\<close> after the idle connection, when there was one, did not serve.\<close>

definition exchange_fresh ::
  "'w dns_net \<Rightarrow> query \<Rightarrow> standardResolver \<Rightarrow> 'w \<Rightarrow> (dns_error + RR list) \<times> standardResolver \<times> 'w" where
  "exchange_fresh net m r w =
     (case dn_Dial net r w of
        (Inl e, w1) \<Rightarrow> (Inl e, r, w1)
      | (Inr conn, w1) \<Rightarrow> exchangeOn net m conn r w1)"

definition exchange ::
  "'w dns_net \<Rightarrow> query \<Rightarrow> standardResolver \<Rightarrow> 'w \<Rightarrow> (dns_error + RR list) \<times> standardResolver \<times> 'w" where
  "exchange net m r w =
     (if sr_idle r = None then (let (resp, w1) = dn_Exchange net r m w in (resp, r, w1))
      else case pool_get r of
        (r1, None) \<Rightarrow> exchange_fresh net m r1 w
      | (r1, Some conn) \<Rightarrow>
          (case exchangeOn net m conn r1 w of
             (Inr resp, r2, w2) \<Rightarrow> (Inr resp, r2, w2)
           | (Inl e, r2, w2) \<Rightarrow>
               if isTimeout e \<or> dn_ctxDone net w2 then (Inl e, r2, w2) else exchange_fresh net m r2 w2))"

text \<open>The first record of the type, and whether there is a CNAME to follow instead.\<close>

fun firstAddress_from :: "bool \<Rightarrow> RR list \<Rightarrow> qtype \<Rightarrow> IP \<times> bool" where
  "firstAddress_from hasCNAME [] q = ([], hasCNAME)"
| "firstAddress_from hasCNAME (RR_A ip # rs) q = (if q = TypeA then (To4 ip, False) else firstAddress_from hasCNAME rs q)"
| "firstAddress_from hasCNAME (RR_AAAA ip # rs) q = (if q = TypeAAAA then (To16 ip, False) else firstAddress_from hasCNAME rs q)"
| "firstAddress_from hasCNAME (RR_CNAME _ _ # rs) q = firstAddress_from True rs q"
| "firstAddress_from hasCNAME (RR_Other # rs) q = firstAddress_from hasCNAME rs q"

definition firstAddress :: "RR list \<Rightarrow> qtype \<Rightarrow> IP \<times> bool" where
  "firstAddress answers q = firstAddress_from False answers q"

fun skipCNAME_from :: "string \<Rightarrow> RR list \<Rightarrow> string" where
  "skipCNAME_from lastCNAME [] = lastCNAME"
| "skipCNAME_from lastCNAME (RR_CNAME name target # rs) =
     (if lastCNAME = '''' \<or> name = lastCNAME then skipCNAME_from target rs else lastCNAME)"
| "skipCNAME_from lastCNAME (_ # rs) = skipCNAME_from lastCNAME rs"

definition skipCNAMEChain :: "RR list \<Rightarrow> string" where
  "skipCNAMEChain answers = skipCNAME_from '''' answers"

definition maxCNAMEDepth :: nat where
  "maxCNAMEDepth = 16"

function lookup ::
  "'w dns_net \<Rightarrow> string \<Rightarrow> qtype \<Rightarrow> nat \<Rightarrow> string list \<Rightarrow> standardResolver \<Rightarrow> 'w
   \<Rightarrow> (dns_error + IP) \<times> standardResolver \<times> 'w" where
  "lookup net host q depth seen r w =
     (if depth > maxCNAMEDepth then (Inl CNAMEChainTooLong, r, w)
      else let key = ToLower (dn_Fqdn net host)
           in if key \<in> set seen then (Inl CNAMEChainTooLong, r, w)
              else case exchange net (dn_Fqdn net host, q) r w of
                (Inl e, r1, w1) \<Rightarrow> (Inl e, r1, w1)
              | (Inr answer, r1, w1) \<Rightarrow>
                  if answer = [] then (Inr [], r1, w1)
                  else case firstAddress answer q of
                    (ip, hasCNAME) \<Rightarrow>
                      if ip \<noteq> [] \<or> \<not> hasCNAME then (Inr ip, r1, w1)
                      else lookup net (skipCNAMEChain answer) q (Suc depth) (key # seen) r1 w1)"
  by pat_completeness auto
termination
  by (relation "measure (\<lambda>(net, host, q, depth, seen, r, w). Suc maxCNAMEDepth - depth)") auto

declare lookup.simps [simp del]

definition standardResolverRetryTimes :: nat where
  "standardResolverRetryTimes = 2"

fun lookup_retry ::
  "nat \<Rightarrow> 'w dns_net \<Rightarrow> string \<Rightarrow> qtype \<Rightarrow> (dns_error + IP) \<Rightarrow> standardResolver \<Rightarrow> 'w
   \<Rightarrow> (dns_error + IP) \<times> standardResolver \<times> 'w" where
  "lookup_retry 0 net host q res r w = (res, r, w)"
| "lookup_retry (Suc n) net host q res r w =
     (case lookup net host q 0 [] r w of
        (Inr ip, r1, w1) \<Rightarrow> (Inr ip, r1, w1)
      | (Inl e, r1, w1) \<Rightarrow> lookup_retry n net host q (Inl e) r1 w1)"

definition lookupWithRetry ::
  "'w dns_net \<Rightarrow> string \<Rightarrow> qtype \<Rightarrow> standardResolver \<Rightarrow> 'w \<Rightarrow> (dns_error + IP) \<times> standardResolver \<times> 'w" where
  "lookupWithRetry net host q r w = lookup_retry standardResolverRetryTimes net host q (Inr []) r w"

definition standardResolver_Resolve ::
  "'w dns_net \<Rightarrow> string \<Rightarrow> standardResolver \<times> 'w \<Rightarrow> Result \<times> standardResolver \<times> 'w" where
  "standardResolver_Resolve net host s =
     (let (r, w) = s
      in case tryParseIP host of
           Some result \<Rightarrow> (result, r, w)
         | None \<Rightarrow>
             (let (a, r1, w1) = lookupWithRetry net host TypeA r w;
                  (aaaa, r2, w2) = lookupWithRetry net host TypeAAAA r1 w1
              in (resolveParallel (Some a) (Some aaaa), r2, w2)))"

section \<open>DNS over HTTPS\<close>

record dohResolver =
  dh_url :: string
  dh_SNI :: string
  dh_Insecure :: bool
  dh_Timeout :: int

definition bracketIPv6 :: "string \<Rightarrow> string" where
  "bracketIPv6 addr = (if ParseIP addr \<noteq> [] \<and> To4 (ParseIP addr) = [] then ''['' @ addr @ '']'' else addr)"

definition NewHTTPS :: "string \<Rightarrow> int \<Rightarrow> string \<Rightarrow> bool \<Rightarrow> dohResolver" where
  "NewHTTPS addr timeout sni insecure =
     \<lparr>dh_url = (if HasPrefix addr ''https://'' then addr else ''https://'' @ bracketIPv6 addr @ ''/dns-query''),
      dh_SNI = sni, dh_Insecure = insecure, dh_Timeout = timeoutOrDefault timeout\<rparr>"

definition dohContentType :: string where
  "dohContentType = ''application/dns-message''"

definition dohMaxResponseSize :: nat where
  "dohMaxResponseSize = 65536"

definition isDNSMessage :: "string \<Rightarrow> bool" where
  "isDNSMessage contentType \<longleftrightarrow>
     EqualFold (TrimSpace (takeWhile (\<lambda>c. c \<noteq> CHR '';'') contentType)) dohContentType"

record http_response =
  hr_StatusCode :: nat
  hr_ContentType :: string
  hr_Body :: "dns_error + bytes"

record dns_msg =
  dm_Rcode :: nat
  dm_Answer :: "RR list"

text \<open>\<open>dw_Do\<close> posts a query to a URL; packing and unpacking messages is the DNS library's.\<close>

record 'w doh_net =
  dw_Fqdn :: "string \<Rightarrow> string"
  dw_Pack :: "query \<Rightarrow> dns_error + bytes"
  dw_Do :: "string \<Rightarrow> bytes \<Rightarrow> 'w \<Rightarrow> (dns_error + http_response) \<times> 'w"
  dw_Unpack :: "bytes \<Rightarrow> dns_error + dns_msg"

definition doh_exchange :: "'w doh_net \<Rightarrow> dohResolver \<Rightarrow> bytes \<Rightarrow> 'w \<Rightarrow> (dns_error + bytes) \<times> 'w" where
  "doh_exchange net r wire w =
     (case dw_Do net (dh_url r) wire w of
        (Inl e, w1) \<Rightarrow> (Inl e, w1)
      | (Inr resp, w1) \<Rightarrow>
          (if hr_StatusCode resp \<noteq> 200 then Inl (DoHFailed ''non-200 status-code'')
           else if \<not> isDNSMessage (hr_ContentType resp) then Inl (DoHFailed ''unexpected content-type'')
           else case hr_Body resp of Inl e \<Rightarrow> Inl e | Inr body \<Rightarrow> Inr (take dohMaxResponseSize body), w1))"

definition doh_lookup :: "'w doh_net \<Rightarrow> dohResolver \<Rightarrow> string \<Rightarrow> qtype \<Rightarrow> 'w \<Rightarrow> (dns_error + IP) \<times> 'w" where
  "doh_lookup net r host q w =
     (case dw_Pack net (dw_Fqdn net host, q) of
        Inl e \<Rightarrow> (Inl e, w)
      | Inr wire \<Rightarrow>
          (case doh_exchange net r wire w of
             (Inl e, w1) \<Rightarrow> (Inl e, w1)
           | (Inr body, w1) \<Rightarrow>
               (case dw_Unpack net body of
                  Inl e \<Rightarrow> Inl e
                | Inr resp \<Rightarrow>
                    if dm_Rcode resp \<noteq> 0 then Inl (DoHFailed ''dns query failed'')
                    else Inr (fst (firstAddress (dm_Answer resp) q)), w1)))"

definition dohResolver_Resolve :: "'w doh_net \<Rightarrow> dohResolver \<Rightarrow> string \<Rightarrow> 'w \<Rightarrow> Result \<times> 'w" where
  "dohResolver_Resolve net r host w =
     (case tryParseIP host of
        Some result \<Rightarrow> (result, w)
      | None \<Rightarrow>
          (let (a, w1) = doh_lookup net r host TypeA w; (aaaa, w2) = doh_lookup net r host TypeAAAA w1
           in (resolveParallel (Some a) (Some aaaa), w2)))"

section \<open>Choosing the resolver\<close>

datatype Resolver = Standard standardResolver | DoH dohResolver

text \<open>\<open>Inr None\<close> is the system resolver.\<close>

definition newResolver :: "ResolverConfig \<Rightarrow> config_error + Resolver option" where
  "newResolver c =
     (case ResolverConfig_Validate c of
        Some e \<Rightarrow> Inl e
      | None \<Rightarrow>
          (let k = ResolverConfig_Kind c
           in if k = '''' \<or> k = ''system'' then Inr None
              else if k = ''udp'' then Inr (Some (Standard (NewUDP (ra_Addr (rc_UDP c)) (ra_Timeout (rc_UDP c)))))
              else if k = ''tcp'' then Inr (Some (Standard (NewTCP (ra_Addr (rc_TCP c)) (ra_Timeout (rc_TCP c)))))
              else if k = ''tls'' \<or> k = ''tcp-tls'' then
                Inr (Some (Standard (NewTLS (rt_Addr (rc_TLS c)) (rt_Timeout (rc_TLS c)) (rt_SNI (rc_TLS c)) (rt_Insecure (rc_TLS c)))))
              else if k = ''https'' \<or> k = ''http'' then
                Inr (Some (DoH (NewHTTPS (rt_Addr (rc_HTTPS c)) (rt_Timeout (rc_HTTPS c)) (rt_SNI (rc_HTTPS c)) (rt_Insecure (rc_HTTPS c)))))
              else Inl (BadResolverType (rc_Type c))))"

section \<open>Families\<close>

text \<open>What every resolver promises: at most one address of each family, in the family's length.\<close>

definition wf_Result :: "Result \<Rightarrow> bool" where
  "wf_Result r \<longleftrightarrow> (re_IPv4 r = [] \<or> length (re_IPv4 r) = 4) \<and> (re_IPv6 r = [] \<or> length (re_IPv6 r) = 16)"

locale resolver =
  fixes resolve :: "string \<Rightarrow> 's \<Rightarrow> Result \<times> 's"
  assumes families: "wf_Result (fst (resolve host s))"
    and literal: "tryParseIP host = Some res \<Longrightarrow> resolve host s = (res, s)"
begin

text \<open>An IP literal is answered without asking anyone, with itself.\<close>

lemma literal_IPv4: "ParseIP host \<noteq> [] \<Longrightarrow> To4 (ParseIP host) \<noteq> [] \<Longrightarrow> re_IPv4 (fst (resolve host s)) = To4 (ParseIP host) \<and>
    snd (resolve host s) = s"
  using literal [of host _ s] by (simp add: tryParseIP_def Let_def)

lemma literal_IPv6: "ParseIP host \<noteq> [] \<Longrightarrow> To4 (ParseIP host) = [] \<Longrightarrow> re_IPv6 (fst (resolve host s)) = ParseIP host \<and>
    snd (resolve host s) = s"
  using literal [of host _ s] by (simp add: tryParseIP_def Let_def)

text \<open>Asking for a list of names keeps the promise for every answer.\<close>

lemma families_all: "list_all (\<lambda>h. wf_Result (fst (resolve h (f h)))) hosts"
  using families by (simp add: list_all_iff)

end

lemma length_To4: "To4 ip = [] \<or> length (To4 ip) = 4"
  by (simp add: To4_def)

lemma length_To16: "To16 ip = [] \<or> length (To16 ip) = 16"
  by (simp add: To16_def v4InV6Prefix_def)

lemma length_ParseIP: "ParseIP s = [] \<or> length (ParseIP s) = 16"
  unfolding ParseIP_def using length_To16 by (cases "ParseAddr s") auto

lemma wf_tryParseIP: "tryParseIP host = Some res \<Longrightarrow> wf_Result res"
  using length_To4 [of "ParseIP host"] length_ParseIP [of host]
  by (auto simp: tryParseIP_def Let_def wf_Result_def split: if_splits)

definition family_ok :: "qtype \<Rightarrow> IP \<Rightarrow> bool" where
  "family_ok q ip \<longleftrightarrow> ip = [] \<or> length ip = (case q of TypeA \<Rightarrow> 4 | TypeAAAA \<Rightarrow> 16)"

lemma firstAddress_family: "family_ok q (fst (firstAddress_from c answers q))"
  by (induction c answers q rule: firstAddress_from.induct)
    (use length_To4 length_To16 in \<open>auto simp: family_ok_def split: qtype.splits\<close>)

lemma lookup_family: "lookup net host q depth seen r w = (Inr ip, s) \<Longrightarrow> family_ok q ip"
proof (induction net host q depth seen r w arbitrary: s rule: lookup.induct)
  case (1 net host q depth seen r w)
  have d: "\<not> depth > maxCNAMEDepth" "ToLower (dn_Fqdn net host) \<notin> set seen"
    using "1.prems" by (auto simp: lookup.simps [of net host] Let_def split: if_splits)
  obtain res r1 w1 where ex: "exchange net (dn_Fqdn net host, q) r w = (res, r1, w1)" by (metis prod_cases3)
  obtain answer where res: "res = Inr answer" using "1.prems" d ex by (cases res) (auto simp: lookup.simps [of net host] Let_def)
  obtain a c where fa: "firstAddress answer q = (a, c)" by fastforce
  then have fam: "family_ok q a" using firstAddress_family [of q False answer] by (simp add: firstAddress_def)
  show ?case
  proof (cases "answer = [] \<or> a \<noteq> [] \<or> \<not> c")
    case True
    then have "ip = [] \<or> ip = a" using "1.prems" d ex res fa by (auto simp: lookup.simps [of net host] Let_def split: if_splits)
    then show ?thesis using fam by (auto simp: family_ok_def)
  next
    case False
    then have "lookup net (skipCNAMEChain answer) q (Suc depth) (ToLower (dn_Fqdn net host) # seen) r1 w1 = (Inr ip, s)"
      using "1.prems" d ex res fa by (simp add: lookup.simps [of net host] Let_def)
    then show ?thesis using "1.IH" d ex res fa False by simp
  qed
qed

lemma lookup_retry_family:
  "lookup_retry n net host q res r w = (Inr ip, s) \<Longrightarrow> (\<And>a. res = Inr a \<Longrightarrow> family_ok q a) \<Longrightarrow> family_ok q ip"
proof (induction n net host q res r w rule: lookup_retry.induct)
  case (2 n net host q res r w)
  obtain l r1 w1 where l: "lookup net host q 0 [] r w = (l, r1, w1)" by (metis prod_cases3)
  show ?case
  proof (cases l)
    case (Inl e)
    then show ?thesis using 2 l by auto
  next
    case (Inr a)
    then show ?thesis using 2 l lookup_family [OF l [unfolded Inr]] by auto
  qed
qed auto

lemma lookupWithRetry_family: "lookupWithRetry net host q r w = (Inr ip, s) \<Longrightarrow> family_ok q ip"
  unfolding lookupWithRetry_def by (erule lookup_retry_family) (simp add: family_ok_def)

lemma wf_resolveParallel:
  assumes "\<And>ip. a = Inr ip \<Longrightarrow> family_ok TypeA ip" and "\<And>ip. b = Inr ip \<Longrightarrow> family_ok TypeAAAA ip"
  shows "wf_Result (resolveParallel (Some a) (Some b))"
  using assms by (cases a; cases b) (auto simp: resolveParallel_def reported_def wf_Result_def family_ok_def)

interpretation standard: resolver "standardResolver_Resolve net" for net
proof
  fix host and s :: "standardResolver \<times> 'a"
  obtain a r1 w1 where a: "lookupWithRetry net host TypeA (fst s) (snd s) = (a, r1, w1)" by (metis prod_cases3)
  obtain b s2 where b: "lookupWithRetry net host TypeAAAA r1 w1 = (b, s2)" by (rule prod.exhaust)
  have "wf_Result (resolveParallel (Some a) (Some b))"
    using lookupWithRetry_family [of net host TypeA] lookupWithRetry_family [of net host TypeAAAA] a b
    by (intro wf_resolveParallel) auto
  then show "wf_Result (fst (standardResolver_Resolve net host s))"
    using a b wf_tryParseIP [of host] by (cases s; cases s2) (auto simp: standardResolver_Resolve_def split: option.splits)
next
  show "tryParseIP host = Some res \<Longrightarrow> standardResolver_Resolve net host s = (res, s)" for host res and s :: "standardResolver \<times> 'a"
    by (cases s) (simp add: standardResolver_Resolve_def)
qed

lemma doh_lookup_family: "doh_lookup net r host q w = (Inr ip, w') \<Longrightarrow> family_ok q ip"
  using firstAddress_family [of q False]
  by (auto simp: doh_lookup_def firstAddress_def split: sum.splits prod.splits if_splits)

interpretation doh: resolver "dohResolver_Resolve net r" for net r
proof
  fix host and w :: 'a
  obtain a w1 where a: "doh_lookup net r host TypeA w = (a, w1)" by fastforce
  obtain b w2 where b: "doh_lookup net r host TypeAAAA w1 = (b, w2)" by fastforce
  have "wf_Result (resolveParallel (Some a) (Some b))"
    using doh_lookup_family [of net r host TypeA] doh_lookup_family [of net r host TypeAAAA] a b
    by (intro wf_resolveParallel) auto
  then show "wf_Result (fst (dohResolver_Resolve net r host w))"
    using a b wf_tryParseIP [of host] by (auto simp: dohResolver_Resolve_def split: option.splits)
qed (simp add: dohResolver_Resolve_def)

text \<open>C33. A resolver answers with at most one address of each family, four bytes for IPv4 and sixteen
  for IPv6, whatever the server sends.\<close>

theorem resolve_families:
  "wf_Result (fst (standardResolver_Resolve net host s)) \<and> wf_Result (fst (dohResolver_Resolve net' r host w))"
  by (rule conjI [OF standard.families doh.families])

section \<open>The work of one resolution\<close>

text \<open>\<open>cnt\<close> counts the queries sent to the server; only the two exchange operations send one.\<close>

definition counts :: "('w \<Rightarrow> nat) \<Rightarrow> 'w dns_net \<Rightarrow> bool" where
  "counts cnt net \<longleftrightarrow>
     (\<forall>r m w. cnt (snd (dn_Exchange net r m w)) = Suc (cnt w)) \<and>
     (\<forall>m c w. cnt (snd (dn_ExchangeWithConn net m c w)) = Suc (cnt w)) \<and>
     (\<forall>r w. cnt (snd (dn_Dial net r w)) = cnt w) \<and> (\<forall>c w. cnt (dn_Close net c w) = cnt w)"

definition pool_bounded :: "standardResolver \<Rightarrow> bool" where
  "pool_bounded r \<longleftrightarrow> (case sr_idle r of None \<Rightarrow> True | Some idle \<Rightarrow> length idle \<le> maxIdleDNSConns)"

text \<open>A step keeps the pool bounded and sends at most \<open>k\<close> queries.\<close>

definition within :: "('w \<Rightarrow> nat) \<Rightarrow> nat \<Rightarrow> standardResolver \<times> 'w \<Rightarrow> standardResolver \<times> 'w \<Rightarrow> bool" where
  "within cnt k s s' \<longleftrightarrow> (pool_bounded (fst s) \<longrightarrow> pool_bounded (fst s')) \<and> cnt (snd s') \<le> cnt (snd s) + k"

lemma within_trans: "within cnt j s s' \<Longrightarrow> within cnt k s' s'' \<Longrightarrow> j + k \<le> n \<Longrightarrow> within cnt n s s''"
  by (auto simp: within_def)

lemma within_refl: "within cnt k s s"
  by (simp add: within_def)

lemma within_mono: "within cnt j s s' \<Longrightarrow> j \<le> k \<Longrightarrow> within cnt k s s'"
  by (auto simp: within_def)

lemma pool_put_within:
  assumes "counts cnt net"
  shows "within cnt 0 (r, w) (pool_put net conn r w)"
  using assms by (auto simp: within_def pool_put_def pool_bounded_def counts_def split: option.splits)

lemma exchangeOn_within:
  assumes "counts cnt net"
  shows "within cnt 1 (r, w) (snd (exchangeOn net m conn r w))"
proof -
  obtain res w1 where e: "dn_ExchangeWithConn net m conn w = (res, w1)" by fastforce
  then have "cnt w1 = Suc (cnt w)" using assms unfolding counts_def by (metis snd_conv)
  then show ?thesis using e assms pool_put_within [OF assms, of r w1 conn]
    by (cases res) (auto simp: exchangeOn_def within_def counts_def)
qed

lemma exchange_fresh_within:
  assumes "counts cnt net"
  shows "within cnt 1 (r, w) (snd (exchange_fresh net m r w))"
proof -
  obtain res w1 where e: "dn_Dial net r w = (res, w1)" by fastforce
  then have "cnt w1 = cnt w" using assms unfolding counts_def by (metis snd_conv)
  then show ?thesis using e exchangeOn_within [OF assms, of r w1 m]
    by (cases res) (auto simp: exchange_fresh_def within_def)
qed

lemma exchange_within:
  assumes "counts cnt net"
  shows "within cnt 2 (r, w) (snd (exchange net m r w))"
proof (cases "sr_idle r")
  case None
  obtain res w1 where e: "dn_Exchange net r m w = (res, w1)" by fastforce
  then have "cnt w1 = Suc (cnt w)" using assms unfolding counts_def by (metis snd_conv)
  then show ?thesis using None e by (simp add: exchange_def within_def)
next
  case (Some idle)
  show ?thesis
  proof (cases idle)
    case Nil
    then show ?thesis using Some exchange_fresh_within [OF assms, of r w m]
      by (simp add: exchange_def pool_get_def within_def)
  next
    case (Cons conn rest)
    let ?r1 = "r\<lparr>sr_idle := Some rest\<rparr>"
    obtain res r2 w2 where e: "exchangeOn net m conn ?r1 w = (res, r2, w2)" by (metis prod_cases3)
    have "within cnt 0 (r, w) (?r1, w)" using Some Cons by (simp add: within_def pool_bounded_def)
    moreover have one: "within cnt 1 (?r1, w) (r2, w2)" using exchangeOn_within [OF assms, of ?r1 w m conn] e by simp
    ultimately have w1: "within cnt 1 (r, w) (r2, w2)" by (rule within_trans) simp
    have w2: "within cnt 2 (r, w) (snd (exchange_fresh net m r2 w2))"
      by (rule within_trans [OF w1 exchange_fresh_within [OF assms]]) simp
    show ?thesis using Some Cons e w2 within_mono [OF w1, of 2]
      by (cases res) (simp_all add: exchange_def pool_get_def)
  qed
qed

lemma lookup_within:
  assumes "counts cnt net"
  shows "within cnt (2 * (Suc maxCNAMEDepth - depth)) (r, w) (snd (lookup net host q depth seen r w))"
  using assms
proof (induction net host q depth seen r w rule: lookup.induct)
  case (1 net host q depth seen r w)
  obtain res r1 w1 where ex: "exchange net (dn_Fqdn net host, q) r w = (res, r1, w1)" by (metis prod_cases3)
  have two: "within cnt 2 (r, w) (r1, w1)" using exchange_within [OF "1.prems", of r w "(dn_Fqdn net host, q)"] ex by simp
  show ?case
  proof (cases "depth > maxCNAMEDepth \<or> ToLower (dn_Fqdn net host) \<in> set seen")
    case True
    then show ?thesis by (auto simp: lookup.simps [of net host] Let_def within_refl)
  next
    case False
    then have le: "2 \<le> 2 * (Suc maxCNAMEDepth - depth)" by linarith
    note stop = within_mono [OF two le]
    show ?thesis
    proof (cases res)
      case (Inl e)
      then show ?thesis using False ex stop by (simp add: lookup.simps [of net host] Let_def)
    next
      case (Inr answer)
      obtain a c where fa: "firstAddress answer q = (a, c)" by fastforce
      show ?thesis
      proof (cases "answer = [] \<or> a \<noteq> [] \<or> \<not> c")
        case True
        then show ?thesis using False ex Inr fa stop by (auto simp: lookup.simps [of net host] Let_def)
      next
        case follow: False
        have "within cnt (2 * (Suc maxCNAMEDepth - Suc depth)) (r1, w1)
            (snd (lookup net (skipCNAMEChain answer) q (Suc depth) (ToLower (dn_Fqdn net host) # seen) r1 w1))"
          using "1.IH" False ex Inr fa follow "1.prems" by simp
        then have "within cnt (2 * (Suc maxCNAMEDepth - depth)) (r, w)
            (snd (lookup net (skipCNAMEChain answer) q (Suc depth) (ToLower (dn_Fqdn net host) # seen) r1 w1))"
          by (rule within_trans [OF two]) (use False in linarith)
        then show ?thesis using False ex Inr fa follow by (simp add: lookup.simps [of net host] Let_def)
      qed
    qed
  qed
qed

lemma lookup_retry_within:
  assumes "counts cnt net"
  shows "within cnt (34 * n) (r, w) (snd (lookup_retry n net host q res r w))"
  using assms
proof (induction n net host q res r w rule: lookup_retry.induct)
  case (2 n net host q res r w)
  obtain l r1 w1 where l: "lookup net host q 0 [] r w = (l, r1, w1)" by (metis prod_cases3)
  have one: "within cnt 34 (r, w) (r1, w1)" using lookup_within [OF "2.prems", of 0 r w host q "[]"] l
    by (simp add: maxCNAMEDepth_def)
  show ?case
  proof (cases l)
    case (Inl e)
    then have "within cnt (34 * n) (r1, w1) (snd (lookup_retry n net host q (Inl e) r1 w1))" using 2 l by simp
    from within_trans [OF one this] show ?thesis using l Inl by simp
  next
    case (Inr ip)
    then show ?thesis using l within_mono [OF one] by simp
  qed
qed (simp add: within_refl)

text \<open>C32. Resolving is bounded. Whatever the server answers, one resolution sends at most 136 queries (two
  types, two attempts, seventeen names, two connections) and it leaves at most eight idle
  connections.\<close>

theorem resolution_bounded:
  assumes "counts cnt net" and "pool_bounded r" and "standardResolver_Resolve net host (r, w) = (res, r', w')"
  shows "pool_bounded r' \<and> cnt w' \<le> cnt w + 136"
proof -
  obtain a r1 w1 where a: "lookupWithRetry net host TypeA r w = (a, r1, w1)" by (metis prod_cases3)
  obtain b r2 w2 where b: "lookupWithRetry net host TypeAAAA r1 w1 = (b, r2, w2)" by (metis prod_cases3)
  have "within cnt 68 (r, w) (r1, w1)" "within cnt 68 (r1, w1) (r2, w2)"
    using lookup_retry_within [OF assms(1), of 2 r w host TypeA "Inr []"] a
      lookup_retry_within [OF assms(1), of 2 r1 w1 host TypeAAAA "Inr []"] b
    by (simp_all add: lookupWithRetry_def standardResolverRetryTimes_def)
  from within_trans [OF this] have "within cnt 136 (r, w) (r2, w2)" by simp
  then show ?thesis using assms(2,3) a b
    by (auto simp: standardResolver_Resolve_def within_def split: option.splits)
qed

text \<open>A server that answers every name with one more CNAME.\<close>

definition demo_dns :: "nat dns_net" where
  "demo_dns = \<lparr>dn_Fqdn = (\<lambda>h. h @ ''.''), dn_Exchange = (\<lambda>r m n. (Inr [RR_CNAME (fst m) (fst m @ ''x'')], Suc n)),
     dn_Dial = (\<lambda>r n. (Inr 0, n)), dn_ExchangeWithConn = (\<lambda>m c n. (Inr [RR_CNAME (fst m) (fst m @ ''x'')], Suc n)),
     dn_Close = (\<lambda>c n. n), dn_ctxDone = (\<lambda>n. False)\<rparr>"

theorem resolution_bounded_witness:
  "snd (snd (standardResolver_Resolve demo_dns ''h'' (NewTCP ''dns'' 0, 0))) \<le> 136"
proof -
  let ?s = "standardResolver_Resolve demo_dns ''h'' (NewTCP ''dns'' 0, 0)"
  have "counts id demo_dns" by (simp add: counts_def demo_dns_def)
  moreover have "pool_bounded (NewTCP ''dns'' 0)" by (simp add: pool_bounded_def NewTCP_def)
  ultimately show ?thesis
    using resolution_bounded [of id demo_dns "NewTCP ''dns'' 0" "''h''" 0 "fst ?s" "fst (snd ?s)" "snd (snd ?s)"] by simp
qed

section \<open>CNAME chains in one answer\<close>

lemma skipCNAME_chain:
  "list_all (\<lambda>n. n \<noteq> '''') ns \<Longrightarrow> skipCNAME_from n (map2 RR_CNAME (n # ns) ns) = last (n # ns)"
proof (induction ns arbitrary: n)
  case (Cons m ns)
  then show ?case by (cases ns) auto
qed simp

text \<open>An answer that spells out a whole chain of aliases is followed to its end in one step.\<close>

theorem skipCNAMEChain_end:
  assumes "names \<noteq> []" and "list_all (\<lambda>n. n \<noteq> '''') names"
  shows "skipCNAMEChain (map2 RR_CNAME (alias # names) names) = last names"
proof -
  obtain n ns where n: "names = n # ns" using assms(1) by (cases names) auto
  have "skipCNAMEChain (map2 RR_CNAME (alias # names) names) = skipCNAME_from n (map2 RR_CNAME (n # ns) ns)"
    by (simp add: skipCNAMEChain_def n)
  also have "\<dots> = last (n # ns)" using assms(2) n by (intro skipCNAME_chain) simp
  finally show ?thesis using n by simp
qed

theorem skipCNAMEChain_end_witness:
  "skipCNAMEChain [RR_CNAME ''a'' ''b'', RR_CNAME ''b'' ''c''] = ''c''"
  using skipCNAMEChain_end [of "[''b'', ''c'']" "''a''"] by simp

section \<open>Addresses of servers\<close>

text \<open>The default port. A server address without brackets that has no port, an IPv6 literal included,
  gets the default one, and one that has a port keeps it: splitting the result gives the host and
  the port.\<close>

theorem addPortIfMissing_splits:
  assumes "CHR ''['' \<notin> set addr" and "CHR '']'' \<notin> set addr"
  shows "SplitHostPort (addDefaultPort addr) =
    (case SplitHostPort addr of Some hp \<Rightarrow> Some hp | None \<Rightarrow> Some (addr, ''53''))"
  using SplitHostPort_Join [OF assms, of "''53''"]
  by (auto simp: addDefaultPort_def addPortIfMissing_def split: option.splits)

theorem addPortIfMissing_splits_witness:
  "SplitHostPort (addDefaultPort ''2001:db8::1'') = Some (''2001:db8::1'', ''53'')"
proof -
  have "SplitHostPort ''2001:db8::1'' = None" by code_simp
  then show ?thesis using addPortIfMissing_splits [of "''2001:db8::1''"] by simp
qed

text \<open>A bracketed IPv6 literal without a port becomes an address that nothing can dial.\<close>

lemma addDefaultPort_brackets:
  "addDefaultPort ''[2001:db8::1]'' = ''[[2001:db8::1]]:53'' \<and> SplitHostPort ''[[2001:db8::1]]:53'' = None"
  by code_simp

section \<open>Choosing a resolver\<close>

text \<open>The server has a resolver for every valid configuration, and fails with the message of the
  validation otherwise: the branch for an unsupported type is never reached, and there is no
  resolver of its own exactly when the configuration does not enable one.\<close>

theorem newResolver_total:
  "(newResolver c = Inl e \<longleftrightarrow> ResolverConfig_Validate c = Some e) \<and>
   (newResolver c = Inr None \<longleftrightarrow> ResolverConfig_Validate c = None \<and> \<not> ResolverConfig_Enabled c)"
proof (cases "ResolverConfig_Validate c")
  case None
  then have "resolver_ok c" using ResolverConfig_Validate_ok by simp
  then show ?thesis using None
    unfolding newResolver_def ResolverConfig_Enabled_def resolver_ok_def Let_def by simp blast
next
  case (Some x)
  then show ?thesis by (simp add: newResolver_def)
qed

end
