(* ===== verification/Policy.thy ===== *)
theory Policy
  imports ACL_Rules Resolver
begin

text \<open>
  Where a request may go (\<^verbatim>\<open>cmd/server/acl.go\<close>, \<^verbatim>\<open>cmd/server/private.go\<close>, \<^verbatim>\<open>cmd/server/outbound.go\<close>,
  \<^verbatim>\<open>cmd/server/outbound_tcp.go\<close>, \<^verbatim>\<open>outbound/*.go\<close>): the private filter, the map of outbounds, the
  decision for one destination, TCP requests, and the packet connection that applies the decision
  per packet.

  The address type and its helpers come from the sing library; they are arguments (\<open>sing\<close>), as are
  the network and the resolvers (\<open>penv\<close>). A \<^verbatim>\<open>netip.Addr\<close> is a list of 4 or 16 bytes, the invalid
  address is empty.
\<close>

section \<open>The private filter\<close>

definition IsLoopback :: "IP \<Rightarrow> bool" where
  "IsLoopback a \<longleftrightarrow> (if length a = 4 then a ! 0 = 127 else a = replicate 15 0 @ [1])"

definition IsPrivate :: "IP \<Rightarrow> bool" where
  "IsPrivate a \<longleftrightarrow>
     (if length a = 4 then a ! 0 = 10 \<or> a ! 0 = 172 \<and> a ! 1 AND 0xf0 = 16 \<or> a ! 0 = 192 \<and> a ! 1 = 168
      else length a = 16 \<and> a ! 0 AND 0xfe = 0xfc)"

definition IsUnspecified :: "IP \<Rightarrow> bool" where
  "IsUnspecified a \<longleftrightarrow> a = replicate 4 0 \<or> a = replicate 16 0"

definition IsLinkLocalUnicast :: "IP \<Rightarrow> bool" where
  "IsLinkLocalUnicast a \<longleftrightarrow>
     (if length a = 4 then a ! 0 = 169 \<and> a ! 1 = 254 else length a = 16 \<and> a ! 0 = 0xfe \<and> a ! 1 AND 0xc0 = 0x80)"

definition IsMulticast :: "IP \<Rightarrow> bool" where
  "IsMulticast a \<longleftrightarrow> (if length a = 4 then a ! 0 AND 0xf0 = 0xe0 else length a = 16 \<and> a ! 0 = 0xff)"

definition Prefix_Contains :: "IPNet \<Rightarrow> IP \<Rightarrow> bool" where
  "Prefix_Contains p a \<longleftrightarrow> length a = length (n_IP p) \<and> masked (n_IP p) (n_Mask p) = masked a (n_Mask p)"

definition nonPublicPrefixes :: "IPNet list" where
  "nonPublicPrefixes =
     [\<lparr>n_IP = [0, 0, 0, 0], n_Mask = CIDRMask 8 32\<rparr>, \<lparr>n_IP = [100, 64, 0, 0], n_Mask = CIDRMask 10 32\<rparr>,
      \<lparr>n_IP = [255, 255, 255, 255], n_Mask = CIDRMask 32 32\<rparr>]"

definition isPrivateAddr :: "IP \<Rightarrow> bool" where
  "isPrivateAddr addr0 \<longleftrightarrow>
     (let addr = Unmap addr0
      in IsLoopback addr \<or> IsPrivate addr \<or> IsUnspecified addr \<or> IsLinkLocalUnicast addr \<or> IsMulticast addr \<or>
         list_ex (\<lambda>p. Prefix_Contains p addr) nonPublicPrefixes)"

section \<open>Outbounds\<close>

text \<open>An outbound is a pointer: two of them are equal when they were made by the same call, which the
  number stands for. \<open>Reject\<close> is a value.\<close>

datatype Outbound = Direct nat | Reject | SOCKS5 nat OutboundSOCKS5Config

definition RemoteResolve :: "Outbound \<Rightarrow> bool" where
  "RemoteResolve ob = (case ob of SOCKS5 _ _ \<Rightarrow> True | _ \<Rightarrow> False)"

definition outbound_put :: "string \<Rightarrow> Outbound \<Rightarrow> (string \<times> Outbound) list \<Rightarrow> (string \<times> Outbound) list" where
  "outbound_put name ob m = (case map_of m name of Some _ \<Rightarrow> m | None \<Rightarrow> AList.update name ob m)"

definition outboundMap :: "(string \<times> Outbound) list \<Rightarrow> Outbound \<Rightarrow> (string \<times> Outbound) list" where
  "outboundMap entries direct =
     (let m0 = foldl (\<lambda>m (name, ob). AList.update (ToLower name) ob m) [] entries;
          m1 = outbound_put ''direct'' direct m0;
          m2 = outbound_put ''reject'' Reject m1
      in outbound_put ''default'' (if entries \<noteq> [] then snd (hd entries) else the (map_of m2 ''direct'')) m2)"

fun named_outbounds :: "nat \<Rightarrow> OutboundEntry list \<Rightarrow> config_error + (string \<times> Outbound) list" where
  "named_outbounds i [] = Inr []"
| "named_outbounds i (e # es) =
     (let rest = (\<lambda>ob. case named_outbounds (Suc i) es of Inl err \<Rightarrow> Inl err | Inr l \<Rightarrow> Inr ((oe_Name e, ob) # l))
      in if OutboundEntry_Kind e = ''direct'' then rest (Direct i)
         else if OutboundEntry_Kind e = ''socks5'' then rest (SOCKS5 i (oe_SOCKS5 e))
         else Inl (BadOutboundType i (oe_Type e)))"

definition newOutbounds :: "OutboundEntry list \<Rightarrow> config_error + (string \<times> Outbound) list" where
  "newOutbounds entries =
     (case named_outbounds 0 entries of
        Inl e \<Rightarrow> Inl e
      | Inr l \<Rightarrow> Inr (outboundMap l (Direct (length entries))))"

text \<open>\<^verbatim>\<open>netip.ParseAddr\<close> with its zone: the unspecified address with a zone is not unspecified.\<close>

definition isLocalProxyAddr :: "string \<Rightarrow> bool" where
  "isLocalProxyAddr addr =
     (case SplitHostPort addr of
        None \<Rightarrow> False
      | Some (host, _) \<Rightarrow>
          if EqualFold host ''localhost'' then True
          else let ip = takeWhile (\<lambda>c. c \<noteq> CHR ''%'') host; zone = dropWhile (\<lambda>c. c \<noteq> CHR ''%'') host
               in if zone = [] then (case ParseAddr host of None \<Rightarrow> False | Some a \<Rightarrow> isPrivateAddr a)
                  else if length zone = 1 then False
                  else (case ParseAddr ip of
                          None \<Rightarrow> False
                        | Some a \<Rightarrow> length a = 16 \<and> a \<noteq> replicate 16 0 \<and> isPrivateAddr a))"

section \<open>The decision for one destination\<close>

record Socksaddr =
  sa_Addr :: IP
  sa_Port :: u16
  sa_Fqdn :: string

record sing =
  sg_IsFqdn :: "Socksaddr \<Rightarrow> bool"
  sg_IsIPv4 :: "Socksaddr \<Rightarrow> bool"
  sg_IsIP :: "Socksaddr \<Rightarrow> bool"
  sg_SocksaddrFrom :: "IP \<Rightarrow> u16 \<Rightarrow> Socksaddr"
  sg_String :: "Socksaddr \<Rightarrow> string"

text \<open>What a policy takes from outside: the cache of the rules, the text of an address, IDNA, the
  address helpers, the configured resolver and the system's.\<close>

record 'c penv =
  pe_lru :: "(Outbound, 'c) lru"
  pe_ipString :: "IP \<Rightarrow> string"
  pe_ToUnicode :: "string \<Rightarrow> string option"
  pe_sing :: sing
  pe_Resolve :: "string \<Rightarrow> Result"
  pe_LookupIP :: "string \<Rightarrow> dns_error + IP list"

text \<open>\<open>op_resolver\<close> says whether a resolver is configured.\<close>

record 'c outboundPolicy =
  op_acl :: "(Outbound, 'c) Engine option"
  op_resolver :: bool
  op_blockPrivate :: bool
  op_fallback :: Outbound

definition newOutboundPolicy :: "nat \<Rightarrow> (Outbound, 'c) Engine option \<Rightarrow> bool \<Rightarrow> bool \<Rightarrow> Outbound option \<Rightarrow> 'c outboundPolicy" where
  "newOutboundPolicy fresh engine res blockPrivate fallback =
     \<lparr>op_acl = engine, op_resolver = res, op_blockPrivate = blockPrivate,
      op_fallback = (case fallback of None \<Rightarrow> Direct fresh | Some ob \<Rightarrow> ob)\<rparr>"

record route =
  rt_outbound :: Outbound
  rt_target :: Socksaddr

datatype policy_error =
    ErrRejected
  | ErrPrivateDestination
  | ResolveError "dns_error option"
  | OtherError string  \<comment> \<open>an error of dialing, listening or the network\<close>
  | ErrNetClosed

definition result_of_lookup :: "IP list \<Rightarrow> Result" where
  "result_of_lookup ips =
     foldl (\<lambda>r ip. if To4 ip \<noteq> [] then (if re_IPv4 r = [] then r\<lparr>re_IPv4 := To4 ip\<rparr> else r)
                   else if re_IPv6 r = [] then r\<lparr>re_IPv6 := ip\<rparr> else r)
       \<lparr>re_IPv4 = [], re_IPv6 = [], re_Err = None\<rparr> ips"

definition systemResolve :: "'c penv \<Rightarrow> string \<Rightarrow> Result" where
  "systemResolve env host =
     (case pe_LookupIP env host of
        Inl e \<Rightarrow> \<lparr>re_IPv4 = [], re_IPv6 = [], re_Err = Some e\<rparr>
      | Inr ips \<Rightarrow> result_of_lookup ips)"

definition no_result :: Result where
  "no_result = \<lparr>re_IPv4 = [], re_IPv6 = [], re_Err = None\<rparr>"

definition hostInfo :: "'c penv \<Rightarrow> 'c outboundPolicy \<Rightarrow> Socksaddr \<Rightarrow> string \<times> Result \<times> bool" where
  "hostInfo env p destination =
     (if \<not> sg_IsFqdn (pe_sing env) destination then
        (let ip = sa_Addr destination
         in if sg_IsIPv4 (pe_sing env) destination then (pe_ipString env ip, no_result\<lparr>re_IPv4 := ip\<rparr>, False)
            else (pe_ipString env ip, no_result\<lparr>re_IPv6 := ip\<rparr>, False))
      else if op_resolver p then (sa_Fqdn destination, pe_Resolve env (sa_Fqdn destination), True)
      else if op_acl p = None \<and> \<not> op_blockPrivate p then (sa_Fqdn destination, no_result, False)
      else (sa_Fqdn destination, systemResolve env (sa_Fqdn destination), True))"

definition ipToNetip :: "IP \<Rightarrow> IP" where
  "ipToNetip ip = (if length ip \<noteq> 4 \<and> length ip \<noteq> 16 then [] else Unmap ip)"

definition pickDialAddr :: "sing \<Rightarrow> Socksaddr \<Rightarrow> Result \<Rightarrow> bool \<Rightarrow> policy_error + Socksaddr" where
  "pickDialAddr sg destination result attempted =
     (if re_IPv4 result \<noteq> [] then Inr (sg_SocksaddrFrom sg (ipToNetip (re_IPv4 result)) (sa_Port destination))
      else if re_IPv6 result \<noteq> [] then Inr (sg_SocksaddrFrom sg (ipToNetip (re_IPv6 result)) (sa_Port destination))
      else if attempted then Inl (ResolveError (re_Err result))
      else Inr destination)"

definition isPrivateIP :: "IP \<Rightarrow> bool" where
  "isPrivateIP ip \<longleftrightarrow> ip \<noteq> [] \<and> isPrivateAddr (ipToNetip ip)"

definition reachesPrivate :: "sing \<Rightarrow> Outbound \<Rightarrow> Socksaddr \<Rightarrow> Result \<Rightarrow> bool" where
  "reachesPrivate sg ob addr result =
     (if RemoteResolve ob then isPrivateIP (re_IPv4 result) \<or> isPrivateIP (re_IPv6 result)
      else sg_IsIP sg addr \<and> isPrivateAddr (sa_Addr addr))"

text \<open>The part of \<^verbatim>\<open>selectRoute\<close> after the rules have had their say.\<close>

definition route_by_address ::
  "sing \<Rightarrow> bool \<Rightarrow> Outbound \<Rightarrow> Socksaddr \<Rightarrow> Result \<Rightarrow> bool \<Rightarrow> policy_error + route" where
  "route_by_address sg blockPrivate ob destination result attempted =
     (case pickDialAddr sg destination result attempted of
        Inl err \<Rightarrow>
          if \<not> RemoteResolve ob \<or> blockPrivate then Inl err
          else Inr \<lparr>rt_outbound = ob, rt_target = destination\<rparr>
      | Inr addr \<Rightarrow>
          if blockPrivate \<and> reachesPrivate sg ob addr result then Inl ErrPrivateDestination
          else if RemoteResolve ob then Inr \<lparr>rt_outbound = ob, rt_target = destination\<rparr>
          else Inr \<lparr>rt_outbound = ob, rt_target = addr\<rparr>)"

definition acl_lookup ::
  "'c penv \<Rightarrow> (Outbound, 'c) Engine \<Rightarrow> string \<Rightarrow> Result \<Rightarrow> Protocol \<Rightarrow> u16 \<Rightarrow> (Outbound, 'c) Engine \<times> Outbound \<times> IP" where
  "acl_lookup env e host result proto port =
     Engine_Lookup (pe_lru env) (pe_ipString env) (pe_ToUnicode env) e host (re_IPv4 result) (re_IPv6 result) proto port"

definition selectRoute ::
  "'c penv \<Rightarrow> 'c outboundPolicy \<Rightarrow> Socksaddr \<Rightarrow> Protocol \<Rightarrow> 'c outboundPolicy \<times> (policy_error + route)" where
  "selectRoute env p destination proto =
     (let (host, result, attempted) = hostInfo env p destination
      in case op_acl p of
           None \<Rightarrow> (p, route_by_address (pe_sing env) (op_blockPrivate p) (op_fallback p) destination result attempted)
         | Some e \<Rightarrow>
             (let (e', ob, hijack) = acl_lookup env e host result proto (sa_Port destination);
                  p' = p\<lparr>op_acl := Some e'\<rparr>
              in if ob = Reject then (p', Inl ErrRejected)
                 else if hijack \<noteq> [] then
                   (p', Inr \<lparr>rt_outbound = ob, rt_target = sg_SocksaddrFrom (pe_sing env) (ipToNetip hijack) (sa_Port destination)\<rparr>)
                 else (p', route_by_address (pe_sing env) (op_blockPrivate p) ob destination result attempted)))"

section \<open>TCP requests\<close>

definition clientError :: "policy_error \<Rightarrow> string" where
  "clientError err =
     (case err of
        ErrRejected \<Rightarrow> ''blocked by server policy''
      | ErrPrivateDestination \<Rightarrow> ''blocked by server policy''
      | ResolveError _ \<Rightarrow> ''resolve failed''
      | _ \<Rightarrow> ''dial failed'')"

text \<open>What a request does to the stream and to the network, in order.\<close>

datatype tcp_event = ReportHandshakeFailure string | DialTCP Outbound Socksaddr | ReportHandshakeSuccess | Established | Relay

text \<open>\<open>dial\<close> is the network; the methods of \<open>Reject\<close> always fail.\<close>

definition Outbound_DialTCP :: "(Outbound \<Rightarrow> Socksaddr \<Rightarrow> policy_error option) \<Rightarrow> Outbound \<Rightarrow> Socksaddr \<Rightarrow> policy_error option" where
  "Outbound_DialTCP dial ob target = (case ob of Reject \<Rightarrow> Some ErrRejected | _ \<Rightarrow> dial ob target)"

definition proxyOutboundTCP ::
  "'c penv \<Rightarrow> (Outbound \<Rightarrow> Socksaddr \<Rightarrow> policy_error option) \<Rightarrow> policy_error option \<Rightarrow> 'c outboundPolicy \<Rightarrow> bool \<Rightarrow> Socksaddr
   \<Rightarrow> 'c outboundPolicy \<times> tcp_event list" where
  "proxyOutboundTCP env dial success p hasStats destination =
     (case selectRoute env p destination ProtocolTCP of
        (p', Inl err) \<Rightarrow> (p', [ReportHandshakeFailure (clientError err)])
      | (p', Inr r) \<Rightarrow>
          (p', DialTCP (rt_outbound r) (rt_target r) #
             (case Outbound_DialTCP dial (rt_outbound r) (rt_target r) of
                Some err \<Rightarrow> [ReportHandshakeFailure (clientError err)]
              | None \<Rightarrow> ReportHandshakeSuccess #
                  (if success \<noteq> None then [] else (if hasStats then [Established] else []) @ [Relay]))))"

text \<open>A stream of datagrams. Reading the request, unless the client speaks the old version, and the report may fail; the
  framing of the packets and the copying are the \<^verbatim>\<open>sing\<close> library's. The relay counts the payload for the user
  if there is a counter, and its other end is a new packet connection of the policy.\<close>

datatype uot_event = ReadUoTRequest | ClearReadDeadline | ReportUoTSuccess | RelayPackets bool

definition proxyOutboundUoT :: "policy_error option \<Rightarrow> policy_error option \<Rightarrow> bool \<Rightarrow> bool \<Rightarrow> uot_event list" where
  "proxyOutboundUoT request success legacy hasCounter =
     (if \<not> legacy \<and> request \<noteq> None then [ReadUoTRequest]
      else (if legacy then [] else [ReadUoTRequest]) @ [ClearReadDeadline, ReportUoTSuccess] @
        (if success \<noteq> None then [] else [RelayPackets hasCounter]))"

section \<open>The packet connection\<close>

text \<open>A decision; \<open>None\<close> is a rejection.\<close>

type_synonym policyDecision = "route option"

definition maxSessionACLCache :: nat where
  "maxSessionACLCache = 256"

text \<open>\<open>pc_sent\<close> is the trace of what was handed to the socket. The channel \<^verbatim>\<open>ready\<close> is a flag.\<close>

record ('c, 'b) routedPacketConn =
  pc_policy :: "'c outboundPolicy"
  pc_cache :: "(string \<times> policyDecision) list"
  pc_outbound :: "Outbound option"
  pc_conn :: "nat option"
  pc_closed :: bool
  pc_ready :: bool
  pc_sent :: "(Outbound \<times> Socksaddr \<times> 'b) list"
  pc_conn_closed :: bool

definition newRoutedPacketConn :: "'c outboundPolicy \<Rightarrow> ('c, 'b) routedPacketConn" where
  "newRoutedPacketConn p =
     \<lparr>pc_policy = p, pc_cache = [], pc_outbound = None, pc_conn = None, pc_closed = False, pc_ready = False,
      pc_sent = [], pc_conn_closed = False\<rparr>"

definition decide ::
  "'c penv \<Rightarrow> Socksaddr \<Rightarrow> ('c, 'b) routedPacketConn \<Rightarrow> ('c, 'b) routedPacketConn \<times> policyDecision" where
  "decide env destination c =
     (let (p, r) = selectRoute env (pc_policy c) destination ProtocolUDP
      in (c\<lparr>pc_policy := p\<rparr>, case r of Inl _ \<Rightarrow> None | Inr rt \<Rightarrow> Some rt))"

text \<open>The cached decision, or a new one. The iteration over a full cache meets any of its keys first:
  the one that \<open>evict\<close> picks.\<close>

definition cached_decision ::
  "'c penv \<Rightarrow> nat \<Rightarrow> Socksaddr \<Rightarrow> ('c, 'b) routedPacketConn \<Rightarrow> ('c, 'b) routedPacketConn \<times> policyDecision" where
  "cached_decision env evict destination c =
     (let key = sg_String (pe_sing env) destination
      in case map_of (pc_cache c) key of
           Some d \<Rightarrow> (c, d)
         | None \<Rightarrow>
             (let (c1, d) = decide env destination c;
                  m = pc_cache c1;
                  kept = (if length m \<ge> maxSessionACLCache then AList.delete (fst (m ! (evict mod length m))) m else m)
              in (c1\<lparr>pc_cache := AList.update key d kept\<rparr>, d)))"

text \<open>\<open>listen\<close> and \<open>send\<close> are what the network answers.\<close>

definition WritePacket ::
  "'c penv \<Rightarrow> nat \<Rightarrow> (Outbound \<Rightarrow> policy_error + nat) \<Rightarrow> policy_error option \<Rightarrow> 'b \<Rightarrow> Socksaddr \<Rightarrow> ('c, 'b) routedPacketConn
   \<Rightarrow> ('c, 'b) routedPacketConn \<times> policy_error option" where
  "WritePacket env evict listen send b destination c0 =
     (case cached_decision env evict destination c0 of
        (c, None) \<Rightarrow> (c, None)
      | (c, Some r) \<Rightarrow>
          if pc_closed c then (c, Some ErrNetClosed)
          else case (if pc_conn c \<noteq> None then Inr c
                     else case (if rt_outbound r = Reject then Inl ErrRejected else listen (rt_outbound r)) of
                       Inl err \<Rightarrow> Inl err
                     | Inr conn \<Rightarrow> Inr (c\<lparr>pc_outbound := Some (rt_outbound r), pc_conn := Some conn, pc_ready := True\<rparr>)) of
            Inl err \<Rightarrow> (c, Some err)
          | Inr c1 \<Rightarrow>
              if Some (rt_outbound r) \<noteq> pc_outbound c1 then (c1, None)
              else (c1\<lparr>pc_sent := pc_sent c1 @ [(rt_outbound r, rt_target r, b)]\<rparr>, send))"

text \<open>\<open>None\<close> is a call that is still blocked; \<open>recv\<close> is what the socket returns.\<close>

definition ReadPacket :: "(nat \<Rightarrow> policy_error + Socksaddr) \<Rightarrow> ('c, 'b) routedPacketConn \<Rightarrow> (policy_error + Socksaddr) option" where
  "ReadPacket recv c =
     (if \<not> pc_ready c then None
      else case pc_conn c of None \<Rightarrow> Some (Inl ErrNetClosed) | Some conn \<Rightarrow> Some (recv conn))"

definition PacketConn_Close :: "('c, 'b) routedPacketConn \<Rightarrow> ('c, 'b) routedPacketConn" where
  "PacketConn_Close c =
     (if pc_closed c then c
      else c\<lparr>pc_closed := True, pc_ready := True, pc_conn_closed := pc_conn_closed c \<or> pc_conn c \<noteq> None\<rparr>)"

section \<open>The private filter covers the special-purpose networks\<close>

text \<open>The networks the filter stands for: a base address and the length of its prefix.\<close>

definition private_networks :: "(IP \<times> nat) list" where
  "private_networks =
     [([0, 0, 0, 0], 8), ([10, 0, 0, 0], 8), ([100, 64, 0, 0], 10), ([127, 0, 0, 0], 8), ([169, 254, 0, 0], 16),
      ([172, 16, 0, 0], 12), ([192, 168, 0, 0], 16), ([224, 0, 0, 0], 4), ([255, 255, 255, 255], 32),
      (replicate 16 0, 128), (replicate 15 0 @ [1], 128), (0xfc # replicate 15 0, 7),
      (0xfe # 0x80 # replicate 14 0, 10), (0xff # replicate 15 0, 8)]"

definition network_of :: "IP \<times> nat \<Rightarrow> IPNet" where
  "network_of n = \<lparr>n_IP = fst n, n_Mask = CIDRMask (snd n) (8 * length (fst n))\<rparr>"

lemma list4: "length a = 4 \<Longrightarrow> \<exists>b c d e. a = [b, c, d, e]"
  by (auto simp: numeral_eq_Suc length_Suc_conv)

lemma list16: "length a = 16 \<Longrightarrow> \<exists>b c d. a = b # c # d \<and> length d = 14"
  by (auto simp: numeral_eq_Suc length_Suc_conv)

lemma masks:
  "CIDRMask 8 32 = [255, 0, 0, 0]" "CIDRMask 10 32 = [255, 192, 0, 0]" "CIDRMask 16 32 = [255, 255, 0, 0]"
  "CIDRMask 12 32 = [255, 240, 0, 0]" "CIDRMask 4 32 = [240, 0, 0, 0]" "CIDRMask 32 32 = [255, 255, 255, 255]"
  "CIDRMask 128 128 = replicate 16 255" "CIDRMask 7 128 = 254 # replicate 15 0"
  "CIDRMask 10 128 = 255 # 192 # replicate 14 0" "CIDRMask 8 128 = 255 # replicate 15 0"
  by code_simp+

lemma byte_and_255 [simp]: "(a :: byte) AND 255 = a"
proof -
  have "(255 :: byte) = mask 8" by (simp add: mask_eq_exp_minus_1)
  moreover have "a AND mask 8 = a" by (rule bit_eqI) (auto simp: bit_simps dest: bit_imp_le_length)
  ultimately show ?thesis by simp
qed

lemma masked_Cons [simp]: "masked (a # as) (m # ms) = (a AND m) # masked as ms"
  by (simp add: masked_def)

lemma masked_Nil [simp]: "masked [] [] = []"
  by (simp add: masked_def)

lemma masked_zero: "length a = n \<Longrightarrow> masked a (replicate n 0) = replicate n 0"
  unfolding masked_def by (induction a arbitrary: n) auto

lemma masked_full: "length a = n \<Longrightarrow> masked a (replicate n 255) = a"
  unfolding masked_def by (induction a arbitrary: n) auto

lemma contains_family:
  assumes "family b ip" "family b a" "k \<le> 8 * b"
  shows "IPNet_Contains (network_of (ip, k)) a \<longleftrightarrow> masked ip (CIDRMask k (8 * b)) = masked a (CIDRMask k (8 * b))"
proof -
  have u: "(if To4 x \<noteq> [] then To4 x else x) = x" if "family b x" for x using that by (auto simp: family_def To4_def)
  have "length (CIDRMask k (8 * b)) = b" using assms by (auto simp: CIDRMask_def family_def)
  moreover have "b = 4 \<Longrightarrow> To4 ip \<noteq> []" using assms(1) by (auto simp: family_def To4_def)
  ultimately have "networkNumberAndMask (network_of (ip, k)) = (ip, CIDRMask k (8 * b))"
    using u [OF assms(1)] assms(1) by (auto simp: networkNumberAndMask_def network_of_def family_def Let_def)
  then show ?thesis using u [OF assms(2)] assms(1,2) by (simp add: IPNet_Contains_def family_def)
qed

lemma contains_other:
  assumes "family b ip" "family b' a" "b \<noteq> b'" "k \<le> 8 * b"
  shows "\<not> IPNet_Contains (network_of (ip, k)) a"
proof -
  have u: "(if To4 x \<noteq> [] then To4 x else x) = x" if "family b x" for x b using that by (auto simp: family_def To4_def)
  have "length (CIDRMask k (8 * b)) = b" using assms by (auto simp: CIDRMask_def family_def)
  moreover have "b = 4 \<Longrightarrow> To4 ip \<noteq> []" using assms(1) by (auto simp: family_def To4_def)
  ultimately have "networkNumberAndMask (network_of (ip, k)) = (ip, CIDRMask k (8 * b))"
    using u [OF assms(1)] assms(1) by (auto simp: networkNumberAndMask_def network_of_def family_def Let_def)
  then show ?thesis using u [OF assms(2)] assms by (auto simp: IPNet_Contains_def family_def)
qed

lemma private_networks_families:
  "list_all (\<lambda>n. family 4 (fst n) \<and> snd n \<le> 32) (take 9 private_networks)"
  "list_all (\<lambda>n. family 16 (fst n) \<and> snd n \<le> 128) (drop 9 private_networks)"
  by code_simp+

lemma private_by_family:
  assumes "family b a"
  shows "(\<exists>n \<in> set private_networks. IPNet_Contains (network_of n) a) \<longleftrightarrow>
    (\<exists>n \<in> set (if b = 4 then take 9 private_networks else drop 9 private_networks).
       masked (fst n) (CIDRMask (snd n) (8 * b)) = masked a (CIDRMask (snd n) (8 * b)))"
proof -
  let ?in = "\<lambda>n. IPNet_Contains (network_of n) a"
  let ?eq = "\<lambda>n. masked (fst n) (CIDRMask (snd n) (8 * b)) = masked a (CIDRMask (snd n) (8 * b))"
  have b: "b = 4 \<or> b = 16" using assms by (auto simp: family_def)
  have split: "set private_networks = set (take 9 private_networks) \<union> set (drop 9 private_networks)"
    by (metis append_take_drop_id set_append)
  have v4: "?in n = (b = 4 \<and> ?eq n)" if "n \<in> set (take 9 private_networks)" for n
    using that private_networks_families(1) contains_family [of b "fst n" a "snd n"] contains_other [of 4 "fst n" b a "snd n"]
      assms unfolding list_all_iff by (cases "b = 4") auto
  have v6: "?in n = (b = 16 \<and> ?eq n)" if "n \<in> set (drop 9 private_networks)" for n
    using that private_networks_families(2) contains_family [of b "fst n" a "snd n"] contains_other [of 16 "fst n" b a "snd n"]
      assms unfolding list_all_iff by (cases "b = 16") auto
  have "(\<exists>n \<in> set (take 9 private_networks). ?in n) \<longleftrightarrow> (\<exists>n \<in> set (take 9 private_networks). b = 4 \<and> ?eq n)"
    by (intro bex_cong refl v4)
  moreover have "(\<exists>n \<in> set (drop 9 private_networks). ?in n) \<longleftrightarrow> (\<exists>n \<in> set (drop 9 private_networks). b = 16 \<and> ?eq n)"
    by (intro bex_cong refl v6)
  ultimately show ?thesis unfolding split bex_Un using b by (cases "b = 4") simp_all
qed

lemma replicate4: "replicate 4 x = [x, x, x, x]"
  by (simp add: numeral_eq_Suc)

lemma private_v4:
  assumes "length a = 4"
  shows "isPrivateAddr a \<longleftrightarrow> (\<exists>n \<in> set private_networks. IPNet_Contains (network_of n) a)"
proof -
  obtain b c d e where a: "a = [b, c, d, e]" using list4 [OF assms] by blast
  have f: "family 4 [b, c, d, e]" by (simp add: family_def)
  have no: "[b, c, d, e] \<noteq> replicate 16 0" by (simp add: numeral_eq_Suc)
  show ?thesis unfolding a private_by_family [OF f]
    by (simp add: private_networks_def masks isPrivateAddr_def Unmap_def To4_def IsLoopback_def IsPrivate_def no
        IsUnspecified_def IsLinkLocalUnicast_def IsMulticast_def nonPublicPrefixes_def Prefix_Contains_def replicate4) blast
qed

lemma private_v6:
  assumes "length a = 16" "To4 a = []"
  shows "isPrivateAddr a \<longleftrightarrow> (\<exists>n \<in> set private_networks. IPNet_Contains (network_of n) a)"
proof -
  have f: "family 16 a" using assms by (simp add: family_def)
  obtain b c d where a: "a = b # c # d" and d: "length d = 14" using list16 [OF assms(1)] by blast
  have z: "replicate 15 0 = (0 :: byte) # replicate 14 0" "replicate 16 255 = (255 :: byte) # 255 # replicate 14 255"
    by (simp_all add: numeral_eq_Suc)
  have "isPrivateAddr a \<longleftrightarrow> a = replicate 15 0 @ [1] \<or> b AND 0xfe = 0xfc \<or> a = replicate 16 0 \<or>
      b = 0xfe \<and> c AND 0xc0 = 0x80 \<or> b = 0xff"
    using assms d by (auto simp: isPrivateAddr_def Unmap_def IsLoopback_def IsPrivate_def
        IsUnspecified_def IsLinkLocalUnicast_def IsMulticast_def nonPublicPrefixes_def Prefix_Contains_def a replicate4)
  also have "\<dots> \<longleftrightarrow> (\<exists>n \<in> set (drop 9 private_networks). masked (fst n) (CIDRMask (snd n) 128) = masked a (CIDRMask (snd n) 128))"
    using masked_zero [of d 14] masked_zero [of "replicate 14 0" 14] masked_full [of a 16] masked_full [of "replicate 16 0" 16]
      masked_full [of "replicate 15 0 @ [1]" 16] assms(1) d
    by (auto simp: private_networks_def masks a z)
  finally show ?thesis unfolding private_by_family [OF f] by simp
qed

text \<open>C29. The private filter. An address is private exactly when it, or the IPv4 address it maps, lies in
  one of the special-purpose networks: this network, 10/8, shared, loopback, link-local,
  172.16/12, 192.168/16, multicast and broadcast for IPv4; unspecified, loopback, unique local,
  link-local and multicast for IPv6.\<close>

theorem isPrivateAddr_networks:
  assumes "length a = 4 \<or> length a = 16"
  shows "isPrivateAddr a \<longleftrightarrow> (\<exists>n \<in> set private_networks. IPNet_Contains (network_of n) a)"
proof (cases "length a = 16 \<and> To4 a \<noteq> []")
  case True
  have u: "Unmap a = To4 a" "length (To4 a) = 4" using True To4_length by (simp_all add: Unmap_def)
  then have uu: "Unmap (To4 a) = Unmap a" by (simp add: Unmap_def To4_def)
  then have "isPrivateAddr a = isPrivateAddr (To4 a)" by (simp add: isPrivateAddr_def)
  moreover have "IPNet_Contains n a = IPNet_Contains n (To4 a)" for n by (rule Contains_Unmap) (simp add: uu)
  ultimately show ?thesis using private_v4 [OF u(2)] by simp
next
  case False
  then show ?thesis using assms private_v4 private_v6 by blast
qed

theorem isPrivateAddr_networks_witness:
  "isPrivateAddr [169, 254, 169, 254] \<and> \<not> isPrivateAddr [8, 8, 8, 8]"
proof -
  have "\<exists>n \<in> set private_networks. IPNet_Contains (network_of n) [169, 254, 169, 254]"
    "\<not> (\<exists>n \<in> set private_networks. IPNet_Contains (network_of n) [8, 8, 8, 8])" by code_simp+
  then show ?thesis using isPrivateAddr_networks [of "[169, 254, 169, 254]"] isPrivateAddr_networks [of "[8, 8, 8, 8]"] by simp
qed

end
