(* ===== verification/Request.thy ===== *)
theory Request
  imports Session_Script Handshake Policy
begin

text \<open>
  A request from the client to the handler of the server: the first packet is admitted, the session
  that follows it carries every stream, and the address a stream starts with is the one the server
  acts on. The theory puts the handshake and the session together; it defines nothing of its own
  beyond a small instance.
\<close>

text \<open>C1. A request reaches the handler it is meant for. A client that knows the password opens a connection,
  writes the first packet, starts a session and opens and writes streams in any order, at most 1024 of them, with whatever
  padding its scheme asks for, on a connection that takes what it writes. All of this succeeds, and
  for a server that gets these bytes, however much of them its first read returns beyond the first
  packet: the client is admitted under the id of the password, and the session on the rest of the
  bytes ends up with exactly the client's streams, in order, each with exactly the data written on
  it; a stream that starts with a serialized address is read as that address followed by the data
  after it.\<close>

theorem request_reaches_handler:
  assumes "reads_front rc ReadBytes" and "appends cap wc w" and "length (sha (bytes_of password)) = 32"
    and "scheme_bounded p" and "pad = GenerateRecordPayloadSizes rnd p 0" and "CheckMark \<notin> set (take 1 pad)"
    and "34 + (if pad = [] then 0 else nat (hd pad)) \<le> cap"
    and "iterates ev" and "newline \<notin> set (pf_Md5 p)" and "wf_frame (settings_frame (NewClientSession ev cc p))"
    and "unlimited cc" and "nc_sent cc = wc (auth_packet w (sha (bytes_of password)) pad)"
    and "scripted 0 (Open # a # as)" and "opens (Open # a # as) \<le> 1024"
    and "\<And>d x. ReadAddrPort (ser d @ x) = Some (d, x)"
  shows "\<exists>c. perform (Session_Run (NewClientSession ev cc p)) (Open # a # as) = Some c \<and>
    (\<forall>b later. rc b @ later = nc_sent (s_conn c) \<and> length (nc_sent cc) \<le> length (rc b) \<longrightarrow>
      (\<exists>b'. server_handshake ReadBytes (PasswordAuthenticator_Authenticate (NewPasswordAuthenticator sha password)) remote (Some b) st =
           (Admitted (pa_id (NewPasswordAuthenticator sha password)) b', st) \<and>
         (\<forall>k. c_in k = rc b' @ later \<and> c_room k = None \<and> \<not> c_closed k \<longrightarrow>
            (let s = Session_Run (NewServerSession sev (Plain k) True sp) in
               view_of s = expected (Open # a # as) [] \<and>
               (\<forall>r d x. r < length (s_store s) \<and> snd (expected (Open # a # as) [] ! r) = ser d @ x \<longrightarrow>
                  ReadAddrPort (received s r) = Some (d, x))))))"
proof -
  obtain c where c: "perform (Session_Run (NewClientSession ev cc p)) (Open # a # as) = Some c" "s_buffer c = []"
    using start_total [OF assms(11,13)] by blast
  obtain body where body: "nc_sent (s_conn c) = nc_sent cc @ body" using session_extends [OF c] assms(4,14) by blast
  have "\<exists>b'. server_handshake ReadBytes (PasswordAuthenticator_Authenticate (NewPasswordAuthenticator sha password)) remote (Some b) st =
           (Admitted (pa_id (NewPasswordAuthenticator sha password)) b', st) \<and> rc b' @ later = body"
    if "rc b @ later = nc_sent (s_conn c)" "length (nc_sent cc) \<le> length (rc b)" for b later
  proof -
    let ?n = "length (nc_sent cc)"
    have e: "rc b @ later = nc_sent cc @ body" using that(1) body by simp
    have t: "take ?n (rc b) = nc_sent cc" using arg_cong [OF e, of "take ?n"] that(2) by simp
    have r: "rc b = nc_sent cc @ drop ?n (rc b)" "drop ?n (rc b) @ later = body"
      using t arg_cong [OF e, of "drop ?n"] that(2) by (metis append_take_drop_id, simp)
    then show ?thesis using client_is_admitted [where sha = sha and password = password and b = b, OF assms(1-7) r(1) [unfolded assms(12)]] r(2) assms(12) by auto
  qed
  moreover have "view_of (Session_Run (NewServerSession sev (Plain k) True sp)) = expected (Open # a # as) []"
    if "c_in k = body" "c_room k = None" "\<not> c_closed k" for k
    by (rule session_carries [OF c assms(4,8-10,14)]) (use that body in simp_all)
  moreover have "ReadAddrPort (received s r) = Some (d, x)"
    if "view_of s = v" "r < length (s_store s)" "snd (v ! r) = ser d @ x" for s v r d x
    using that assms(15) by (auto simp: view_of_def received_def)
  ultimately show ?thesis using c(1) unfolding Let_def by (intro exI [of _ c]) metis
qed

text \<open>The small instance: an address is one byte.\<close>

lemma demo_no_first_size: "GenerateRecordPayloadSizes rnd demo_padding 0 = []"
proof -
  have "FormatUint 0 = ''0''" by code_simp
  then show ?thesis by (simp add: GenerateRecordPayloadSizes_def demo_padding_def del: FormatUint.simps)
qed

definition demo_script :: "act list" where
  "demo_script = [Open, Send 0 [3], Open, Send 1 [4, 5], Send 0 [6]]"

definition demo_dialed :: netConn where
  "demo_dialed = Plain \<lparr>c_in = [], c_out = [auth_packet list_writer (replicate 32 7) []], c_room = None, c_closed = False\<rparr>"

theorem request_reaches_handler_witness:
  "\<exists>c b'. perform (Session_Run (NewClientSession demo_env demo_dialed demo_padding)) demo_script = Some c \<and>
     server_handshake list_ReadBytes (PasswordAuthenticator_Authenticate (NewPasswordAuthenticator (\<lambda>x. replicate 32 7) ''pw''))
       ''10.0.0.1:1000'' (Some (nc_sent (s_conn c))) () = (Admitted (pa_id (NewPasswordAuthenticator (\<lambda>x. replicate 32 7) ''pw'')) b', ()) \<and>
     view_of (Session_Run (NewServerSession demo_env (demo_conn b') True demo_padding)) = [(1, [3, 6]), (2, [4, 5])]"
proof -
  have e: "expected demo_script [] = [(1, [3, 6]), (2, [4, 5])]" by (simp add: demo_script_def)
  have w: "wf_frame (settings_frame (NewClientSession demo_env demo_dialed demo_padding))"
    by (simp add: wf_frame_def settings_frame_def newFrame_def carries_data_def client_settings_def demo_env_def NewClientSession_def
        demo_padding_def StringMap_ToBytes_def ProgramVersionName_def)
  have i: "iterates demo_env" "newline \<notin> set (pf_Md5 demo_padding)" by (simp_all add: iterates_def demo_env_def demo_padding_def)
  have d: "unlimited demo_dialed" "nc_sent demo_dialed = id (auth_packet list_writer (replicate 32 7) [])"
    by (simp_all add: unlimited_def demo_dialed_def nc_sent_def sent_def)
  have s: "scripted 0 (Open # Send 0 [3] # tl (tl demo_script))" "opens (Open # Send 0 [3] # tl (tl demo_script)) \<le> 1024"
    "demo_script = Open # Send 0 [3] # tl (tl demo_script)" by (simp_all add: demo_script_def)
  note all = request_reaches_handler [where password = "''pw''" and sha = "\<lambda>x. replicate 32 7" and ser = "\<lambda>d :: byte. [d]" and
      ReadAddrPort = "\<lambda>b. if b = [] then None else Some (hd b, tl b)" and remote = "''10.0.0.1:1000''" and st = "()" and
      sev = demo_env and sp = demo_padding,
      OF list_buffer _ demo_bounded demo_no_first_size [symmetric] _ _ i w d s(1,2)]
  obtain c where c: "perform (Session_Run (NewClientSession demo_env demo_dialed demo_padding)) demo_script = Some c"
    and srv: "\<forall>b later. id b @ later = nc_sent (s_conn c) \<and> length (nc_sent demo_dialed) \<le> length (id b) \<longrightarrow>
      (\<exists>b'. server_handshake list_ReadBytes (PasswordAuthenticator_Authenticate (NewPasswordAuthenticator (\<lambda>x. replicate 32 7) ''pw''))
           ''10.0.0.1:1000'' (Some b) () = (Admitted (pa_id (NewPasswordAuthenticator (\<lambda>x. replicate 32 7) ''pw'')) b', ()) \<and>
         (\<forall>k. c_in k = id b' @ later \<and> c_room k = None \<and> \<not> c_closed k \<longrightarrow>
            view_of (Session_Run (NewServerSession demo_env (Plain k) True demo_padding)) = expected demo_script []))"
    using all unfolding s(3) [symmetric] Let_def by (simp del: id_apply) metis
  have "\<exists>x. nc_sent (s_conn c) = nc_sent demo_dialed @ x"
    using session_extends [OF _ _ demo_bounded s(2)] start_total [OF d(1) s(1)] c unfolding s(3) [symmetric] by (metis option.inject)
  then have l: "id (nc_sent (s_conn c)) @ [] = nc_sent (s_conn c)" "length (nc_sent demo_dialed) \<le> length (id (nc_sent (s_conn c)))" by auto
  obtain b' where b': "server_handshake list_ReadBytes (PasswordAuthenticator_Authenticate (NewPasswordAuthenticator (\<lambda>x. replicate 32 7) ''pw''))
           ''10.0.0.1:1000'' (Some (nc_sent (s_conn c))) () = (Admitted (pa_id (NewPasswordAuthenticator (\<lambda>x. replicate 32 7) ''pw'')) b', ())"
      "\<forall>k. c_in k = id b' @ [] \<and> c_room k = None \<and> \<not> c_closed k \<longrightarrow>
            view_of (Session_Run (NewServerSession demo_env (Plain k) True demo_padding)) = expected demo_script []"
    using srv l by blast
  then show ?thesis using c e by (intro exI [of _ c] exI [of _ b']) (simp add: demo_conn_def)
qed

end
