(* ===== verification/Devices.thy ===== *)
theory Devices
  imports Go_Strings Prelude
begin

text \<open>
  Reference-counted devices. The limiter and the statistics both keep one object per device, a
  pair of credential and source host, shared by all sessions of the device and dropped with the
  last one. The locale \<open>refcounted\<close> states what either registry promises for one acquire and one
  release; its lemmas give what any paired use of them keeps.

  An object is a pointer: an index into the list of all objects ever made.
\<close>

record deviceKey =
  dk_auth :: string
  dk_ip :: string

text \<open>\<^verbatim>\<open>hostOnly\<close> of both packages.\<close>

definition hostOnly :: "string \<Rightarrow> string" where
  "hostOnly addr = (case SplitHostPort addr of Some (host, _) \<Rightarrow> host | None \<Rightarrow> addr)"

definition device_of :: "string \<Rightarrow> string \<Rightarrow> deviceKey" where
  "device_of authID remoteAddr = \<lparr>dk_auth = authID, dk_ip = hostOnly remoteAddr\<rparr>"

text \<open>Sessions come and go: one acquires its device, another gives it back. The second component is
  the pointers in use, one per session. An acquire that does not return is \<open>None\<close>, and so is the
  sequence it is part of.\<close>

datatype session_op = Comes string string | Goes nat

fun use_devices ::
  "(string \<Rightarrow> string \<Rightarrow> 'r \<Rightarrow> ('r \<times> nat) option) \<Rightarrow> (nat \<Rightarrow> 'r \<Rightarrow> 'r) \<Rightarrow> session_op list \<Rightarrow> 'r \<times> nat list \<Rightarrow>
   ('r \<times> nat list) option" where
  "use_devices acquire release [] s = Some s"
| "use_devices acquire release (Comes authID remote # ops) (r, held) =
     (case acquire authID remote r of
        None \<Rightarrow> None
      | Some (r', d) \<Rightarrow> use_devices acquire release ops (r', d # held))"
| "use_devices acquire release (Goes i # ops) (r, held) =
     (if i < length held
      then use_devices acquire release ops (release (held ! i) r, take i held @ drop (Suc i) held)
      else use_devices acquire release ops (r, held))"

lemma use_devices_total:
  "(\<And>a h r. \<exists>x. acquire a h r = Some x) \<Longrightarrow> \<exists>r' held'. use_devices acquire release ops (r, held) = Some (r', held')"
proof (induction ops arbitrary: r held)
  case (Cons op ops)
  show ?case
  proof (cases op)
    case (Comes a h)
    obtain q d where "acquire a h r = Some (q, d)" using Cons.prems by (metis surj_pair)
    then show ?thesis using Cons Comes by simp
  qed (use Cons in simp)
qed simp

locale refcounted =
  fixes devices :: "'r \<Rightarrow> (deviceKey \<times> nat) list"
    and key :: "'r \<Rightarrow> nat \<Rightarrow> deviceKey"
    and refs :: "'r \<Rightarrow> nat \<Rightarrow> int"
    and made :: "'r \<Rightarrow> nat"
    and ok :: "'r \<Rightarrow> bool"
    and acquire :: "string \<Rightarrow> string \<Rightarrow> 'r \<Rightarrow> ('r \<times> nat) option"
    and release :: "nat \<Rightarrow> 'r \<Rightarrow> 'r"
  assumes acquire_ok: "ok r \<Longrightarrow> acquire a h r = Some (r', d) \<Longrightarrow> ok r'"
    and acquire_old: "ok r \<Longrightarrow> acquire a h r = Some (r', d) \<Longrightarrow> map_of (devices r) (device_of a h) = Some p \<Longrightarrow>
      d = p \<and> devices r' = devices r \<and> made r' = made r \<and> key r' = key r \<and> refs r' = (refs r)(p := refs r p + 1)"
    and acquire_new: "ok r \<Longrightarrow> acquire a h r = Some (r', d) \<Longrightarrow> map_of (devices r) (device_of a h) = None \<Longrightarrow>
      d = made r \<and> made r' = Suc (made r) \<and> devices r' = AList.update (device_of a h) d (devices r) \<and>
      key r' d = device_of a h \<and> refs r' d = 1 \<and> (\<forall>q < made r. key r' q = key r q \<and> refs r' q = refs r q)"
    and release_ok: "ok r \<Longrightarrow> d < made r \<Longrightarrow> ok (release d r)"
    and release_law: "ok r \<Longrightarrow> d < made r \<Longrightarrow>
      made (release d r) = made r \<and> key (release d r) = key r \<and> refs (release d r) = (refs r)(d := refs r d - 1) \<and>
      devices (release d r) = (if refs r d - 1 \<le> 0 then AList.delete (key r d) (devices r) else devices r)"
begin

text \<open>The map holds exactly the devices in use, and each counts its users.\<close>

definition counted :: "'r \<Rightarrow> nat list \<Rightarrow> bool" where
  "counted r held \<longleftrightarrow> ok r \<and> distinct (map fst (devices r)) \<and> (\<forall>d \<in> set held. d < made r) \<and>
     (\<forall>k d. map_of (devices r) k = Some d \<longleftrightarrow> d \<in> set held \<and> key r d = k) \<and>
     (\<forall>d < made r. refs r d = int (count_list held d))"

lemma counted_acquire:
  assumes "counted r held" "acquire a h r = Some (r', d)"
  shows "counted r' (d # held)"
proof (cases "map_of (devices r) (device_of a h)")
  case (Some p)
  note c = assms(1) [unfolded counted_def]
  note l = acquire_old [OF conjunct1 [OF c] assms(2) Some]
  have ok: "ok r'" using acquire_ok c assms(2) by blast
  have p: "p \<in> set held" "key r p = device_of a h" "p < made r" using c Some by blast+
  have "map_of (devices r') k = Some q \<longleftrightarrow> q \<in> set (d # held) \<and> key r' q = k" for k q
    using c l p(1) by auto
  moreover have "refs r' q = int (count_list (d # held) q)" if "q < made r'" for q
    using c l that by simp
  ultimately show ?thesis unfolding counted_def using c l ok p(3) by simp
next
  case None
  note c = assms(1) [unfolded counted_def]
  note l = acquire_new [OF conjunct1 [OF c] assms(2) None]
  have ok: "ok r'" using acquire_ok c assms(2) by blast
  have fresh: "d \<notin> set held" using c l by (metis less_irrefl)
  have keys: "key r' q = key r q" if "q \<in> set held" for q using c l that by blast
  have none: "q \<in> set held \<Longrightarrow> key r q \<noteq> device_of a h" for q using c None by (metis option.distinct(1))
  have "map_of (devices r') k = Some q \<longleftrightarrow> q \<in> set (d # held) \<and> key r' q = k" for k q
  proof -
    have m: "map_of (devices r') k = (if k = device_of a h then Some d else map_of (devices r) k)"
      using l by (simp add: update_conv')
    have cq: "map_of (devices r) k = Some q \<longleftrightarrow> q \<in> set held \<and> key r q = k" using c by blast
    show ?thesis
    proof (cases "q = d")
      case True
      then show ?thesis using m cq fresh l by auto
    next
      case False
      then show ?thesis using m cq keys [of q] none [of q] by auto
    qed
  qed
  moreover have "refs r' q = int (count_list (d # held) q)" if "q < made r'" for q
  proof (cases "q = d")
    case True
    then show ?thesis using l fresh by (auto simp: count_list_0_iff)
  next
    case False
    then have "q < made r" using l that by simp
    then show ?thesis using c l False by simp
  qed
  moreover have "\<forall>q \<in> set (d # held). q < made r'" using c l by (metis less_SucI lessI set_ConsD)
  moreover have "distinct (map fst (devices r'))" using c l by (simp add: distinct_update)
  ultimately show ?thesis unfolding counted_def using ok by blast
qed

lemma counted_release:
  assumes "counted r held" "i < length held"
  shows "counted (release (held ! i) r) (take i held @ drop (Suc i) held)"
proof -
  let ?d = "held ! i" and ?rest = "take i held @ drop (Suc i) held"
  note c = assms(1) [unfolded counted_def]
  have d: "?d \<in> set held" "?d < made r" using assms(2) c by auto
  note l = release_law [OF conjunct1 [OF c] d(2)]
  have held: "held = take i held @ ?d # drop (Suc i) held" by (rule id_take_nth_drop [OF assms(2)])
  have cnt: "count_list held q = count_list ?rest q + (if q = ?d then 1 else 0)" for q
    using arg_cong [OF held, of "\<lambda>l. count_list l q"] by (simp only: count_list_append count_list.simps) simp
  have sh: "set held = insert ?d (set ?rest)"
    using arg_cong [OF held, of set] by (simp only: set_append list.set) blast
  then have sub: "set ?rest \<subseteq> set held" and mem: "q \<in> set held \<longleftrightarrow> q = ?d \<or> q \<in> set ?rest" for q by blast+
  have last: "?d \<notin> set ?rest \<longleftrightarrow> refs r ?d - 1 \<le> 0"
    using c d(2) cnt [of ?d] count_list_0_iff [of ?rest ?d] by auto
  have m: "map_of (devices (release ?d r)) k = (if ?d \<notin> set ?rest \<and> k = key r ?d then None else map_of (devices r) k)" for k
    using l last by (simp add: delete_conv')
  have "map_of (devices (release ?d r)) k = Some q \<longleftrightarrow> q \<in> set ?rest \<and> key (release ?d r) q = k" for k q
  proof -
    have cq: "map_of (devices r) k' = Some q \<longleftrightarrow> q \<in> set held \<and> key r q = k'" for k' q using c by blast
    have kr: "key (release ?d r) = key r" using l by blast
    have same: "q = ?d" if "q \<in> set held" "key r q = key r ?d" using cq d(1) that by (metis option.inject)
    show ?thesis
    proof (cases "?d \<notin> set ?rest \<and> k = key r ?d")
      case True
      then show ?thesis using m [of k] kr same mem sub by (metis option.distinct(1) subsetD)
    next
      case False
      then show ?thesis using m [of k] cq [of k q] kr mem by auto
    qed
  qed
  moreover have "refs (release ?d r) q = int (count_list ?rest q)" if "q < made (release ?d r)" for q
    using c l that cnt [of q] by auto
  moreover have "distinct (map fst (devices (release ?d r)))" using c l by (simp add: distinct_delete)
  moreover have "\<forall>q \<in> set ?rest. q < made (release ?d r)"
  proof
    fix q assume "q \<in> set ?rest"
    then have "q \<in> set held" using sub by (rule set_rev_mp)
    then have "q < made r" using c by simp
    then show "q < made (release ?d r)" using l by simp
  qed
  moreover have "ok (release ?d r)" by (rule release_ok [OF conjunct1 [OF c] d(2)])
  ultimately show ?thesis unfolding counted_def by (intro conjI allI impI) simp_all
qed

lemma counted_use:
  "counted r held \<Longrightarrow> use_devices acquire release ops (r, held) = Some (r', held') \<Longrightarrow> counted r' held'"
proof (induction ops arbitrary: r held)
  case (Cons op ops)
  show ?case
  proof (cases op)
    case (Comes a h)
    then obtain q d where "acquire a h r = Some (q, d)" using Cons.prems(2) by (auto split: option.splits)
    then show ?thesis using Cons counted_acquire [of r held a h q d] Comes by simp
  next
    case (Goes i)
    then show ?thesis using Cons counted_release [of r held i] by (cases "i < length held") simp_all
  qed
qed simp

text \<open>An object keeps the device it was acquired for.\<close>

lemma acquired_key:
  assumes "counted r held" "acquire a h r = Some (r', d)"
  shows "key r' d = device_of a h" "q \<in> set held \<Longrightarrow> key r' q = key r q"
proof -
  note c = assms(1) [unfolded counted_def]
  have "key r' d = device_of a h \<and> (\<forall>q \<in> set held. key r' q = key r q)"
  proof (cases "map_of (devices r) (device_of a h)")
    case (Some p)
    then show ?thesis using acquire_old [OF conjunct1 [OF c] assms(2) Some] c by simp
  next
    case None
    then show ?thesis using acquire_new [OF conjunct1 [OF c] assms(2) None] c by blast
  qed
  then show "key r' d = device_of a h" "q \<in> set held \<Longrightarrow> key r' q = key r q" by blast+
qed

lemma released_key: "counted r held \<Longrightarrow> d \<in> set held \<Longrightarrow> key (release d r) = key r"
  using release_law unfolding counted_def by blast

text \<open>Two users share an object exactly when they are on the same device.\<close>

lemma shared: "counted r held \<Longrightarrow> d \<in> set held \<Longrightarrow> e \<in> set held \<Longrightarrow> d = e \<longleftrightarrow> key r d = key r e"
  unfolding counted_def by (metis option.inject)

lemma in_use: "counted r held \<Longrightarrow> dom (map_of (devices r)) = key r ` set held"
  unfolding counted_def dom_def by (auto simp: image_def)

lemma all_gone: "counted r [] \<Longrightarrow> devices r = []"
  unfolding counted_def by (metis empty_iff empty_set list.set_cases map_of_is_SomeI surj_pair neq_Nil_conv list.set_intros(1))

end

end
