(* ===== verification/Limiter.thy ===== *)
theory Limiter
  imports Devices Conn
begin

text \<open>
  The registry of bandwidth buckets (\<^verbatim>\<open>limiter/limiter.go\<close>). A bucket is what
  \<^verbatim>\<open>rate.NewLimiter\<close> is called with, its rate and its burst; no bucket is an unlimited direction.
\<close>

record bucket =
  bk_limit :: u64
  bk_burst :: int

record Device =
  dv_key :: deviceKey
  dv_up :: "bucket option"
  dv_down :: "bucket option"
  dv_refs :: int

record limiterRegistry =
  lr_upBytes :: u64
  lr_downBytes :: u64
  lr_devices :: "(deviceKey \<times> nat) list"
  lr_store :: "Device list"

definition minBurst :: int where
  "minBurst = 64 * 1024"

text \<open>\<open>sint\<close> is the conversion of a 64-bit word to \<^verbatim>\<open>int\<close>.\<close>

definition newLimiter :: "u64 \<Rightarrow> bucket option" where
  "newLimiter bytesPerSec =
     (if bytesPerSec = 0 then None
      else let burst = sint bytesPerSec
           in Some \<lparr>bk_limit = bytesPerSec, bk_burst = (if burst < minBurst then minBurst else burst)\<rparr>)"

definition NewRegistry :: "u64 \<Rightarrow> u64 \<Rightarrow> limiterRegistry option" where
  "NewRegistry upBps downBps =
     (if upBps = 0 \<and> downBps = 0 then None
      else Some \<lparr>lr_upBytes = upBps div 8, lr_downBytes = downBps div 8, lr_devices = [], lr_store = []\<rparr>)"

definition Acquire :: "string \<Rightarrow> string \<Rightarrow> limiterRegistry \<Rightarrow> limiterRegistry \<times> nat" where
  "Acquire authID remoteAddr r =
     (let key = device_of authID remoteAddr;
          (r1, d) = (case map_of (lr_devices r) key of
             Some d \<Rightarrow> (r, d)
           | None \<Rightarrow>
               (r\<lparr>lr_store := lr_store r @ [\<lparr>dv_key = key, dv_up = newLimiter (lr_upBytes r), dv_down = newLimiter (lr_downBytes r),
                                      dv_refs = 0\<rparr>],
                  lr_devices := AList.update key (length (lr_store r)) (lr_devices r)\<rparr>, length (lr_store r)))
      in (r1\<lparr>lr_store := (lr_store r1)[d := (lr_store r1 ! d)\<lparr>dv_refs := dv_refs (lr_store r1 ! d) + 1\<rparr>]\<rparr>, d))"

definition Release :: "nat option \<Rightarrow> limiterRegistry \<Rightarrow> limiterRegistry" where
  "Release p r =
     (case p of
        None \<Rightarrow> r
      | Some d \<Rightarrow>
          (let dev = lr_store r ! d; n = dv_refs dev - 1; r1 = r\<lparr>lr_store := (lr_store r)[d := dev\<lparr>dv_refs := n\<rparr>]\<rparr>
           in if n \<le> 0 then r1\<lparr>lr_devices := AList.delete (dv_key dev) (lr_devices r1)\<rparr> else r1))"

text \<open>Throttling a connection (\<^verbatim>\<open>limiter/conn.go\<close>), with the limiters made from the buckets of the device.\<close>

definition WrapConn :: "(bucket \<Rightarrow> rateLimiter) \<Rightarrow> conn \<Rightarrow> Device option \<Rightarrow> netConn" where
  "WrapConn NewLimiter c d =
     (case d of
        None \<Rightarrow> Plain c
      | Some d \<Rightarrow>
          if dv_up d = None \<and> dv_down d = None then Plain c
          else Limited \<lparr>lc_Conn = c, lc_up = map_option NewLimiter (dv_up d), lc_down = map_option NewLimiter (dv_down d),
                        lc_cancelled = False\<rparr>)"

section \<open>The registry counts references\<close>

definition lim_key :: "limiterRegistry \<Rightarrow> nat \<Rightarrow> deviceKey" where
  "lim_key r d = (if d < length (lr_store r) then dv_key (lr_store r ! d) else \<lparr>dk_auth = '''', dk_ip = ''''\<rparr>)"

definition lim_refs :: "limiterRegistry \<Rightarrow> nat \<Rightarrow> int" where
  "lim_refs r d = (if d < length (lr_store r) then dv_refs (lr_store r ! d) else 0)"

text \<open>Every device has the buckets of the configured rates.\<close>

definition lim_ok :: "u64 \<Rightarrow> u64 \<Rightarrow> limiterRegistry \<Rightarrow> bool" where
  "lim_ok up down r \<longleftrightarrow> lr_upBytes r = up \<and> lr_downBytes r = down \<and> (\<forall>(k, d) \<in> set (lr_devices r). d < length (lr_store r)) \<and>
     (\<forall>dev \<in> set (lr_store r). dv_up dev = newLimiter up \<and> dv_down dev = newLimiter down)"

lemma lim_ok_mem: "lim_ok up down r \<Longrightarrow> map_of (lr_devices r) k = Some d \<Longrightarrow> d < length (lr_store r)"
  by (auto simp: lim_ok_def dest: map_of_SomeD)

lemma set_update_alist: "set (AList.update k v m) \<subseteq> insert (k, v) (set m)"
  by (induction m) auto

lemma set_update_buckets:
  assumes "\<forall>dev \<in> set xs. dv_up dev = u \<and> dv_down dev = w" "d < length xs"
  shows "\<forall>dev \<in> set (xs[d := (xs ! d)\<lparr>dv_refs := n\<rparr>]). dv_up dev = u \<and> dv_down dev = w"
  using assms set_update_subset_insert [of xs d "(xs ! d)\<lparr>dv_refs := n\<rparr>"] by (auto dest!: subsetD)

lemma Acquire_old:
  assumes "lim_ok up down r" "map_of (lr_devices r) (device_of a h) = Some p"
  shows "Acquire a h r = (r\<lparr>lr_store := (lr_store r)[p := (lr_store r ! p)\<lparr>dv_refs := dv_refs (lr_store r ! p) + 1\<rparr>]\<rparr>, p)"
  using assms by (simp add: Acquire_def)

lemma Acquire_new:
  assumes "map_of (lr_devices r) (device_of a h) = None"
  shows "Acquire a h r = (r\<lparr>lr_devices := AList.update (device_of a h) (length (lr_store r)) (lr_devices r),
    lr_store := lr_store r @ [\<lparr>dv_key = device_of a h, dv_up = newLimiter (lr_upBytes r),
      dv_down = newLimiter (lr_downBytes r), dv_refs = 1\<rparr>]\<rparr>, length (lr_store r))"
  using assms by (simp add: Acquire_def list_update_append Let_def)

interpretation buckets: refcounted lr_devices lim_key lim_refs "\<lambda>r. length (lr_store r)" "lim_ok up down"
  "\<lambda>a h l. Some (Acquire a h l)" "\<lambda>d. Release (Some d)" for up down
proof
  fix r a h r' d assume ok: "lim_ok up down r" and acq: "Some (Acquire a h r) = Some (r', d)"
  show "lim_ok up down r'"
  proof (cases "map_of (lr_devices r) (device_of a h)")
    case (Some p)
    have r': "r' = r\<lparr>lr_store := (lr_store r)[p := (lr_store r ! p)\<lparr>dv_refs := dv_refs (lr_store r ! p) + 1\<rparr>]\<rparr>"
      using acq Acquire_old [OF ok Some] by auto
    have st: "\<forall>dev \<in> set (lr_store r). dv_up dev = newLimiter up \<and> dv_down dev = newLimiter down" using ok by (simp add: lim_ok_def)
    show ?thesis using ok set_update_buckets [OF st lim_ok_mem [OF ok Some]] unfolding r' lim_ok_def by simp
  next
    case None
    let ?m = "AList.update (device_of a h) (length (lr_store r)) (lr_devices r)"
    have r': "lr_devices r' = ?m" "lr_upBytes r' = lr_upBytes r" "lr_downBytes r' = lr_downBytes r"
        "lr_store r' = lr_store r @ [\<lparr>dv_key = device_of a h, dv_up = newLimiter (lr_upBytes r),
           dv_down = newLimiter (lr_downBytes r), dv_refs = 1\<rparr>]"
      using acq Acquire_new [OF None] by auto
    have "d < Suc (length (lr_store r))" if "(k, d) \<in> set ?m" for k d
      using set_update_alist [of "device_of a h" "length (lr_store r)" "lr_devices r"] that ok
      by (fastforce simp: lim_ok_def)
    then show ?thesis using ok unfolding lim_ok_def r' by auto
  qed
next
  fix r a h r' d p assume ok: "lim_ok up down r" and acq: "Some (Acquire a h r) = Some (r', d)"
    and m: "map_of (lr_devices r) (device_of a h) = Some p"
  show "d = p \<and> lr_devices r' = lr_devices r \<and> length (lr_store r') = length (lr_store r) \<and> lim_key r' = lim_key r \<and>
      lim_refs r' = (lim_refs r)(p := lim_refs r p + 1)"
    using acq Acquire_old [OF ok m] lim_ok_mem [OF ok m]
    by (auto simp: lim_key_def lim_refs_def fun_eq_iff nth_list_update)
next
  fix r a h r' d assume ok: "lim_ok up down r" and acq: "Some (Acquire a h r) = Some (r', d)"
    and m: "map_of (lr_devices r) (device_of a h) = None"
  show "d = length (lr_store r) \<and> length (lr_store r') = Suc (length (lr_store r)) \<and>
      lr_devices r' = AList.update (device_of a h) d (lr_devices r) \<and> lim_key r' d = device_of a h \<and> lim_refs r' d = 1 \<and>
      (\<forall>q < length (lr_store r). lim_key r' q = lim_key r q \<and> lim_refs r' q = lim_refs r q)"
    using acq Acquire_new [OF m] by (auto simp: lim_key_def lim_refs_def nth_append)
next
  fix r d assume ok: "lim_ok up down r" and d: "d < length (lr_store r)"
  have sub: "q < length (lr_store r)" if "(k', q) \<in> set (AList.delete k (lr_devices r))" for k k' q
    using that ok by (auto simp: AList.delete_eq lim_ok_def)
  have st: "\<forall>dev \<in> set (lr_store r). dv_up dev = newLimiter up \<and> dv_down dev = newLimiter down" using ok by (simp add: lim_ok_def)
  show "lim_ok up down (Release (Some d) r)"
    using ok sub set_update_buckets [OF st d] by (auto simp: lim_ok_def Release_def Let_def)
  show "length (lr_store (Release (Some d) r)) = length (lr_store r) \<and> lim_key (Release (Some d) r) = lim_key r \<and>
      lim_refs (Release (Some d) r) = (lim_refs r)(d := lim_refs r d - 1) \<and>
      lr_devices (Release (Some d) r) =
        (if lim_refs r d - 1 \<le> 0 then AList.delete (lim_key r d) (lr_devices r) else lr_devices r)"
    using d by (auto simp: Release_def Let_def lim_key_def lim_refs_def fun_eq_iff nth_list_update)
qed

lemma new_registry_counted:
  "NewRegistry up down = Some r \<Longrightarrow> buckets.counted (up div 8) (down div 8) r []"
  by (auto simp: NewRegistry_def buckets.counted_def lim_ok_def split: if_splits)

lemma newLimiter_rate:
  assumes "unat b < 2 ^ 63"
  shows "newLimiter b = (if b = 0 then None else Some \<lparr>bk_limit = b, bk_burst = max 65536 (int (unat b))\<rparr>)"
proof -
  have "int (unat b) < 2 ^ 63" using assms by (metis of_nat_less_iff of_nat_numeral of_nat_power)
  then have "uint b < 2 ^ 63" by (simp only: uint_nat)
  then have "signed_take_bit 63 (uint b) = uint b"
    using unsigned_greater_eq [of b, where 'a = int] by (intro signed_take_bit_int_eq_self) linarith+
  then have "sint b = int (unat b)" by (simp add: sint_uint)
  then show ?thesis by (simp add: newLimiter_def minBurst_def Let_def max_def)
qed

lemma div8_small: "unat (x div 8 :: u64) < 2 ^ 61"
proof -
  have "unat x < 2 ^ 64" using unsigned_less [of x, where 'a = nat] by simp
  then show ?thesis by (simp add: unat_div)
qed


definition demo_ops :: "session_op list" where
  "demo_ops = [Comes ''alice'' ''10.0.0.1:1000'', Comes ''alice'' ''10.0.0.1:2000'', Comes ''bob'' ''10.0.0.1:3000'', Goes 0]"


text \<open>A configured rate below eight bits per second rounds down to no limit.\<close>

lemma tiny_rate_is_unlimited: "newLimiter (7 div 8) = None"
  by (simp add: newLimiter_def)

end
