(* ===== verification/Stats.thy ===== *)
theory Stats
  imports Devices "HOL-Library.List_Lexorder" "HOL-Library.Char_ord" "HOL-Library.Product_Lexorder"
begin

text \<open>
  Traffic statistics (\<^verbatim>\<open>stats/registry.go\<close>, \<^verbatim>\<open>stats/stream.go\<close>, \<^verbatim>\<open>stats/http.go\<close>): counters per user,
  connections per device with a random identifier, records of live streams, and the HTTP interface
  to them.

  Counters, connections and stream records are shared objects, so the registry has a store for each
  of them and its maps hold pointers into the stores. Counters are 64-bit words, as the atomic
  integers of the source wrap. Time is an argument. The random numbers are one sequence \<open>rnd\<close>, of which
  the registry knows how many were drawn. A session is a number.
\<close>

section \<open>Data\<close>

record sessionInfo =
  si_remote :: string
  si_started :: int

record UserStat =
  us_ID :: string
  us_Tx :: u64
  us_Rx :: u64
  us_sessions :: "(nat \<times> sessionInfo) list"

datatype StreamState = StreamStateInitial | StreamStateHooking | StreamStateConnecting | StreamStateEstablished | StreamStateClosed

record StreamStats =
  ss_authID :: string
  ss_connID :: u32
  ss_streamID :: u32
  ss_initialTime :: int
  ss_state :: StreamState
  ss_reqAddr :: "string option"
  ss_tx :: u64
  ss_rx :: u64
  ss_lastActive :: int

record statConn =
  sc_key :: deviceKey
  sc_id :: u32
  sc_streamSeq :: u32
  sc_refs :: int

record statsRegistry =
  rg_users :: "(string \<times> nat) list"
  rg_userStore :: "UserStat list"
  rg_streams :: "nat list"
  rg_streamStore :: "StreamStats list"
  rg_devices :: "(deviceKey \<times> nat) list"
  rg_connStore :: "statConn list"
  rg_draws :: nat

definition NewStatsRegistry :: statsRegistry where
  "NewStatsRegistry = \<lparr>rg_users = [], rg_userStore = [], rg_streams = [], rg_streamStore = [], rg_devices = [],
     rg_connStore = [], rg_draws = 0\<rparr>"

section \<open>Connections of devices\<close>

text \<open>The loop that draws until an identifier is free; not returning is \<open>None\<close>.\<close>

partial_function (option) freshConnID :: "(nat \<Rightarrow> u32) \<Rightarrow> nat \<Rightarrow> u32 list \<Rightarrow> (u32 \<times> nat) option" where
  "freshConnID rnd n inUse = (if rnd n \<in> set inUse then freshConnID rnd (Suc n) inUse else Some (rnd n, Suc n))"

definition live_ids :: "statsRegistry \<Rightarrow> u32 list" where
  "live_ids r = map (\<lambda>(k, c). sc_id (rg_connStore r ! c)) (rg_devices r)"

text \<open>A call whose draw never ends does not return either.\<close>

definition AcquireConn :: "(nat \<Rightarrow> u32) \<Rightarrow> string \<Rightarrow> string \<Rightarrow> statsRegistry \<Rightarrow> (statsRegistry \<times> nat) option" where
  "AcquireConn rnd authID remoteAddr r =
     (let key = device_of authID remoteAddr;
          found = (case map_of (rg_devices r) key of
             Some c \<Rightarrow> Some (r, c)
           | None \<Rightarrow>
               (case freshConnID rnd (rg_draws r) (live_ids r) of
                  None \<Rightarrow> None
                | Some (i, n) \<Rightarrow>
                    Some (r\<lparr>rg_draws := n, rg_devices := AList.update key (length (rg_connStore r)) (rg_devices r),
                            rg_connStore := rg_connStore r @ [\<lparr>sc_key = key, sc_id = i, sc_streamSeq = 0, sc_refs = 0\<rparr>]\<rparr>,
                          length (rg_connStore r))))
      in case found of
          None \<Rightarrow> None
        | Some (r1, c) \<Rightarrow>
            Some (r1\<lparr>rg_connStore := (rg_connStore r1)[c := (rg_connStore r1 ! c)\<lparr>sc_refs := sc_refs (rg_connStore r1 ! c) + 1\<rparr>]\<rparr>, c))"

definition ReleaseConn :: "nat option \<Rightarrow> statsRegistry \<Rightarrow> statsRegistry" where
  "ReleaseConn p r =
     (case p of
        None \<Rightarrow> r
      | Some c \<Rightarrow>
          (let conn = rg_connStore r ! c; n = sc_refs conn - 1;
               r1 = r\<lparr>rg_connStore := (rg_connStore r)[c := conn\<lparr>sc_refs := n\<rparr>]\<rparr>
           in if n \<le> 0 then r1\<lparr>rg_devices := AList.delete (sc_key conn) (rg_devices r1)\<rparr> else r1))"

definition NextStreamID :: "nat \<Rightarrow> statsRegistry \<Rightarrow> statsRegistry \<times> u32" where
  "NextStreamID c r =
     (let i = sc_streamSeq (rg_connStore r ! c) + 1
      in (r\<lparr>rg_connStore := (rg_connStore r)[c := (rg_connStore r ! c)\<lparr>sc_streamSeq := i\<rparr>]\<rparr>, i))"

section \<open>Streams\<close>

definition upd_stream :: "nat \<Rightarrow> (StreamStats \<Rightarrow> StreamStats) \<Rightarrow> statsRegistry \<Rightarrow> statsRegistry" where
  "upd_stream s f r = r\<lparr>rg_streamStore := (rg_streamStore r)[s := f (rg_streamStore r ! s)]\<rparr>"

definition TraceStream :: "int \<Rightarrow> string \<Rightarrow> u32 \<Rightarrow> u32 \<Rightarrow> statsRegistry \<Rightarrow> statsRegistry \<times> nat" where
  "TraceStream now authID connID streamID r =
     (let s = length (rg_streamStore r)
      in (r\<lparr>rg_streamStore := rg_streamStore r @
              [\<lparr>ss_authID = authID, ss_connID = connID, ss_streamID = streamID, ss_initialTime = now,
                ss_state = StreamStateConnecting, ss_reqAddr = None, ss_tx = 0, ss_rx = 0, ss_lastActive = now\<rparr>],
            rg_streams := rg_streams r @ [s]\<rparr>, s))"

definition StreamStats_SetState :: "nat \<Rightarrow> StreamState \<Rightarrow> statsRegistry \<Rightarrow> statsRegistry" where
  "StreamStats_SetState s st = upd_stream s (\<lambda>x. x\<lparr>ss_state := st\<rparr>)"

definition StreamStats_SetReqAddr :: "nat \<Rightarrow> string \<Rightarrow> statsRegistry \<Rightarrow> statsRegistry" where
  "StreamStats_SetReqAddr s addr = upd_stream s (\<lambda>x. x\<lparr>ss_reqAddr := Some addr\<rparr>)"

definition StreamStats_AddTx :: "int \<Rightarrow> nat \<Rightarrow> u64 \<Rightarrow> statsRegistry \<Rightarrow> statsRegistry" where
  "StreamStats_AddTx now s n = upd_stream s (\<lambda>x. x\<lparr>ss_tx := ss_tx x + n, ss_lastActive := now\<rparr>)"

definition StreamStats_AddRx :: "int \<Rightarrow> nat \<Rightarrow> u64 \<Rightarrow> statsRegistry \<Rightarrow> statsRegistry" where
  "StreamStats_AddRx now s n = upd_stream s (\<lambda>x. x\<lparr>ss_rx := ss_rx x + n, ss_lastActive := now\<rparr>)"

definition UntraceStream :: "nat option \<Rightarrow> statsRegistry \<Rightarrow> statsRegistry" where
  "UntraceStream p r =
     (case p of
        None \<Rightarrow> r
      | Some s \<Rightarrow> (StreamStats_SetState s StreamStateClosed r)\<lparr>rg_streams := removeAll s (rg_streams r)\<rparr>)"

definition StreamState_String :: "StreamState \<Rightarrow> string" where
  "StreamState_String s =
     (case s of
        StreamStateInitial \<Rightarrow> ''init'' | StreamStateHooking \<Rightarrow> ''hook'' | StreamStateConnecting \<Rightarrow> ''connect''
      | StreamStateEstablished \<Rightarrow> ''estab'' | StreamStateClosed \<Rightarrow> ''closed'')"

record StreamEntry =
  en_State :: string
  en_Auth :: string
  en_Connection :: u32
  en_Stream :: u64
  en_ReqAddr :: string
  en_HookedReqAddr :: string
  en_Tx :: u64
  en_Rx :: u64
  en_initialTime :: int
  en_lastActiveTime :: int

definition StreamStats_entry :: "StreamStats \<Rightarrow> StreamEntry" where
  "StreamStats_entry s =
     \<lparr>en_State = StreamState_String (ss_state s), en_Auth = ss_authID s, en_Connection = ss_connID s,
      en_Stream = ucast (ss_streamID s), en_ReqAddr = (case ss_reqAddr s of None \<Rightarrow> '''' | Some a \<Rightarrow> a),
      en_HookedReqAddr = '''', en_Tx = ss_tx s, en_Rx = ss_rx s, en_initialTime = ss_initialTime s,
      en_lastActiveTime = ss_lastActive s\<rparr>"

definition DumpStreams :: "statsRegistry \<Rightarrow> StreamEntry list" where
  "DumpStreams r =
     sort_key (\<lambda>e. (en_Auth e, en_Connection e, en_Stream e)) (map (\<lambda>s. StreamStats_entry (rg_streamStore r ! s)) (rg_streams r))"

section \<open>Users\<close>

definition upd_user :: "nat \<Rightarrow> (UserStat \<Rightarrow> UserStat) \<Rightarrow> statsRegistry \<Rightarrow> statsRegistry" where
  "upd_user u f r = r\<lparr>rg_userStore := (rg_userStore r)[u := f (rg_userStore r ! u)]\<rparr>"

definition UserStat_AddTx :: "nat \<Rightarrow> u64 \<Rightarrow> statsRegistry \<Rightarrow> statsRegistry" where
  "UserStat_AddTx u n = upd_user u (\<lambda>x. x\<lparr>us_Tx := us_Tx x + n\<rparr>)"

definition UserStat_AddRx :: "nat \<Rightarrow> u64 \<Rightarrow> statsRegistry \<Rightarrow> statsRegistry" where
  "UserStat_AddRx u n = upd_user u (\<lambda>x. x\<lparr>us_Rx := us_Rx x + n\<rparr>)"

definition Attach :: "int \<Rightarrow> string \<Rightarrow> string \<Rightarrow> nat \<Rightarrow> statsRegistry \<Rightarrow> statsRegistry \<times> nat" where
  "Attach now i remote sess r =
     (let (r1, u) = (case map_of (rg_users r) i of
             Some u \<Rightarrow> (r, u)
           | None \<Rightarrow>
               (r\<lparr>rg_users := AList.update i (length (rg_userStore r)) (rg_users r),
                  rg_userStore := rg_userStore r @ [\<lparr>us_ID = i, us_Tx = 0, us_Rx = 0, us_sessions = []\<rparr>]\<rparr>,
                length (rg_userStore r)))
      in (upd_user u (\<lambda>x. x\<lparr>us_sessions := AList.update sess \<lparr>si_remote = remote, si_started = now\<rparr> (us_sessions x)\<rparr>) r1, u))"

definition Detach :: "string \<Rightarrow> nat \<Rightarrow> statsRegistry \<Rightarrow> statsRegistry" where
  "Detach i sess r =
     (case map_of (rg_users r) i of
        None \<Rightarrow> r
      | Some u \<Rightarrow> upd_user u (\<lambda>x. x\<lparr>us_sessions := AList.delete sess (us_sessions x)\<rparr>) r)"

record TrafficEntry =
  te_Tx :: u64
  te_Rx :: u64

definition Snapshot :: "statsRegistry \<Rightarrow> (string \<times> TrafficEntry) list" where
  "Snapshot r = map (\<lambda>(i, u). (i, \<lparr>te_Tx = us_Tx (rg_userStore r ! u), te_Rx = us_Rx (rg_userStore r ! u)\<rparr>)) (rg_users r)"

text \<open>The loop of \<^verbatim>\<open>Clear\<close>: the stores with zeroed counters, the entries that stay, and the report.\<close>

fun clear_users ::
  "(string \<times> nat) list \<Rightarrow> UserStat list \<Rightarrow> UserStat list \<times> (string \<times> nat) list \<times> (string \<times> TrafficEntry) list" where
  "clear_users [] st = (st, [], [])"
| "clear_users ((i, u) # us) st =
     (let x = st ! u; live = length (us_sessions x);
          (st', kept, out) = clear_users us (st[u := x\<lparr>us_Tx := 0, us_Rx := 0\<rparr>])
      in (st', if live = 0 then kept else (i, u) # kept, (i, \<lparr>te_Tx = us_Tx x, te_Rx = us_Rx x\<rparr>) # out))"

definition Clear :: "statsRegistry \<Rightarrow> statsRegistry \<times> (string \<times> TrafficEntry) list" where
  "Clear r =
     (let (st, kept, out) = clear_users (rg_users r) (rg_userStore r)
      in (r\<lparr>rg_userStore := st, rg_users := kept\<rparr>, out))"

definition Online :: "statsRegistry \<Rightarrow> (string \<times> nat) list" where
  "Online r =
     filter (\<lambda>(i, n). n > 0)
       (map (\<lambda>(i, u). (i, length (remdups (map (\<lambda>(s, info). hostOnly (si_remote info)) (us_sessions (rg_userStore r ! u))))))
         (rg_users r))"

text \<open>The sessions to close.\<close>

definition Kick :: "string list \<Rightarrow> statsRegistry \<Rightarrow> nat list" where
  "Kick ids r =
     concat (map (\<lambda>i. case map_of (rg_users r) i of None \<Rightarrow> [] | Some u \<Rightarrow> map fst (us_sessions (rg_userStore r ! u))) ids)"

section \<open>The HTTP interface\<close>

record http_request =
  hq_path :: string
  hq_POST :: bool
  hq_Authorization :: string
  hq_clear :: string
  hq_body :: "string list option"  \<comment> \<open>the decoded list of ids, if it decodes\<close>

datatype http_reply =
    Unauthorized | MethodNotAllowed | BadJSON | NotFound | EmptyOK
  | Traffic "(string \<times> TrafficEntry) list"
  | OnlineUsers "(string \<times> nat) list"
  | StreamDump "StreamEntry list"

text \<open>\<^verbatim>\<open>strconv.ParseBool\<close>, with false for what does not parse.\<close>

definition ParseBool :: "string \<Rightarrow> bool" where
  "ParseBool s \<longleftrightarrow> s \<in> {''1'', ''t'', ''T'', ''true'', ''TRUE'', ''True''}"

text \<open>The reply, the registry afterwards and the sessions that get closed.\<close>

definition stats_handler :: "http_request \<Rightarrow> statsRegistry \<Rightarrow> http_reply \<times> statsRegistry \<times> nat list" where
  "stats_handler q r =
     (if hq_path q = ''/traffic'' then
        (if ParseBool (hq_clear q) then (let (r', out) = Clear r in (Traffic out, r', [])) else (Traffic (Snapshot r), r, []))
      else if hq_path q = ''/online'' then (OnlineUsers (Online r), r, [])
      else if hq_path q = ''/kick'' then
        (if \<not> hq_POST q then (MethodNotAllowed, r, [])
         else case hq_body q of None \<Rightarrow> (BadJSON, r, []) | Some ids \<Rightarrow> (EmptyOK, r, Kick ids r))
      else (StreamDump (DumpStreams r), r, []))"

definition stats_auth :: "string \<Rightarrow> http_request \<Rightarrow> statsRegistry \<Rightarrow> http_reply \<times> statsRegistry \<times> nat list" where
  "stats_auth secret q r =
     (if secret \<noteq> '''' \<and> hq_Authorization q \<noteq> secret then (Unauthorized, r, []) else stats_handler q r)"

definition NewHandler :: "string \<Rightarrow> http_request \<Rightarrow> statsRegistry \<Rightarrow> http_reply \<times> statsRegistry \<times> nat list" where
  "NewHandler secret q r =
     (if hq_path q \<in> {''/traffic'', ''/online'', ''/kick'', ''/dump/streams''} then stats_auth secret q r
      else (NotFound, r, []))"

section \<open>Identifiers of connections\<close>

text \<open>Every identifier keeps being drawn.\<close>

definition fair :: "(nat \<Rightarrow> u32) \<Rightarrow> bool" where
  "fair rnd \<longleftrightarrow> (\<forall>n x. \<exists>i \<ge> n. rnd i = x)"

lemma freshConnID_found:
  "rnd (n + k) \<notin> set inUse \<Longrightarrow> \<exists>m. freshConnID rnd n inUse = Some (rnd m, Suc m) \<and> n \<le> m \<and> rnd m \<notin> set inUse"
proof (induction k arbitrary: n)
  case 0
  then show ?case by (intro exI [of _ n]) (simp add: freshConnID.simps)
next
  case (Suc k)
  show ?case
  proof (cases "rnd n \<in> set inUse")
    case True
    then obtain m where "freshConnID rnd (Suc n) inUse = Some (rnd m, Suc m)" "Suc n \<le> m" "rnd m \<notin> set inUse"
      using Suc.IH [of "Suc n"] Suc.prems by auto
    then show ?thesis using True by (intro exI [of _ m]) (simp add: freshConnID.simps [of rnd n])
  next
    case False
    then show ?thesis by (intro exI [of _ n]) (simp add: freshConnID.simps)
  qed
qed

lemma free_id: "length inUse < 2 ^ 32 \<Longrightarrow> \<exists>x :: u32. x \<notin> set inUse"
proof (rule ccontr)
  assume l: "length inUse < 2 ^ 32" and "\<nexists>x. x \<notin> set inUse"
  then have "set inUse = UNIV" by auto
  then have "card (UNIV :: u32 set) \<le> length inUse" by (metis card_length)
  then show False using l by (simp add: card_word)
qed

text \<open>As long as an identifier is free, the loop returns with one.\<close>

lemma freshConnID_free:
  assumes "fair rnd" "length inUse < 2 ^ 32"
  shows "\<exists>m. freshConnID rnd n inUse = Some (rnd m, Suc m) \<and> n \<le> m \<and> rnd m \<notin> set inUse"
proof -
  obtain x where "x \<notin> set inUse" using free_id [OF assms(2)] by blast
  moreover obtain i where "i \<ge> n" "rnd i = x" using assms(1) unfolding fair_def by blast
  ultimately show ?thesis using freshConnID_found [of rnd n "i - n" inUse] by simp
qed

text \<open>Counting up is fair.\<close>

lemma fair_counting: "fair word_of_nat"
  unfolding fair_def
proof (intro allI)
  fix n and x :: u32
  have "n \<le> unat x + 2 ^ 32 * n" by simp
  moreover have "word_of_nat (unat x + 2 ^ 32 * n) = x"
  proof -
    have "(2 :: u32) ^ 32 = 0" by simp
    then have z: "(word_of_nat (2 ^ 32 * n) :: u32) = 0" by (simp only: of_nat_mult of_nat_power of_nat_numeral mult_zero_left)
    show ?thesis unfolding of_nat_add z by simp
  qed
  ultimately show "\<exists>i \<ge> n. word_of_nat i = x" by blast
qed

section \<open>Connections are counted\<close>

definition conn_key :: "statsRegistry \<Rightarrow> nat \<Rightarrow> deviceKey" where
  "conn_key r c = (if c < length (rg_connStore r) then sc_key (rg_connStore r ! c) else \<lparr>dk_auth = '''', dk_ip = ''''\<rparr>)"

definition conn_refs :: "statsRegistry \<Rightarrow> nat \<Rightarrow> int" where
  "conn_refs r c = (if c < length (rg_connStore r) then sc_refs (rg_connStore r ! c) else 0)"

definition conns_ok :: "statsRegistry \<Rightarrow> bool" where
  "conns_ok r \<longleftrightarrow> (\<forall>(k, c) \<in> set (rg_devices r). c < length (rg_connStore r))"

lemma conns_ok_mem: "conns_ok r \<Longrightarrow> map_of (rg_devices r) k = Some c \<Longrightarrow> c < length (rg_connStore r)"
  by (auto simp: conns_ok_def dest: map_of_SomeD)

lemma AcquireConn_old:
  assumes "map_of (rg_devices r) (device_of a h) = Some p" "AcquireConn rnd a h r = Some (r', c)"
  shows "c = p \<and> r' = r\<lparr>rg_connStore := (rg_connStore r)[p := (rg_connStore r ! p)\<lparr>sc_refs := sc_refs (rg_connStore r ! p) + 1\<rparr>]\<rparr>"
  using assms by (auto simp: AcquireConn_def)

lemma AcquireConn_new:
  assumes "map_of (rg_devices r) (device_of a h) = None" "AcquireConn rnd a h r = Some (r', c)"
  shows "c = length (rg_connStore r) \<and> rg_devices r' = AList.update (device_of a h) c (rg_devices r) \<and>
    (\<exists>i n. freshConnID rnd (rg_draws r) (live_ids r) = Some (i, n) \<and> rg_draws r' = n \<and>
       rg_connStore r' = rg_connStore r @ [\<lparr>sc_key = device_of a h, sc_id = i, sc_streamSeq = 0, sc_refs = 1\<rparr>])"
  using assms by (cases "freshConnID rnd (rg_draws r) (live_ids r)") (auto simp: AcquireConn_def list_update_append Let_def)

lemma ReleaseConn_store:
  "rg_connStore (ReleaseConn (Some c) r) = (rg_connStore r)[c := (rg_connStore r ! c)\<lparr>sc_refs := sc_refs (rg_connStore r ! c) - 1\<rparr>]"
  "rg_devices (ReleaseConn (Some c) r) =
    (if sc_refs (rg_connStore r ! c) - 1 \<le> 0 then AList.delete (sc_key (rg_connStore r ! c)) (rg_devices r) else rg_devices r)"
  by (simp_all add: ReleaseConn_def Let_def)

lemma update_mem: "(k, v) \<in> set (AList.update x y m) \<Longrightarrow> (k, v) = (x, y) \<or> (k, v) \<in> set m"
  by (induction m) (auto split: if_splits)

lemma delete_mem: "x \<in> set (AList.delete k m) \<Longrightarrow> x \<in> set m"
  by (auto simp: AList.delete_eq)

interpretation conns: refcounted rg_devices conn_key conn_refs "\<lambda>r. length (rg_connStore r)" conns_ok "AcquireConn rnd"
  "\<lambda>c. ReleaseConn (Some c)" for rnd
proof
  fix r a h r' c assume ok: "conns_ok r" and acq: "AcquireConn rnd a h r = Some (r', c)"
  show "conns_ok r'"
  proof (cases "map_of (rg_devices r) (device_of a h)")
    case None
    from AcquireConn_new [OF None acq] obtain x where
      d: "rg_devices r' = AList.update (device_of a h) (length (rg_connStore r)) (rg_devices r)" "rg_connStore r' = rg_connStore r @ [x]"
      by auto
    have "q < Suc (length (rg_connStore r))" if "(k, q) \<in> set (rg_devices r')" for k q
      using update_mem [OF that [unfolded d(1)]] ok by (auto simp: conns_ok_def)
    then show ?thesis by (auto simp: conns_ok_def d(2))
  next
    case (Some p)
    then show ?thesis using ok AcquireConn_old [OF Some acq] by (simp add: conns_ok_def)
  qed
next
  fix r a h r' c p assume ok: "conns_ok r" and acq: "AcquireConn rnd a h r = Some (r', c)"
    and m: "map_of (rg_devices r) (device_of a h) = Some p"
  show "c = p \<and> rg_devices r' = rg_devices r \<and> length (rg_connStore r') = length (rg_connStore r) \<and> conn_key r' = conn_key r \<and>
      conn_refs r' = (conn_refs r)(p := conn_refs r p + 1)"
    using AcquireConn_old [OF m acq] conns_ok_mem [OF ok m]
    by (auto simp: conn_key_def conn_refs_def fun_eq_iff nth_list_update)
next
  fix r a h r' c assume ok: "conns_ok r" and acq: "AcquireConn rnd a h r = Some (r', c)"
    and m: "map_of (rg_devices r) (device_of a h) = None"
  show "c = length (rg_connStore r) \<and> length (rg_connStore r') = Suc (length (rg_connStore r)) \<and>
      rg_devices r' = AList.update (device_of a h) c (rg_devices r) \<and> conn_key r' c = device_of a h \<and> conn_refs r' c = 1 \<and>
      (\<forall>q < length (rg_connStore r). conn_key r' q = conn_key r q \<and> conn_refs r' q = conn_refs r q)"
    using AcquireConn_new [OF m acq] by (auto simp: conn_key_def conn_refs_def nth_append)
next
  fix r c assume ok: "conns_ok r" and c: "c < length (rg_connStore r)"
  show "conns_ok (ReleaseConn (Some c) r)"
    using ok by (auto simp: conns_ok_def ReleaseConn_store dest: delete_mem)
  show "length (rg_connStore (ReleaseConn (Some c) r)) = length (rg_connStore r) \<and> conn_key (ReleaseConn (Some c) r) = conn_key r \<and>
      conn_refs (ReleaseConn (Some c) r) = (conn_refs r)(c := conn_refs r c - 1) \<and>
      rg_devices (ReleaseConn (Some c) r) =
        (if conn_refs r c - 1 \<le> 0 then AList.delete (conn_key r c) (rg_devices r) else rg_devices r)"
    using c by (auto simp: ReleaseConn_store conn_key_def conn_refs_def fun_eq_iff nth_list_update)
qed

section \<open>Identifiers are unique\<close>

definition ids_unique :: "statsRegistry \<Rightarrow> bool" where
  "ids_unique r \<longleftrightarrow> (\<forall>(k, c) \<in> set (rg_devices r). \<forall>(k', c') \<in> set (rg_devices r).
     sc_id (rg_connStore r ! c) = sc_id (rg_connStore r ! c') \<longrightarrow> c = c')"

lemma ids_unique_release:
  assumes "conns_ok r" "ids_unique r"
  shows "ids_unique (ReleaseConn (Some c) r) \<and> length (rg_devices (ReleaseConn (Some c) r)) \<le> length (rg_devices r)"
proof -
  have i: "sc_id (rg_connStore (ReleaseConn (Some c) r) ! q) = sc_id (rg_connStore r ! q)" for q
    by (cases "c < length (rg_connStore r)"; cases "c = q") (simp_all add: ReleaseConn_store not_less list_update_beyond)
  have m: "x \<in> set (rg_devices (ReleaseConn (Some c) r)) \<Longrightarrow> x \<in> set (rg_devices r)" for x
    by (auto simp: ReleaseConn_store split: if_splits dest: delete_mem)
  have "ids_unique (ReleaseConn (Some c) r)" unfolding ids_unique_def
  proof (intro ballI, clarify)
    fix k q k' q' assume a: "(k, q) \<in> set (rg_devices (ReleaseConn (Some c) r))" "(k', q') \<in> set (rg_devices (ReleaseConn (Some c) r))"
      and e: "sc_id (rg_connStore (ReleaseConn (Some c) r) ! q) = sc_id (rg_connStore (ReleaseConn (Some c) r) ! q')"
    have "(k, q) \<in> set (rg_devices r)" "(k', q') \<in> set (rg_devices r)" using m a by blast+
    then show "q = q'" using assms i e by (fastforce simp: conns_ok_def ids_unique_def)
  qed
  moreover have "length (AList.delete k l) \<le> length l" for k and l :: "(deviceKey \<times> nat) list" by (simp add: AList.delete_eq)
  ultimately show ?thesis by (simp add: ReleaseConn_store)
qed

lemma ids_unique_acquire:
  assumes ok: "conns_ok r" and u: "ids_unique r" and f: "fair rnd" and n: "length (rg_devices r) < 2 ^ 32"
    and acq: "AcquireConn rnd a h r = Some (r', c)"
  shows "ids_unique r' \<and> length (rg_devices r') \<le> Suc (length (rg_devices r))"
proof (cases "map_of (rg_devices r) (device_of a h)")
  case (Some p)
  note l = AcquireConn_old [OF Some acq]
  have i: "sc_id (rg_connStore r' ! q) = sc_id (rg_connStore r ! q)" for q
    using l by (cases "p < length (rg_connStore r)"; cases "p = q") (simp_all add: not_less list_update_beyond)
  then show ?thesis using ok u l unfolding ids_unique_def conns_ok_def by fastforce
next
  case None
  obtain m where m: "freshConnID rnd (rg_draws r) (live_ids r) = Some (rnd m, Suc m)" "rnd m \<notin> set (live_ids r)"
    using freshConnID_free [OF f, of "live_ids r"] n by (auto simp: live_ids_def)
  from AcquireConn_new [OF None acq] m(1) obtain x where
    d: "rg_devices r' = AList.update (device_of a h) (length (rg_connStore r)) (rg_devices r)" "rg_connStore r' = rg_connStore r @ [x]"
      "sc_id x = rnd m"
    by auto
  have old: "sc_id (rg_connStore r' ! q) \<noteq> rnd m \<and> sc_id (rg_connStore r' ! q) = sc_id (rg_connStore r ! q) \<and> q < length (rg_connStore r)"
    if "(k, q) \<in> set (rg_devices r)" for k q
  proof -
    have "q < length (rg_connStore r)" using ok that by (auto simp: conns_ok_def)
    moreover have "sc_id (rg_connStore r ! q) \<in> set (live_ids r)" using that by (force simp: live_ids_def)
    ultimately show ?thesis using m(2) d(2) by (auto simp: nth_append)
  qed
  have new: "sc_id (rg_connStore r' ! length (rg_connStore r)) = rnd m" using d by (simp add: nth_append)
  have "ids_unique r'" unfolding ids_unique_def
  proof (intro ballI, clarify)
    fix k q k' q' assume a: "(k, q) \<in> set (rg_devices r')" "(k', q') \<in> set (rg_devices r')"
      and e: "sc_id (rg_connStore r' ! q) = sc_id (rg_connStore r' ! q')"
    have "(k, q) \<in> set (rg_devices r) \<or> q = length (rg_connStore r)" "(k', q') \<in> set (rg_devices r) \<or> q' = length (rg_connStore r)"
      using update_mem [OF a(1) [unfolded d(1)]] update_mem [OF a(2) [unfolded d(1)]] by simp_all blast+
    then show "q = q'" using old new e u unfolding ids_unique_def by (elim disjE) (fastforce+)
  qed
  then show ?thesis using d(1) by (simp add: length_update_le)
qed

lemma AcquireConn_returns:
  assumes "fair rnd" "length (rg_devices r) < 2 ^ 32"
  shows "\<exists>r' c. AcquireConn rnd a h r = Some (r', c)"
proof -
  obtain m where "freshConnID rnd (rg_draws r) (live_ids r) = Some (rnd m, Suc m)"
    using freshConnID_free [OF assms(1), of "live_ids r"] assms(2) by (auto simp: live_ids_def)
  then show ?thesis by (cases "map_of (rg_devices r) (device_of a h)") (simp_all add: AcquireConn_def Let_def)
qed

lemma ids_unique_use:
  assumes f: "fair rnd"
  shows "conns.counted r held \<Longrightarrow> ids_unique r \<Longrightarrow> length (rg_devices r) + length ops \<le> 2 ^ 32 \<Longrightarrow>
    \<exists>r' held'. use_devices (AcquireConn rnd) (\<lambda>c. ReleaseConn (Some c)) ops (r, held) = Some (r', held') \<and> ids_unique r'"
proof (induction ops arbitrary: r held)
  case (Cons op ops)
  have ok: "conns_ok r" using Cons.prems(1) by (simp add: conns.counted_def)
  show ?case
  proof (cases op)
    case (Comes a h)
    have n: "length (rg_devices r) < 2 ^ 32" using Cons.prems(3) by simp
    obtain q c where acq: "AcquireConn rnd a h r = Some (q, c)" using AcquireConn_returns [OF f n] by blast
    have "ids_unique q \<and> length (rg_devices q) \<le> Suc (length (rg_devices r))"
      by (rule ids_unique_acquire [OF ok Cons.prems(2) f n acq])
    then show ?thesis
      using Cons.IH [OF conns.counted_acquire [OF Cons.prems(1) acq]] Cons.prems(3) Comes acq by simp
  next
    case (Goes i)
    show ?thesis
    proof (cases "i < length held")
      case True
      then show ?thesis
        using Cons.IH [OF conns.counted_release [OF Cons.prems(1) True]] ids_unique_release [OF ok Cons.prems(2), of "held ! i"]
          Cons.prems(3) Goes by simp
    qed (use Cons.IH [OF Cons.prems(1,2)] Cons.prems(3) Goes in simp)
  qed
qed simp

lemma new_registry_conns: "conns.counted NewStatsRegistry [] \<and> ids_unique NewStatsRegistry"
  by (simp add: conns.counted_def conns_ok_def ids_unique_def NewStatsRegistry_def)



end
