(* ===== verification/Stats_Traffic.thy ===== *)
theory Stats_Traffic
  imports Stats
begin

text \<open>
  The accounting of users (\<^verbatim>\<open>stats/registry.go\<close>, \<^verbatim>\<open>stats/http.go\<close>) over any run of attaching and
  detaching sessions, reporting traffic through the counter a session was given, and clearing: no
  byte is lost or counted twice, and a live session is always reachable by kick. A step relation
  keeps, beside the registry, the counter each session holds, what the sessions reported and
  what clearing has returned so far.
\<close>

section \<open>The loop of clear\<close>

lemma clear_users_result:
  assumes "clear_users us st = (st', kept, out)" "distinct (map snd us)" "\<forall>(i, u) \<in> set us. u < length st"
  shows "length st' = length st \<and> kept = filter (\<lambda>(i, u). us_sessions (st ! u) \<noteq> []) us \<and>
    out = map (\<lambda>(i, u). (i, \<lparr>te_Tx = us_Tx (st ! u), te_Rx = us_Rx (st ! u)\<rparr>)) us \<and>
    (\<forall>u. st' ! u = (if u \<in> snd ` set us then (st ! u)\<lparr>us_Tx := 0, us_Rx := 0\<rparr> else st ! u))"
  using assms
proof (induction us st arbitrary: st' kept out rule: clear_users.induct)
  case (2 i u us st)
  let ?st = "st[u := (st ! u)\<lparr>us_Tx := 0, us_Rx := 0\<rparr>]"
  obtain s k out' where c: "clear_users us ?st = (s, k, out')" by (metis prod_cases3)
  have d: "distinct (map snd us)" "u \<notin> snd ` set us" "u < length st" "\<forall>(i, q) \<in> set us. q < length ?st"
    using 2(3,4) by auto
  note ih = 2(1) [OF refl refl c d(1,4)]
  have same: "?st ! q = st ! q" if "(j, q) \<in> set us" for j q 
    using d(2) that by (intro nth_list_update_neq) force
  then have f: "filter (\<lambda>(j, q). us_sessions (?st ! q) \<noteq> []) us = filter (\<lambda>(j, q). us_sessions (st ! q) \<noteq> []) us"
    by (intro filter_cong) auto
  have m: "map (\<lambda>(j, q). (j, \<lparr>te_Tx = us_Tx (?st ! q), te_Rx = us_Rx (?st ! q)\<rparr>)) us =
      map (\<lambda>(j, q). (j, \<lparr>te_Tx = us_Tx (st ! q), te_Rx = us_Rx (st ! q)\<rparr>)) us"
    using same by (intro map_cong) auto
  have "s ! q = (if q \<in> snd ` set ((i, u) # us) then (st ! q)\<lparr>us_Tx := 0, us_Rx := 0\<rparr> else st ! q)" for q
    using ih d(2,3) by (cases "q = u") auto
  moreover have "st' = s \<and> kept = (if us_sessions (st ! u) = [] then k else (i, u) # k) \<and>
      out = (i, \<lparr>te_Tx = us_Tx (st ! u), te_Rx = us_Rx (st ! u)\<rparr>) # out'"
    using 2(2) c by (auto simp: Let_def)
  ultimately show ?case using ih f m by simp
qed simp

section \<open>Runs\<close>

record accounting =
  ac_registry :: statsRegistry
  ac_held :: "nat \<rightharpoonup> string \<times> nat"      \<comment> \<open>the user of a session and the counter it was given\<close>
  ac_reported :: "string \<Rightarrow> u64"         \<comment> \<open>what sessions of a user sent\<close>
  ac_cleared :: "string \<Rightarrow> u64"          \<comment> \<open>what clearing returned for a user\<close>

definition no_accounting :: accounting where
  "no_accounting = \<lparr>ac_registry = NewStatsRegistry, ac_held = Map.empty, ac_reported = (\<lambda>_. 0), ac_cleared = (\<lambda>_. 0)\<rparr>"

definition report_Tx :: "(string \<times> TrafficEntry) list \<Rightarrow> string \<Rightarrow> u64" where
  "report_Tx out i = (case map_of out i of None \<Rightarrow> 0 | Some e \<Rightarrow> te_Tx e)"

inductive traffic_step :: "accounting \<Rightarrow> accounting \<Rightarrow> bool" where
  attach: "ac_held a s = None \<Longrightarrow> Attach now i remote s (ac_registry a) = (r, u) \<Longrightarrow>
     traffic_step a (a\<lparr>ac_registry := r, ac_held := (ac_held a)(s \<mapsto> (i, u))\<rparr>)"
| detach: "ac_held a s = Some (i, u) \<Longrightarrow>
     traffic_step a (a\<lparr>ac_registry := Detach i s (ac_registry a), ac_held := (ac_held a)(s := None)\<rparr>)"
| tx: "ac_held a s = Some (i, u) \<Longrightarrow>
     traffic_step a (a\<lparr>ac_registry := UserStat_AddTx u n (ac_registry a),
                       ac_reported := (ac_reported a)(i := ac_reported a i + n)\<rparr>)"
| rx: "ac_held a s = Some (i, u) \<Longrightarrow> traffic_step a (a\<lparr>ac_registry := UserStat_AddRx u n (ac_registry a)\<rparr>)"
| clear: "Clear (ac_registry a) = (r, out) \<Longrightarrow>
     traffic_step a (a\<lparr>ac_registry := r, ac_cleared := (\<lambda>i. ac_cleared a i + report_Tx out i)\<rparr>)"

definition users_ok :: "statsRegistry \<Rightarrow> bool" where
  "users_ok r \<longleftrightarrow> distinct (map fst (rg_users r)) \<and> distinct (map snd (rg_users r)) \<and>
     (\<forall>(i, u) \<in> set (rg_users r). u < length (rg_userStore r))"

text \<open>Every user lists exactly its sessions, which hold the counter the map has.\<close>

definition linked :: "statsRegistry \<Rightarrow> (nat \<rightharpoonup> string \<times> nat) \<Rightarrow> bool" where
  "linked r held \<longleftrightarrow>
     (\<forall>s i u. held s = Some (i, u) \<longleftrightarrow> (i, u) \<in> set (rg_users r) \<and> s \<in> fst ` set (us_sessions (rg_userStore r ! u)))"

definition counter_Tx :: "statsRegistry \<Rightarrow> string \<Rightarrow> u64" where
  "counter_Tx r i = (case map_of (rg_users r) i of None \<Rightarrow> 0 | Some u \<Rightarrow> us_Tx (rg_userStore r ! u))"

definition accounted :: "accounting \<Rightarrow> bool" where
  "accounted a \<longleftrightarrow> users_ok (ac_registry a) \<and> linked (ac_registry a) (ac_held a) \<and>
     (\<forall>i. ac_reported a i = ac_cleared a i + counter_Tx (ac_registry a) i)"

lemma counter_Tx_Snapshot: "counter_Tx r i = report_Tx (Snapshot r) i"
  unfolding counter_Tx_def report_Tx_def Snapshot_def
  by (induction "rg_users r") (auto simp: map_of_map split: option.split)
section \<open>The accounting is kept\<close>

lemma upd_user_fields [simp]:
  "rg_users (upd_user u f r) = rg_users r" "length (rg_userStore (upd_user u f r)) = length (rg_userStore r)"
  by (simp_all add: upd_user_def)

lemma upd_user_nth: "u < length (rg_userStore r) \<Longrightarrow>
    rg_userStore (upd_user u f r) ! q = (if q = u then f (rg_userStore r ! u) else rg_userStore r ! q)"
  by (simp add: upd_user_def)

lemma users_okD:
  assumes "users_ok r"
  shows "(i, u) \<in> set (rg_users r) \<Longrightarrow> map_of (rg_users r) i = Some u"
    and "map_of (rg_users r) i = Some u \<Longrightarrow> (i, u) \<in> set (rg_users r)"
    and "(i, u) \<in> set (rg_users r) \<Longrightarrow> u < length (rg_userStore r)"
    and "(i, u) \<in> set (rg_users r) \<Longrightarrow> (j, u) \<in> set (rg_users r) \<Longrightarrow> i = j"
    and "map_of (rg_users r) i = Some u \<Longrightarrow> map_of (rg_users r) j = Some u \<Longrightarrow> i = j"
proof -
  have d: "distinct (map fst (rg_users r))" "distinct (map snd (rg_users r))" using assms by (simp_all add: users_ok_def)
  show "(i, u) \<in> set (rg_users r) \<Longrightarrow> map_of (rg_users r) i = Some u" using d(1) by simp
  show "map_of (rg_users r) i = Some u \<Longrightarrow> (i, u) \<in> set (rg_users r)" by (rule map_of_SomeD)
  show "(i, u) \<in> set (rg_users r) \<Longrightarrow> u < length (rg_userStore r)" using assms by (auto simp: users_ok_def)
  show inj: "i = j" if "(i, u) \<in> set (rg_users r)" "(j, u) \<in> set (rg_users r)" for i j
    using d(2) that inj_onD [of snd "set (rg_users r)" "(i, u)" "(j, u)"] by (simp add: distinct_map)
  show "map_of (rg_users r) i = Some u \<Longrightarrow> map_of (rg_users r) j = Some u \<Longrightarrow> i = j"
    by (intro inj map_of_SomeD)
qed

lemma users_ok_upd [simp]: "users_ok (upd_user u f r) = users_ok r"
  by (simp add: users_ok_def)

lemma counter_Tx_upd:
  assumes ok: "users_ok r" and u: "map_of (rg_users r) i = Some u"
  shows "counter_Tx (upd_user u f r) j = (if j = i then us_Tx (f (rg_userStore r ! u)) else counter_Tx r j)"
proof -
  have "u < length (rg_userStore r)" using users_okD(2,3) [OF ok] u by blast
  note n = upd_user_nth [OF this]
  show ?thesis
  proof (cases "map_of (rg_users r) j")
    case (Some q)
    then show ?thesis using u n users_okD(5) [OF ok, of i u j] by (auto simp: counter_Tx_def)
  qed (use u in \<open>auto simp: counter_Tx_def\<close>)
qed

lemma linked_upd_same:
  assumes "linked r held" "u < length (rg_userStore r)" "\<And>x. us_sessions (f x) = us_sessions x"
  shows "linked (upd_user u f r) held"
  using assms by (auto simp: linked_def upd_user_nth)

lemma linkedD:
  assumes "users_ok r" "linked r held" "held s = Some (i, u)"
  shows "map_of (rg_users r) i = Some u" "u < length (rg_userStore r)"
  using assms users_okD(1,3) by (auto simp: linked_def)

lemma update_new: "map_of m k = None \<Longrightarrow> AList.update k v m = m @ [(k, v)]"
  by (induction m) (auto split: if_splits)

lemma Attach_result:
  assumes "users_ok r" "Attach now i remote s r = (r', u)"
  shows "\<exists>r1. users_ok r1 \<and> map_of (rg_users r1) i = Some u \<and>
    r' = upd_user u (\<lambda>x. x\<lparr>us_sessions := AList.update s \<lparr>si_remote = remote, si_started = now\<rparr> (us_sessions x)\<rparr>) r1 \<and>
    (\<forall>held. linked r held \<longrightarrow> linked r1 held) \<and> counter_Tx r1 = counter_Tx r"
proof (cases "map_of (rg_users r) i")
  case (Some p)
  then show ?thesis using assms by (intro exI [of _ r]) (auto simp: Attach_def)
next
  case None
  let ?x = "\<lparr>us_ID = i, us_Tx = 0, us_Rx = 0, us_sessions = []\<rparr>"
  let ?r = "r\<lparr>rg_users := AList.update i (length (rg_userStore r)) (rg_users r), rg_userStore := rg_userStore r @ [?x]\<rparr>"
  have u: "u = length (rg_userStore r)" using None assms(2) by (auto simp: Attach_def Let_def)
  have us: "rg_users ?r = rg_users r @ [(i, u)]" "rg_userStore ?r = rg_userStore r @ [?x]" using update_new [OF None] u by simp_all
  have old: "q < u" if "(j, q) \<in> set (rg_users r)" for j q using users_okD(3) [OF assms(1) that] u by simp
  have "u \<notin> snd ` set (rg_users r)" "i \<notin> fst ` set (rg_users r)" using old None by (force simp: map_of_eq_None_iff)+
  then have "users_ok ?r" using assms(1) us u unfolding users_ok_def by auto
  moreover have "linked ?r held" if "linked r held" for held
    using that old u unfolding linked_def us by (auto simp: nth_append)
  moreover have "counter_Tx ?r = counter_Tx r"
  proof
    fix j show "counter_Tx ?r j = counter_Tx r j"
      using None old [OF map_of_SomeD] u unfolding counter_Tx_def us
      by (cases "map_of (rg_users r) j") (auto simp: nth_append map_add_def)
  qed
  moreover have "map_of (rg_users ?r) i = Some u" using None us by (simp add: map_add_def)
  ultimately show ?thesis using assms(2) None u by (intro exI [of _ ?r]) (simp add: Attach_def Let_def)
qed

lemma linked_attach:
  assumes ok: "users_ok r" and l: "linked r held" and s: "held s = None" and u: "map_of (rg_users r) i = Some u"
  shows "linked (upd_user u (\<lambda>x. x\<lparr>us_sessions := AList.update s info (us_sessions x)\<rparr>) r) (held(s \<mapsto> (i, u)))"
  unfolding linked_def
proof (intro allI)
  fix t j q
  have m: "(i, u) \<in> set (rg_users r)" and n: "u < length (rg_userStore r)" using users_okD(2,3) [OF ok] u by blast+
  have "s \<notin> fst ` set (us_sessions (rg_userStore r ! q))" if "(j, q) \<in> set (rg_users r)" for j q
    using l s that unfolding linked_def by (metis option.distinct(1))
  moreover have "held t = Some (j, q) \<longleftrightarrow> (j, q) \<in> set (rg_users r) \<and> t \<in> fst ` set (us_sessions (rg_userStore r ! q))"
    using l unfolding linked_def by blast
  ultimately show "(held(s \<mapsto> (i, u))) t = Some (j, q) \<longleftrightarrow>
      (j, q) \<in> set (rg_users (upd_user u (\<lambda>x. x\<lparr>us_sessions := AList.update s info (us_sessions x)\<rparr>) r)) \<and>
      t \<in> fst ` set (us_sessions (rg_userStore (upd_user u (\<lambda>x. x\<lparr>us_sessions := AList.update s info (us_sessions x)\<rparr>) r) ! q))"
    using m users_okD(4) [OF ok, of j u i] by (cases "t = s"; cases "q = u") (auto simp: upd_user_nth [OF n] dom_update)
qed

lemma dom_delete: "fst ` set (AList.delete k m) = fst ` set m - {k}"
  by (auto simp: AList.delete_eq)

lemma linked_detach:
  assumes ok: "users_ok r" and l: "linked r held" and s: "held s = Some (i, u)"
  shows "linked (Detach i s r) (held(s := None))"
  unfolding linked_def
proof (intro allI)
  fix t j q
  note u = linkedD [OF ok l s]
  have D: "Detach i s r = upd_user u (\<lambda>x. x\<lparr>us_sessions := AList.delete s (us_sessions x)\<rparr>) r" using u by (simp add: Detach_def)
  have eq: "held t = Some (j, q) \<longleftrightarrow> (j, q) \<in> set (rg_users r) \<and> t \<in> fst ` set (us_sessions (rg_userStore r ! q))" for t j q
    using l unfolding linked_def by blast
  have "s \<notin> fst ` set (us_sessions (rg_userStore r ! q))" if "(j, q) \<in> set (rg_users r)" "q \<noteq> u"
    using eq [of s j q] s that by auto
  then show "(held(s := None)) t = Some (j, q) \<longleftrightarrow>
      (j, q) \<in> set (rg_users (Detach i s r)) \<and> t \<in> fst ` set (us_sessions (rg_userStore (Detach i s r) ! q))"
    unfolding D using eq [of t j q] by (cases "t = s"; cases "q = u") (auto simp: upd_user_nth [OF u(2)] dom_delete simp del: set_map)
qed

lemma Clear_result:
  assumes ok: "users_ok r" and c: "Clear r = (r', out)"
  shows "rg_users r' = filter (\<lambda>(i, u). us_sessions (rg_userStore r ! u) \<noteq> []) (rg_users r)"
    and "length (rg_userStore r') = length (rg_userStore r)" and "out = Snapshot r"
    and "(i, u) \<in> set (rg_users r) \<Longrightarrow> rg_userStore r' ! u = (rg_userStore r ! u)\<lparr>us_Tx := 0, us_Rx := 0\<rparr>"
proof -
  obtain st kept o' where e: "clear_users (rg_users r) (rg_userStore r) = (st, kept, o')" by (metis prod_cases3)
  then have r': "r' = r\<lparr>rg_userStore := st, rg_users := kept\<rparr>" "out = o'" using c by (auto simp: Clear_def)
  note k = clear_users_result [OF e] ok
  show "rg_users r' = filter (\<lambda>(i, u). us_sessions (rg_userStore r ! u) \<noteq> []) (rg_users r)"
    "length (rg_userStore r') = length (rg_userStore r)" "out = Snapshot r"
    using k r' by (simp_all add: users_ok_def Snapshot_def)
  show "rg_userStore r' ! u = (rg_userStore r ! u)\<lparr>us_Tx := 0, us_Rx := 0\<rparr>" if "(i, u) \<in> set (rg_users r)"
    using k r' that by (force simp: users_ok_def)
qed

lemma accounted_clear:
  assumes ok: "users_ok r" and l: "linked r held" and c: "Clear r = (r', out)"
  shows "users_ok r' \<and> linked r' held \<and> (\<forall>i. counter_Tx r' i = 0) \<and> report_Tx out = counter_Tx r"
proof -
  note k = Clear_result [OF ok c]
  have "users_ok r'" using ok unfolding users_ok_def k(1,2) by (auto simp: distinct_map_filter)
  moreover have "linked r' held" unfolding linked_def
  proof (intro allI)
    fix s i u
    have "us_sessions (rg_userStore r' ! u) = us_sessions (rg_userStore r ! u)" if "(i, u) \<in> set (rg_users r)" using k(4) [OF that] by simp
    moreover have "held s = Some (i, u) \<longleftrightarrow> (i, u) \<in> set (rg_users r) \<and> s \<in> fst ` set (us_sessions (rg_userStore r ! u))"
      using l unfolding linked_def by blast
    ultimately show "held s = Some (i, u) \<longleftrightarrow> (i, u) \<in> set (rg_users r') \<and> s \<in> fst ` set (us_sessions (rg_userStore r' ! u))"
      unfolding k(1) by auto
  qed
  moreover have "counter_Tx r' i = 0" for i
  proof (cases "map_of (rg_users r') i")
    case (Some u)
    then have "(i, u) \<in> set (rg_users r)" using map_of_SomeD [OF Some] by (simp add: k(1))
    then show ?thesis using k(4) Some by (simp add: counter_Tx_def)
  qed (simp add: counter_Tx_def)
  ultimately show ?thesis using k(3) by (auto simp: counter_Tx_Snapshot fun_eq_iff)
qed

lemma accounted_step:
  assumes "traffic_step a b" "accounted a"
  shows "accounted b"
  using assms
proof (cases rule: traffic_step.cases)
  case (attach s now i remote r u)
  have ok: "users_ok (ac_registry a)" and l: "linked (ac_registry a) (ac_held a)" using assms(2) by (simp_all add: accounted_def)
  obtain r1 where r1: "users_ok r1" "map_of (rg_users r1) i = Some u" "linked r1 (ac_held a)" "counter_Tx r1 = counter_Tx (ac_registry a)"
    "r = upd_user u (\<lambda>x. x\<lparr>us_sessions := AList.update s \<lparr>si_remote = remote, si_started = now\<rparr> (us_sessions x)\<rparr>) r1"
    using Attach_result [OF ok attach(3)] l by blast
  have "counter_Tx r = counter_Tx r1"
    unfolding r1(5) using counter_Tx_upd [OF r1(1,2)] r1(2) by (auto simp: fun_eq_iff counter_Tx_def)
  then show ?thesis
    using assms(2) r1 linked_attach [OF r1(1,3) attach(2) r1(2)] attach(1) unfolding accounted_def by simp
next
  case (detach s i u)
  have ok: "users_ok (ac_registry a)" and l: "linked (ac_registry a) (ac_held a)" using assms(2) by (simp_all add: accounted_def)
  note u = linkedD [OF ok l detach(2)]
  have "counter_Tx (Detach i s (ac_registry a)) = counter_Tx (ac_registry a)"
    using counter_Tx_upd [OF ok u(1)] u(1) by (auto simp: fun_eq_iff counter_Tx_def Detach_def)
  moreover have "users_ok (Detach i s (ac_registry a))" using ok u by (simp add: Detach_def)
  ultimately show ?thesis using assms(2) linked_detach [OF ok l detach(2)] detach(1) unfolding accounted_def by simp
next
  case (tx s i u n)
  have ok: "users_ok (ac_registry a)" and l: "linked (ac_registry a) (ac_held a)" using assms(2) by (simp_all add: accounted_def)
  note u = linkedD [OF ok l tx(2)]
  have "us_Tx (rg_userStore (ac_registry a) ! u) = counter_Tx (ac_registry a) i" using u by (simp add: counter_Tx_def)
  then show ?thesis
    using assms(2) linked_upd_same [OF l u(2)] counter_Tx_upd [OF ok u(1)] tx(1) unfolding accounted_def UserStat_AddTx_def by simp
next
  case (rx s i u n)
  have ok: "users_ok (ac_registry a)" and l: "linked (ac_registry a) (ac_held a)" using assms(2) by (simp_all add: accounted_def)
  note u = linkedD [OF ok l rx(2)]
  have "us_Tx (rg_userStore (ac_registry a) ! u) = counter_Tx (ac_registry a) i" using u by (simp add: counter_Tx_def)
  then show ?thesis
    using assms(2) linked_upd_same [OF l u(2)] counter_Tx_upd [OF ok u(1)] rx(1) unfolding accounted_def UserStat_AddRx_def by simp
next
  case (clear r out)
  have ok: "users_ok (ac_registry a)" and l: "linked (ac_registry a) (ac_held a)" using assms(2) by (simp_all add: accounted_def)
  then show ?thesis using assms(2) accounted_clear [OF ok l clear(2)] clear(1) unfolding accounted_def by simp
qed

lemma accounted_run: "traffic_step\<^sup>*\<^sup>* no_accounting a \<Longrightarrow> accounted a"
proof (induction rule: rtranclp_induct)
  case base
  show ?case by (simp add: accounted_def no_accounting_def NewStatsRegistry_def users_ok_def linked_def counter_Tx_def)
qed (rule accounted_step)

section \<open>Claims\<close>


text \<open>Alice's session reports 100 bytes, the counters are cleared, and it reports 20 more.\<close>

definition cleared_run :: accounting where
  "cleared_run =
     (let (r1, u) = Attach 0 ''alice'' ''10.0.0.1:1000'' 7 NewStatsRegistry; r2 = UserStat_AddTx u 100 r1; (r3, out) = Clear r2
      in \<lparr>ac_registry = UserStat_AddTx u 20 r3, ac_held = [7 \<mapsto> (''alice'', u)], ac_reported = (\<lambda>_. 0)(''alice'' := 120),
          ac_cleared = (\<lambda>i. report_Tx out i)\<rparr>)"

lemma cleared_run_reachable: "traffic_step\<^sup>*\<^sup>* no_accounting cleared_run"
proof -
  obtain r1 where a: "Attach 0 ''alice'' ''10.0.0.1:1000'' 7 NewStatsRegistry = (r1, 0)"
    by (simp add: Attach_def NewStatsRegistry_def Let_def)
  obtain r3 out where c: "Clear (UserStat_AddTx 0 100 r1) = (r3, out)" by fastforce
  let ?h = "[7 \<mapsto> (''alice'', 0)]" and ?z = "\<lambda>_. 0"
  let ?a1 = "\<lparr>ac_registry = r1, ac_held = ?h, ac_reported = ?z, ac_cleared = ?z\<rparr>"
  let ?a2 = "\<lparr>ac_registry = UserStat_AddTx 0 100 r1, ac_held = ?h, ac_reported = ?z(''alice'' := 100), ac_cleared = ?z\<rparr>"
  let ?a3 = "\<lparr>ac_registry = r3, ac_held = ?h, ac_reported = ?z(''alice'' := 100), ac_cleared = (\<lambda>i. report_Tx out i)\<rparr>"
  have "traffic_step no_accounting ?a1"
    using traffic_step.attach [of no_accounting 7 0 "''alice''" "''10.0.0.1:1000''" r1 0] a by (simp add: no_accounting_def)
  moreover have "traffic_step ?a1 ?a2" using traffic_step.tx [of ?a1 7 "''alice''" 0 100] by simp
  moreover have "traffic_step ?a2 ?a3" using traffic_step.clear [of ?a2 r3 out] c by simp
  moreover have "traffic_step ?a3 cleared_run"
    using traffic_step.tx [of ?a3 7 "''alice''" 0 20] a c by (simp add: cleared_run_def)
  ultimately show ?thesis by (meson converse_rtranclp_into_rtranclp rtranclp.rtrancl_refl)
qed


text \<open>Kicking a list of users closes exactly the sessions attached for one of them and not yet detached.\<close>

lemma Kick_linked:
  assumes ok: "users_ok r" and l: "linked r held"
  shows "set (Kick ids r) = {s. \<exists>i \<in> set ids. \<exists>u. held s = Some (i, u)}"
proof -
  have k: "s \<in> set (Kick ids r) \<longleftrightarrow>
      (\<exists>i \<in> set ids. \<exists>u. map_of (rg_users r) i = Some u \<and> s \<in> fst ` set (us_sessions (rg_userStore r ! u)))" for s
    unfolding Kick_def by (simp add: eq_commute [of "Some _"] split: option.split)
  have "map_of (rg_users r) i = Some u \<longleftrightarrow> (i, u) \<in> set (rg_users r)" for i u
    using users_okD(1,2) [OF ok] by blast
  then have "held s = Some (i, u) \<longleftrightarrow>
      map_of (rg_users r) i = Some u \<and> s \<in> fst ` set (us_sessions (rg_userStore r ! u))" for s i u
    using l unfolding linked_def by simp
  then show ?thesis by (simp only: set_eq_iff mem_Collect_eq k simp_thms)
qed

text \<open>C39. The statistics interface is guarded. Where a secret is set, a request without it gets no data, changes no
  counter and closes no session. Counters change only by an authorised \<^verbatim>\<open>/traffic\<close> request with a
  true \<^verbatim>\<open>clear\<close>, and sessions are closed only by an authorised POST to \<^verbatim>\<open>/kick\<close>.\<close>

theorem stats_api_guarded:
  assumes "NewHandler secret q r = (reply, r', closed)"
  shows "(secret \<noteq> '''' \<and> hq_Authorization q \<noteq> secret \<longrightarrow> reply \<in> {Unauthorized, NotFound} \<and> r' = r \<and> closed = []) \<and>
    (r' \<noteq> r \<longrightarrow> hq_path q = ''/traffic'' \<and> ParseBool (hq_clear q) \<and> r' = fst (Clear r)) \<and>
    (closed \<noteq> [] \<longrightarrow> hq_path q = ''/kick'' \<and> hq_POST q \<and> (\<exists>ids. hq_body q = Some ids \<and> closed = Kick ids r))"
  using assms by (auto simp: NewHandler_def stats_auth_def stats_handler_def split: if_splits option.splits prod.splits)

theorem stats_api_guarded_witness:
  "\<exists>reply r' closed. NewHandler ''s3cret'' \<lparr>hq_path = ''/kick'', hq_POST = True, hq_Authorization = ''guess'', hq_clear = [],
     hq_body = Some [''alice'']\<rparr> (ac_registry cleared_run) = (reply, r', closed) \<and> reply \<in> {Unauthorized, NotFound} \<and>
     r' = ac_registry cleared_run \<and> closed = []"
proof -
  let ?q = "\<lparr>hq_path = ''/kick'', hq_POST = True, hq_Authorization = ''guess'', hq_clear = [], hq_body = Some [''alice'']\<rparr>"
  obtain reply r' closed where h: "NewHandler ''s3cret'' ?q (ac_registry cleared_run) = (reply, r', closed)" by (metis prod_cases3)
  then show ?thesis using stats_api_guarded [OF h] by simp
qed

end
