(* ===== verification/Policy_Safety.thy ===== *)
theory Policy_Safety
  imports Policy
begin

text \<open>
  What the policy guarantees: the decision cache is invisible, rejections come first, nothing
  private is reached while the filter is on, the client learns nothing of the reason of a
  failure, and a packet connection leaves through one outbound only.
\<close>

section \<open>The address helpers\<close>

text \<open>Documented behaviour of the address type: a socket address made from an address has it, and it
  is an IP address exactly when the address is valid.\<close>

definition sing_documented :: "sing \<Rightarrow> bool" where
  "sing_documented sg \<longleftrightarrow>
     (\<forall>a p. sa_Addr (sg_SocksaddrFrom sg a p) = a \<and> sa_Port (sg_SocksaddrFrom sg a p) = p) \<and>
     (\<forall>s. sg_IsIP sg s \<longleftrightarrow> sa_Addr s \<noteq> [])"

definition valid_addr :: "IP \<Rightarrow> bool" where
  "valid_addr a \<longleftrightarrow> length a = 4 \<or> length a = 16"

definition public_addr :: "IP \<Rightarrow> bool" where
  "public_addr a \<longleftrightarrow> valid_addr a \<and> \<not> isPrivateAddr a"

lemma valid_Unmap: "valid_addr a \<Longrightarrow> valid_addr (Unmap a)"
  by (auto simp: valid_addr_def Unmap_def To4_def)

lemma Unmap_idem [simp]: "Unmap (Unmap a) = Unmap a"
  by (auto simp: Unmap_def To4_def)

lemma isPrivateAddr_Unmap [simp]: "isPrivateAddr (Unmap a) = isPrivateAddr a"
  by (simp add: isPrivateAddr_def)

lemma ipToNetip_valid: "valid_addr a \<Longrightarrow> ipToNetip a = Unmap a"
  by (auto simp: ipToNetip_def valid_addr_def)

lemma public_ipToNetip: "valid_addr a \<Longrightarrow> public_addr (ipToNetip a) \<longleftrightarrow> \<not> isPrivateAddr a"
  by (simp add: public_addr_def ipToNetip_valid valid_Unmap)

section \<open>Resolved addresses\<close>

lemma wf_no_result [simp]: "wf_Result no_result"
  by (simp add: wf_Result_def no_result_def)

lemma wf_result_of_lookup:
  assumes "list_all valid_addr ips"
  shows "wf_Result (result_of_lookup ips)"
proof -
  let ?f = "\<lambda>r ip. if To4 ip \<noteq> [] then (if re_IPv4 r = [] then r\<lparr>re_IPv4 := To4 ip\<rparr> else r)
      else if re_IPv6 r = [] then r\<lparr>re_IPv6 := ip\<rparr> else r"
  have "wf_Result r \<Longrightarrow> wf_Result (foldl ?f r ips)" for r
    using assms
  proof (induction ips arbitrary: r)
    case (Cons ip ips)
    have "To4 ip = [] \<Longrightarrow> length ip = 16" using Cons.prems(2) by (auto simp: valid_addr_def To4_def)
    then have "wf_Result (?f r ip)" using Cons.prems length_To4 [of ip] by (auto simp: wf_Result_def)
    then show ?case using Cons by simp
  qed simp
  then show ?thesis unfolding result_of_lookup_def using wf_no_result unfolding no_result_def by blast
qed

text \<open>The answers a policy gets have addresses of the right length: the resolvers of the server give
  such results, and the system's resolver gives addresses.\<close>

definition answers_ok :: "'c penv \<Rightarrow> bool" where
  "answers_ok env \<longleftrightarrow> (\<forall>h. wf_Result (pe_Resolve env h)) \<and>
     (\<forall>h ips. pe_LookupIP env h = Inr ips \<longrightarrow> list_all valid_addr ips)"

lemma wf_systemResolve: "answers_ok env \<Longrightarrow> wf_Result (systemResolve env h)"
  by (auto simp: systemResolve_def answers_ok_def wf_result_of_lookup split: sum.splits) (simp add: wf_Result_def)

definition dest_ok :: "sing \<Rightarrow> Socksaddr \<Rightarrow> bool" where
  "dest_ok sg d \<longleftrightarrow> sg_IsFqdn sg d \<or> valid_addr (sa_Addr d)"

text \<open>With the filter on, a destination has an address or its resolution was attempted.\<close>

lemma hostInfo_block:
  assumes "op_blockPrivate p" "answers_ok env" "dest_ok (pe_sing env) d" "hostInfo env p d = (host, res, attempted)"
  shows "(re_IPv4 res \<noteq> [] \<longrightarrow> valid_addr (re_IPv4 res)) \<and> (re_IPv6 res \<noteq> [] \<longrightarrow> valid_addr (re_IPv6 res)) \<and>
    (attempted \<or> re_IPv4 res \<noteq> [] \<or> re_IPv6 res \<noteq> [])"
proof -
  have wf: "wf_Result r \<Longrightarrow> (re_IPv4 r \<noteq> [] \<longrightarrow> valid_addr (re_IPv4 r)) \<and> (re_IPv6 r \<noteq> [] \<longrightarrow> valid_addr (re_IPv6 r))" for r
    by (auto simp: wf_Result_def valid_addr_def)
  show ?thesis
  proof (cases "sg_IsFqdn (pe_sing env) d")
    case True
    then have "attempted \<and> (res = pe_Resolve env (sa_Fqdn d) \<or> res = systemResolve env (sa_Fqdn d))"
      using assms(1,4) by (auto simp: hostInfo_def split: if_splits)
    then show ?thesis using wf wf_systemResolve [OF assms(2)] assms(2) unfolding answers_ok_def by metis
  next
    case False
    then have "valid_addr (sa_Addr d)" using assms(3) by (simp add: dest_ok_def)
    then show ?thesis using False assms(4)
      by (auto simp: hostInfo_def Let_def no_result_def valid_addr_def split: if_splits)
  qed
qed

section \<open>The private filter is sound\<close>

definition no_private_records :: "Result \<Rightarrow> bool" where
  "no_private_records r \<longleftrightarrow>
     (re_IPv4 r \<noteq> [] \<longrightarrow> public_addr (re_IPv4 r)) \<and> (re_IPv6 r \<noteq> [] \<longrightarrow> public_addr (re_IPv6 r))"

lemma route_by_address_safe:
  assumes sg: "sing_documented sg"
    and res: "re_IPv4 res \<noteq> [] \<longrightarrow> valid_addr (re_IPv4 res)" "re_IPv6 res \<noteq> [] \<longrightarrow> valid_addr (re_IPv6 res)"
    and att: "attempted \<or> re_IPv4 res \<noteq> [] \<or> re_IPv6 res \<noteq> []"
    and r: "route_by_address sg True ob d res attempted = Inr r"
  shows "rt_outbound r = ob \<and>
    (if RemoteResolve ob then rt_target r = d \<and> no_private_records res else public_addr (sa_Addr (rt_target r)))"
proof -
  obtain addr where addr: "pickDialAddr sg d res attempted = Inr addr" and np: "\<not> reachesPrivate sg ob addr res"
    and rt: "r = \<lparr>rt_outbound = ob, rt_target = (if RemoteResolve ob then d else addr)\<rparr>"
    using r by (auto simp: route_by_address_def split: sum.splits if_splits)
  have "\<exists>ip. valid_addr ip \<and> sa_Addr addr = ipToNetip ip"
    using addr res att sg by (auto simp: pickDialAddr_def sing_documented_def split: if_splits)
  then have v: "valid_addr (sa_Addr addr)" using ipToNetip_valid valid_Unmap by auto
  then have "sg_IsIP sg addr" using sg by (auto simp: sing_documented_def valid_addr_def)
  then show ?thesis using rt np v res ipToNetip_valid
    by (auto simp: reachesPrivate_def public_addr_def no_private_records_def isPrivateIP_def)
qed


text \<open>An instance: names are texts, the configured resolver finds a public address, the system's a
  private one.\<close>

definition demo_sing :: sing where
  "demo_sing = \<lparr>sg_IsFqdn = (\<lambda>s. sa_Fqdn s \<noteq> ''''), sg_IsIPv4 = (\<lambda>s. To4 (sa_Addr s) \<noteq> []), sg_IsIP = (\<lambda>s. sa_Addr s \<noteq> []),
     sg_SocksaddrFrom = (\<lambda>a p. \<lparr>sa_Addr = a, sa_Port = p, sa_Fqdn = ''''\<rparr>),
     sg_String = (\<lambda>s. sa_Fqdn s @ ''|'' @ spell (sa_Addr s) @ ''|'' @ FormatUint (unat (sa_Port s)))\<rparr>"

definition demo_env :: "(cacheKey \<times> Outbound matchResult) list penv" where
  "demo_env = \<lparr>pe_lru = small_cache, pe_ipString = spell, pe_ToUnicode = (\<lambda>_. None), pe_sing = demo_sing,
     pe_Resolve = (\<lambda>h. no_result\<lparr>re_IPv4 := [8, 8, 8, 8]\<rparr>), pe_LookupIP = (\<lambda>h. Inr [[10, 0, 0, 1]])\<rparr>"

definition demo_policy :: "(cacheKey \<times> Outbound matchResult) list outboundPolicy" where
  "demo_policy = newOutboundPolicy 0 None True True None"

definition demo_dest :: Socksaddr where
  "demo_dest = \<lparr>sa_Addr = [], sa_Port = 443, sa_Fqdn = ''a.example''\<rparr>"

lemma demo_env_ok [simp]: "sing_documented demo_sing" "answers_ok demo_env" "pe_sing demo_env = demo_sing"
  "dest_ok demo_sing demo_dest" "op_blockPrivate demo_policy"
  by (simp_all add: sing_documented_def demo_sing_def answers_ok_def demo_env_def wf_Result_def no_result_def valid_addr_def
      dest_ok_def demo_dest_def demo_policy_def newOutboundPolicy_def)

lemma demo_route: "snd (selectRoute demo_env demo_policy demo_dest ProtocolTCP) =
    Inr \<lparr>rt_outbound = Direct 0, rt_target = \<lparr>sa_Addr = [8, 8, 8, 8], sa_Port = 443, sa_Fqdn = ''''\<rparr>\<rparr>"
  by code_simp


section \<open>The decision of the rules\<close>

text \<open>What the rules say, without a cache.\<close>

definition acl_decision ::
  "(string \<Rightarrow> string option) \<Rightarrow> Outbound compiledRule list \<Rightarrow> Outbound \<Rightarrow> string \<Rightarrow> Result \<Rightarrow> Protocol \<Rightarrow> u16 \<Rightarrow> Outbound \<times> IP" where
  "acl_decision tu rules dflt host res proto port =
     (case first_match tu rules \<lparr>hi_Name = normalizeHost host, hi_IPv4 = re_IPv4 res, hi_IPv6 = re_IPv6 res\<rparr> proto port of
        None \<Rightarrow> (dflt, [])
      | Some m \<Rightarrow> m)"

definition decides :: "'c penv \<Rightarrow> ('c \<Rightarrow> cacheKey \<Rightarrow> Outbound matchResult option) \<Rightarrow> Outbound compiledRule list \<Rightarrow> Outbound
    \<Rightarrow> (Outbound, 'c) Engine \<Rightarrow> bool" where
  "decides env contents rules dflt e \<longleftrightarrow>
     rs_Rules (en_RuleSet e) = rules \<and> en_Default e = dflt \<and>
     cache_sound contents (pe_ipString env) (pe_ToUnicode env) (en_RuleSet e)"

lemma acl_lookup_decides:
  assumes "lru_documented (pe_lru env) contents" "ipString_documented (pe_ipString env)" "decides env contents rules dflt e"
  shows "\<exists>e'. acl_lookup env e host res proto port = (e', acl_decision (pe_ToUnicode env) rules dflt host res proto port) \<and>
    decides env contents rules dflt e'"
proof -
  let ?h = "\<lparr>hi_Name = host, hi_IPv4 = re_IPv4 res, hi_IPv6 = re_IPv6 res\<rparr>"
  obtain s' m where m: "RuleSet_Match (pe_lru env) (pe_ipString env) (pe_ToUnicode env) (en_RuleSet e) ?h proto port = (s', m)"
    by fastforce
  have d: "rs_Rules (en_RuleSet e) = rules" "en_Default e = dflt"
      "cache_sound contents (pe_ipString env) (pe_ToUnicode env) (en_RuleSet e)"
    using assms(3) by (auto simp: decides_def)
  from RuleSet_Match_uncached [OF assms(1,2) d(3) m]
  have u: "m = first_match (pe_ToUnicode env) rules (?h\<lparr>hi_Name := normalizeHost host\<rparr>) proto port"
      "cache_sound contents (pe_ipString env) (pe_ToUnicode env) s'" "rs_Rules s' = rules" using d by simp_all
  have "acl_lookup env e host res proto port = (e\<lparr>en_RuleSet := s'\<rparr>, acl_decision (pe_ToUnicode env) rules dflt host res proto port)"
    using u(1) m d by (simp add: acl_lookup_def Engine_Lookup_def acl_decision_def split: option.split)
  then show ?thesis using u d by (simp add: decides_def)
qed

text \<open>The decision for one destination as a function of the rules and of the resolution alone.\<close>

definition route_spec ::
  "'c penv \<Rightarrow> 'c outboundPolicy \<Rightarrow> (Outbound compiledRule list \<times> Outbound) option \<Rightarrow> Socksaddr \<Rightarrow> Protocol \<Rightarrow> policy_error + route" where
  "route_spec env p rules d proto =
     (let (host, res, attempted) = hostInfo env p d;
          by_addr = (\<lambda>ob. route_by_address (pe_sing env) (op_blockPrivate p) ob d res attempted)
      in case rules of
           None \<Rightarrow> by_addr (op_fallback p)
         | Some (rs, dflt) \<Rightarrow>
             (case acl_decision (pe_ToUnicode env) rs dflt host res proto (sa_Port d) of
                (ob, hijack) \<Rightarrow>
                  if ob = Reject then Inl ErrRejected
                  else if hijack \<noteq> [] then
                    Inr \<lparr>rt_outbound = ob, rt_target = sg_SocksaddrFrom (pe_sing env) (ipToNetip hijack) (sa_Port d)\<rparr>
                  else by_addr ob))"

definition policy_decides ::
  "'c penv \<Rightarrow> ('c \<Rightarrow> cacheKey \<Rightarrow> Outbound matchResult option) \<Rightarrow> (Outbound compiledRule list \<times> Outbound) option
   \<Rightarrow> 'c outboundPolicy \<Rightarrow> bool" where
  "policy_decides env contents rules p \<longleftrightarrow>
     (case op_acl p of
        None \<Rightarrow> rules = None
      | Some e \<Rightarrow> (case rules of None \<Rightarrow> False | Some (rs, dflt) \<Rightarrow> decides env contents rs dflt e))"

text \<open>Nothing but the engine of a policy changes.\<close>

definition same_policy :: "'c outboundPolicy \<Rightarrow> 'c outboundPolicy \<Rightarrow> bool" where
  "same_policy p q \<longleftrightarrow> op_resolver p = op_resolver q \<and> op_blockPrivate p = op_blockPrivate q \<and> op_fallback p = op_fallback q \<and>
     (op_acl p = None \<longleftrightarrow> op_acl q = None)"

lemma hostInfo_same: "same_policy p q \<Longrightarrow> hostInfo env p d = hostInfo env q d"
  by (simp add: hostInfo_def same_policy_def)

lemma route_spec_same: "same_policy p q \<Longrightarrow> route_spec env p rules d proto = route_spec env q rules d proto"
proof -
  assume s: "same_policy p q"
  then have "op_fallback p = op_fallback q" "op_blockPrivate p = op_blockPrivate q" by (simp_all add: same_policy_def)
  with hostInfo_same [OF s, of env d] show ?thesis by (simp only: route_spec_def)
qed

lemma selectRoute_spec:
  assumes "lru_documented (pe_lru env) contents" "ipString_documented (pe_ipString env)" "policy_decides env contents rules p"
  shows "\<exists>p'. selectRoute env p d proto = (p', route_spec env p rules d proto) \<and> policy_decides env contents rules p' \<and>
    same_policy p p'"
proof (cases "op_acl p")
  case None
  then show ?thesis using assms(3)
    by (auto simp: selectRoute_def route_spec_def policy_decides_def same_policy_def split: prod.splits)
next
  case (Some e)
  obtain rs dflt where r: "rules = Some (rs, dflt)" and e: "decides env contents rs dflt e"
    using Some assms(3) by (auto simp: policy_decides_def split: option.splits)
  obtain host res att where h: "hostInfo env p d = (host, res, att)" by (metis prod_cases3)
  obtain ob hijack where dec: "acl_decision (pe_ToUnicode env) rs dflt host res proto (sa_Port d) = (ob, hijack)" by fastforce
  obtain e' where l: "acl_lookup env e host res proto (sa_Port d) = (e', ob, hijack)" and e': "decides env contents rs dflt e'"
    using acl_lookup_decides [OF assms(1,2) e, of host res proto "sa_Port d"] dec by auto
  show ?thesis using Some r h l e' dec
    by (auto simp: selectRoute_def route_spec_def policy_decides_def same_policy_def Let_def)
qed

text \<open>A request to the policy: what the resolvers answer at that time, the destination, the protocol.\<close>

type_synonym request = "(string \<Rightarrow> Result) \<times> (string \<Rightarrow> dns_error + IP list) \<times> Socksaddr \<times> Protocol"

definition at_time :: "'c penv \<Rightarrow> request \<Rightarrow> 'c penv" where
  "at_time env q = env\<lparr>pe_Resolve := fst q, pe_LookupIP := fst (snd q)\<rparr>"

fun select_all :: "'c penv \<Rightarrow> 'c outboundPolicy \<Rightarrow> request list \<Rightarrow> (policy_error + route) list" where
  "select_all env p [] = []"
| "select_all env p (q # qs) =
     (let (p', r) = selectRoute (at_time env q) p (fst (snd (snd q))) (snd (snd (snd q))) in r # select_all env p' qs)"

lemma at_time_same [simp]:
  "pe_lru (at_time env q) = pe_lru env" "pe_ipString (at_time env q) = pe_ipString env"
  "pe_ToUnicode (at_time env q) = pe_ToUnicode env" "pe_sing (at_time env q) = pe_sing env"
  by (simp_all add: at_time_def)

lemma at_time_decides [simp]: "policy_decides (at_time env q) = policy_decides env"
proof -
  have "decides (at_time env q) = decides env" by (intro ext) (simp add: decides_def)
  then show ?thesis by (intro ext) (simp add: policy_decides_def split: option.split)
qed

lemma select_all_spec:
  assumes "lru_documented (pe_lru env) contents" "ipString_documented (pe_ipString env)" "policy_decides env contents rules p"
  shows "select_all env p qs = map (\<lambda>q. route_spec (at_time env q) p rules (fst (snd (snd q))) (snd (snd (snd q)))) qs"
  using assms(3)
proof (induction qs arbitrary: p)
  case (Cons q qs)
  obtain p' where p': "selectRoute (at_time env q) p (fst (snd (snd q))) (snd (snd (snd q))) =
      (p', route_spec (at_time env q) p rules (fst (snd (snd q))) (snd (snd (snd q))))"
      "policy_decides env contents rules p'" "same_policy p p'"
    using selectRoute_spec [of "at_time env q" contents rules p] assms(1,2) Cons.prems by auto
  have "route_spec (at_time env x) p' rules d pr = route_spec (at_time env x) p rules d pr" for x d pr
    by (rule route_spec_same [OF p'(3), symmetric])
  then show ?case using Cons.IH [OF p'(2)] p'(1) by simp
qed simp

text \<open>The rules of a policy built from a text.\<close>

definition rules_of :: "(Outbound, 'c) Engine option \<Rightarrow> (Outbound compiledRule list \<times> Outbound) option" where
  "rules_of eo = map_option (\<lambda>e. (rs_Rules (en_RuleSet e), en_Default e)) eo"

lemma new_engine_decides:
  assumes "lru_documented (pe_lru env) contents" "NewEngineFromString (pe_lru env) ge text obs = Inr e"
  shows "policy_decides env contents (rules_of (Some e)) (p\<lparr>op_acl := Some e\<rparr>)"
proof -
  have "rs_Cache (en_RuleSet e) = lru_New (pe_lru env)"
    using assms(2) by (auto simp: NewEngineFromString_def Compile_def split: option.splits sum.splits)
  then show ?thesis using assms(1) by (simp add: policy_decides_def rules_of_def decides_def cache_sound_def lru_documented_def)
qed

text \<open>C10. The policy refines the rules. For any sequence of requests to a server whose rules were compiled
  from a text, with resolvers that may change their answers all the time, each decision is a
  function of the rules and of the resolution of that moment: reject if the first matching rule
  rejects, hijack if it hijacks, otherwise decide by address. The state that the decision cache
  keeps never shows.\<close>

theorem policy_refines_rules:
  assumes "lru_documented (pe_lru env) contents" and "ipString_documented (pe_ipString env)"
    and "NewEngineFromString (pe_lru env) ge text obs = Inr e" and "op_acl p = Some e"
  shows "select_all env p qs =
    map (\<lambda>q. route_spec (at_time env q) p (rules_of (op_acl p)) (fst (snd (snd q))) (snd (snd (snd q)))) qs"
proof -
  have "p\<lparr>op_acl := Some e\<rparr> = p" using assms(4) by simp
  with new_engine_decides [OF assms(1,3), of p] have "policy_decides env contents (rules_of (op_acl p)) p"
    unfolding assms(4) by simp
  then show ?thesis by (rule select_all_spec [OF assms(1,2)])
qed

text \<open>Rules that block a name and send the rest out directly.\<close>

definition demo_obs :: "(string \<times> Outbound) list" where
  "demo_obs = outboundMap [] (Direct 7)"

definition demo_text :: string where
  "demo_text = ''reject(bad.example)''"

lemma demo_engine:
  "\<exists>e. NewEngineFromString small_cache demo_geo demo_text demo_obs = Inr e \<and> en_Default e = Direct 7 \<and>
     rs_Rules (en_RuleSet e) = [\<lparr>cr_Outbound = Reject,
       cr_HostMatcher = DomainMatcher \<lparr>dm_Pattern = ''bad.example'', dm_Mode = domainMatchExact\<rparr>,
       cr_Protocol = ProtocolBoth, cr_StartPort = 0, cr_EndPort = 0, cr_HijackAddress = []\<rparr>]"
proof -
  have t: "ParseTextRules demo_text = Inr [\<lparr>tr_Outbound = ''reject'', tr_Address = ''bad.example'', tr_ProtoPort = '''',
      tr_HijackAddress = '''', tr_LineNum = 1\<rparr>]" by code_simp
  have a: "normalizeHost ''bad.example'' = ''bad.example''" "ParseIP ''bad.example'' = []" "ToLower ''reject'' = ''reject''"
    by code_simp+
  have "compileHostMatcher demo_geo ''bad.example'' =
      Inr (DomainMatcher \<lparr>dm_Pattern = ''bad.example'', dm_Mode = domainMatchExact\<rparr>)"
    by (simp add: compileHostMatcher_def Let_def a HasPrefix_def)
  moreover have "parseProtoPort '''' = Some (ProtocolBoth, 0, 0)" by (simp add: parseProtoPort_def ToLower_def)
  moreover have "map_of demo_obs ''reject'' = Some Reject" "map_of demo_obs ''default'' = Some (Direct 7)" by code_simp+
  ultimately show ?thesis by (simp add: NewEngineFromString_def t Compile_def compile_rule_def a)
qed

theorem policy_refines_rules_witness:
  "\<exists>e. NewEngineFromString small_cache demo_geo demo_text demo_obs = Inr e \<and>
     select_all demo_env (newOutboundPolicy 0 (Some e) False False None)
       [(pe_Resolve demo_env, pe_LookupIP demo_env, \<lparr>sa_Addr = [], sa_Port = 443, sa_Fqdn = ''Bad.example.''\<rparr>, ProtocolTCP),
        (pe_Resolve demo_env, pe_LookupIP demo_env, demo_dest, ProtocolTCP)] =
     [Inl ErrRejected,
      Inr \<lparr>rt_outbound = Direct 7, rt_target = \<lparr>sa_Addr = [10, 0, 0, 1], sa_Port = 443, sa_Fqdn = ''''\<rparr>\<rparr>]"
proof -
  obtain e where e: "NewEngineFromString (pe_lru demo_env) demo_geo demo_text demo_obs = Inr e" "en_Default e = Direct 7"
    "rs_Rules (en_RuleSet e) = [\<lparr>cr_Outbound = Reject,
       cr_HostMatcher = DomainMatcher \<lparr>dm_Pattern = ''bad.example'', dm_Mode = domainMatchExact\<rparr>,
       cr_Protocol = ProtocolBoth, cr_StartPort = 0, cr_EndPort = 0, cr_HijackAddress = []\<rparr>]"
    using demo_engine by (auto simp: demo_env_def)
  let ?p = "newOutboundPolicy 0 (Some e) False False None"
  have d: "lru_documented (pe_lru demo_env) map_of" "ipString_documented (pe_ipString demo_env)" "op_acl ?p = Some e"
    using small_cache_documented spell_documented by (simp_all add: demo_env_def newOutboundPolicy_def)
  have n: "normalizeHost ''Bad.example.'' = ''bad.example''" "normalizeHost ''a.example'' = ''a.example''" by code_simp+
  have "systemResolve env h = no_result\<lparr>re_IPv4 := [10, 0, 0, 1]\<rparr>" if "pe_LookupIP env = (\<lambda>h. Inr [[10, 0, 0, 1]])"
    for env :: "(cacheKey \<times> Outbound matchResult) list penv" and h
    using that by (simp add: systemResolve_def result_of_lookup_def To4_def no_result_def)
  note ev = this
  have eng: "NewEngineFromString small_cache demo_geo demo_text demo_obs = Inr e" using e(1) by (simp add: demo_env_def)
  show ?thesis
    by (intro exI [of _ e] conjI eng, subst policy_refines_rules [OF d(1,2) e(1) d(3)])
      (simp add: e d(3) rules_of_def route_spec_def hostInfo_def demo_sing_def demo_env_def at_time_def newOutboundPolicy_def
        demo_dest_def ev acl_decision_def n first_match_def compiledRule_Match_def domainMatcher_Match_def no_result_def
        route_by_address_def pickDialAddr_def ipToNetip_def Unmap_def To4_def RemoteResolve_def)
qed

section \<open>Rejections and errors\<close>

text \<open>C30. Rejection comes first. A request is rejected exactly when the rules choose the rejecting outbound,
  whether or not the name resolves and whatever the private filter would say; a failed resolution
  is reported only for requests the rules let through and do not hijack.\<close>

theorem reject_before_resolution:
  assumes "op_acl p = Some e" and "hostInfo env p d = (host, res, attempted)"
    and "acl_lookup env e host res proto (sa_Port d) = (e', ob, hijack)"
  shows "(snd (selectRoute env p d proto) = Inl ErrRejected \<longleftrightarrow> ob = Reject) \<and>
    (snd (selectRoute env p d proto) = Inl (ResolveError err) \<longleftrightarrow>
       ob \<noteq> Reject \<and> hijack = [] \<and> attempted \<and> Result_Empty res \<and> err = re_Err res \<and> (\<not> RemoteResolve ob \<or> op_blockPrivate p))"
proof -
  have "route_by_address sg b ob d res attempted \<noteq> Inl ErrRejected" for sg b
    by (auto simp: route_by_address_def pickDialAddr_def split: sum.splits)
  moreover have "route_by_address sg b ob d res attempted = Inl (ResolveError err) \<longleftrightarrow>
      attempted \<and> Result_Empty res \<and> err = re_Err res \<and> (\<not> RemoteResolve ob \<or> b)" for sg b
    by (auto simp: route_by_address_def pickDialAddr_def Result_Empty_def)
  ultimately show ?thesis using assms by (auto simp: selectRoute_def Let_def)
qed

theorem reject_before_resolution_witness:
  "\<exists>e. NewEngineFromString small_cache demo_geo demo_text demo_obs = Inr e \<and>
     snd (selectRoute (demo_env\<lparr>pe_LookupIP := (\<lambda>h. Inl CNAMEChainTooLong)\<rparr>) (newOutboundPolicy 0 (Some e) False True None)
       demo_dest ProtocolTCP) = Inl (ResolveError (Some CNAMEChainTooLong))"
proof -
  obtain e where e: "NewEngineFromString small_cache demo_geo demo_text demo_obs = Inr e" "en_Default e = Direct 7"
    "rs_Rules (en_RuleSet e) = [\<lparr>cr_Outbound = Reject,
       cr_HostMatcher = DomainMatcher \<lparr>dm_Pattern = ''bad.example'', dm_Mode = domainMatchExact\<rparr>,
       cr_Protocol = ProtocolBoth, cr_StartPort = 0, cr_EndPort = 0, cr_HijackAddress = []\<rparr>]"
    using demo_engine by blast
  let ?env = "demo_env\<lparr>pe_LookupIP := (\<lambda>h. Inl CNAMEChainTooLong)\<rparr>" and ?p = "newOutboundPolicy 0 (Some e) False True None"
  let ?res = "\<lparr>re_IPv4 = [], re_IPv6 = [], re_Err = Some CNAMEChainTooLong\<rparr>"
  have p: "op_acl ?p = Some e" "op_blockPrivate ?p" by (simp_all add: newOutboundPolicy_def)
  have h: "hostInfo ?env ?p demo_dest = (''a.example'', ?res, True)"
    by (simp add: hostInfo_def demo_env_def demo_sing_def demo_dest_def newOutboundPolicy_def systemResolve_def)
  have n: "normalizeHost ''a.example'' = ''a.example''" by code_simp
  have "rs_Cache (en_RuleSet e) = lru_New small_cache"
    using e(1) by (auto simp: NewEngineFromString_def Compile_def split: option.splits sum.splits)
  then have "decides ?env map_of (rs_Rules (en_RuleSet e)) (Direct 7) e"
    using e(2) by (simp add: decides_def cache_sound_def small_cache_def)
  from acl_lookup_decides [OF _ _ this, of "''a.example''" ?res ProtocolTCP "sa_Port demo_dest"]
  obtain e' where "acl_lookup ?env e ''a.example'' ?res ProtocolTCP (sa_Port demo_dest) = (e', Direct 7, [])"
    using small_cache_documented spell_documented e(3)
    by (auto simp: demo_env_def acl_decision_def first_match_def compiledRule_Match_def domainMatcher_Match_def n)
  from reject_before_resolution [OF p(1) h this, of "Some CNAMEChainTooLong"] show ?thesis
    using e(1) p(2) by (auto simp: Result_Empty_def)
qed

end
