(* ===== verification/Policy_Relay.thy ===== *)
theory Policy_Relay
  imports Policy_Safety
begin

text \<open>
  The users of the policy: TCP requests, the map of outbounds, and the packet connection as a
  transition system with its invariant.
\<close>

section \<open>TCP requests\<close>

definition is_report :: "tcp_event \<Rightarrow> bool" where
  "is_report ev = (case ev of ReportHandshakeFailure _ \<Rightarrow> True | ReportHandshakeSuccess \<Rightarrow> True | _ \<Rightarrow> False)"

lemma clientError_message:
  "clientError err \<in> {''blocked by server policy'', ''resolve failed'', ''dial failed''}"
  by (cases err) (simp_all add: clientError_def)

text \<open>C31. TCP requests. The outcome is reported to the client exactly once; a failure with one of three fixed
  messages, so no address or resolver is ever named; data is relayed only after success was
  reported, and success only after the outbound that the policy chose has connected to the address
  that the policy chose.\<close>

theorem tcp_request_outcome:
  assumes "proxyOutboundTCP env dial success p hasStats d = (p', evs)"
  shows "length (filter is_report evs) = 1 \<and>
    (\<forall>m. ReportHandshakeFailure m \<in> set evs \<longrightarrow> m \<in> {''blocked by server policy'', ''resolve failed'', ''dial failed''}) \<and>
    (Relay \<in> set evs \<longrightarrow> ReportHandshakeSuccess \<in> set evs) \<and>
    (ReportHandshakeSuccess \<in> set evs \<longrightarrow>
      (\<exists>r rest. evs = DialTCP (rt_outbound r) (rt_target r) # ReportHandshakeSuccess # rest \<and>
         selectRoute env p d ProtocolTCP = (p', Inr r) \<and> rt_outbound r \<noteq> Reject \<and>
         dial (rt_outbound r) (rt_target r) = None))"
proof -
  obtain q res where s: "selectRoute env p d ProtocolTCP = (q, res)" by fastforce
  show ?thesis
  proof (cases res)
    case (Inl err)
    then have "evs = [ReportHandshakeFailure (clientError err)]" using assms s by (simp add: proxyOutboundTCP_def)
    then show ?thesis using clientError_message by (simp add: is_report_def)
  next
    case (Inr r)
    show ?thesis
    proof (cases "Outbound_DialTCP dial (rt_outbound r) (rt_target r)")
      case None
      then have "rt_outbound r \<noteq> Reject \<and> dial (rt_outbound r) (rt_target r) = None"
        by (auto simp: Outbound_DialTCP_def split: Outbound.splits)
      then show ?thesis using assms s Inr None by (auto simp: proxyOutboundTCP_def is_report_def split: if_splits)
    next
      case (Some err)
      then have "evs = [DialTCP (rt_outbound r) (rt_target r), ReportHandshakeFailure (clientError err)]"
        using assms s Inr by (simp add: proxyOutboundTCP_def)
      then show ?thesis using clientError_message by (simp add: is_report_def)
    qed
  qed
qed

theorem tcp_request_outcome_witness:
  "\<exists>evs. snd (proxyOutboundTCP demo_env (\<lambda>ob t. None) None demo_policy True demo_dest) = evs \<and>
     length (filter is_report evs) = 1 \<and> Relay \<in> set evs"
proof -
  let ?x = "proxyOutboundTCP demo_env (\<lambda>ob t. None) None demo_policy True demo_dest"
  have "snd ?x = [DialTCP (Direct 0) \<lparr>sa_Addr = [8, 8, 8, 8], sa_Port = 443, sa_Fqdn = ''''\<rparr>, ReportHandshakeSuccess, Established, Relay]"
    using demo_route by (auto simp: proxyOutboundTCP_def Outbound_DialTCP_def split: prod.splits)
  then have "Relay \<in> set (snd ?x)" by simp
  moreover have "length (filter is_report (snd ?x)) = 1"
    using tcp_request_outcome [of demo_env "\<lambda>ob t. None" None demo_policy True demo_dest, OF prod.collapse [symmetric]] by (rule conjunct1)
  ultimately show ?thesis by blast
qed

section \<open>The map of outbounds\<close>

lemma map_of_outbound_put:
  "map_of (outbound_put n ob m) k = (if k = n \<and> map_of m n = None then Some ob else map_of m k)"
  by (auto simp: outbound_put_def update_conv split: option.splits)

lemma map_of_entries:
  "map_of (foldl (\<lambda>m (name, ob). AList.update (ToLower name) ob m) m0 entries) k =
     (case map_of (rev (map (\<lambda>(name, ob). (ToLower name, ob)) entries)) k of None \<Rightarrow> map_of m0 k | Some ob \<Rightarrow> Some ob)"
proof (induction entries arbitrary: m0)
  case (Cons e es)
  then show ?case by (cases e) (auto simp: update_conv map_add_def split: option.splits)
qed simp

text \<open>What the code promises for each name: the user's last entry of that name, or the built-in.\<close>

definition outbound_spec :: "(string \<times> Outbound) list \<Rightarrow> Outbound \<Rightarrow> string \<Rightarrow> Outbound option" where
  "outbound_spec entries direct k =
     (case map_of (rev (map (\<lambda>(name, ob). (ToLower name, ob)) entries)) k of
        Some ob \<Rightarrow> Some ob
      | None \<Rightarrow>
          if k = ''direct'' then Some direct
          else if k = ''reject'' then Some Reject
          else if k = ''default'' then Some (if entries = [] then direct else snd (hd entries))
          else None)"

lemma outbound_map_lookup: "map_of (outboundMap entries direct) k = outbound_spec entries direct k"
proof -
  have "map_of (foldl (\<lambda>m (name, ob). AList.update (ToLower name) ob m) [] entries) x =
      map_of (rev (map (\<lambda>(name, ob). (ToLower name, ob)) entries)) x" for x
    unfolding map_of_entries by (simp split: option.split)
  note m = this
  show ?thesis
    unfolding outboundMap_def Let_def outbound_spec_def map_of_outbound_put m
    by (auto split: option.splits)
qed

text \<open>Outbound names. Rules find a user's outbound under its name in any case; the names direct, reject
  and default always exist, with the built-in meaning unless the user took the name; and the
  default is the first configured outbound.\<close>

theorem outboundMap_spec: "map_of (outboundMap entries direct) k = outbound_spec entries direct k"
  by (rule outbound_map_lookup)

text \<open>A validated configuration always yields outbounds.\<close>

lemma named_outbounds_total:
  "list_all outbound_ok es \<Longrightarrow> \<exists>l. named_outbounds i es = Inr l \<and> map fst l = map oe_Name es"
proof (induction es arbitrary: i)
  case (Cons e es)
  then obtain l where "named_outbounds (Suc i) es = Inr l" "map fst l = map oe_Name es" by fastforce
  then show ?case using Cons.prems by (auto simp: outbound_ok_def Let_def)
qed simp

lemma outbound_spec_entry:
  assumes "distinct (map (\<lambda>(name, ob). ToLower name) entries)" and "(name, ob) \<in> set entries"
  shows "outbound_spec entries direct (ToLower name) = Some ob"
proof -
  let ?l = "rev (map (\<lambda>(name, ob). (ToLower name, ob)) entries)"
  have "map fst ?l = rev (map (\<lambda>(name, ob). ToLower name) entries)" by (simp add: rev_map case_prod_unfold comp_def)
  then have "distinct (map fst ?l)" using assms(1) by simp
  moreover have "(ToLower name, ob) \<in> set ?l" using assms(2) by force
  ultimately have "map_of ?l (ToLower name) = Some ob" by (rule map_of_is_SomeI)
  then show ?thesis by (simp add: outbound_spec_def)
qed

lemma no_other_default_error: "ParseTextRules s \<noteq> Inl NoDefaultOutbound" "Compile lru ge rules obs \<noteq> Inl NoDefaultOutbound"
proof -
  have "parse_lines n ls \<noteq> Inl NoDefaultOutbound" for n ls
    by (induction n ls rule: parse_lines.induct) (auto simp: Let_def split: option.splits sum.splits)
  then show "ParseTextRules s \<noteq> Inl NoDefaultOutbound" by (simp add: ParseTextRules_def)
  have one: "compile_rule ge obs r \<noteq> Inl NoDefaultOutbound" for r
    by (auto simp: compile_rule_def Let_def split: option.splits sum.splits)
  have "compile_rules ge obs rules \<noteq> Inl NoDefaultOutbound"
    by (induction rules) (use one in \<open>auto split: sum.splits\<close>)
  then show "Compile lru ge rules obs \<noteq> Inl NoDefaultOutbound" by (auto simp: Compile_def split: sum.splits)
qed

text \<open>From the configuration to the rules. A configuration that loads gives a map of outbounds in which
  every configured entry is found under its own lower-case name, and with which compiling rules
  never lacks a default.\<close>

theorem loaded_config_outbounds:
  assumes "LoadFile pd ReadFile Unmarshal path = Inr c"
  shows "\<exists>m. newOutbounds (cf_Outbounds c) = Inr m \<and>
    (\<forall>e \<in> set (cf_Outbounds c). \<exists>ob. map_of m (ToLower (oe_Name e)) = Some ob \<and> ob \<noteq> Reject) \<and>
    NewEngineFromString lru ge text m \<noteq> Inl NoDefaultOutbound"
proof -
  have ok: "list_all outbound_ok (cf_Outbounds c)" "distinct (map (\<lambda>e. ToLower (oe_Name e)) (cf_Outbounds c))"
    using loaded_outbounds [OF assms] by auto
  obtain l where l: "named_outbounds 0 (cf_Outbounds c) = Inr l" "map fst l = map oe_Name (cf_Outbounds c)"
    using named_outbounds_total [OF ok(1)] by blast
  have nr: "named_outbounds i es = Inr xs \<Longrightarrow> (n, ob) \<in> set xs \<Longrightarrow> ob \<noteq> Reject" for i es xs n ob
    by (induction i es arbitrary: xs rule: named_outbounds.induct) (auto simp: Let_def split: if_splits sum.splits)
  let ?m = "outboundMap l (Direct (length (cf_Outbounds c)))"
  have d: "distinct (map (\<lambda>(name, ob). ToLower name) l)"
  proof -
    have "map (\<lambda>(name, ob). ToLower name) l = map ToLower (map fst l)" by (simp add: case_prod_unfold comp_def)
    also have "\<dots> = map (\<lambda>e. ToLower (oe_Name e)) (cf_Outbounds c)" by (simp add: l(2))
    finally show ?thesis using ok(2) by simp
  qed
  have "\<exists>ob. map_of ?m (ToLower (oe_Name e)) = Some ob \<and> ob \<noteq> Reject" if "e \<in> set (cf_Outbounds c)" for e
  proof -
    have "oe_Name e \<in> set (map fst l)" using that l(2) by simp
    then obtain ob where "(oe_Name e, ob) \<in> set l" by auto
    then show ?thesis using outbound_spec_entry [OF d] nr [OF l(1)] outbound_map_lookup by metis
  qed
  moreover have "map_of ?m ''default'' \<noteq> None" unfolding outbound_map_lookup by (auto simp: outbound_spec_def split: option.split)
  then obtain dob where dob: "map_of ?m ''default'' = Some dob" by blast
  have "NewEngineFromString lru ge text ?m \<noteq> Inl NoDefaultOutbound"
  proof (cases "ParseTextRules text")
    case (Inl e)
    then show ?thesis using dob no_other_default_error(1) [of "text"] by (simp add: NewEngineFromString_def)
  next
    case (Inr trs)
    then show ?thesis using dob no_other_default_error(2) [of lru ge trs ?m]
      by (cases "Compile lru ge trs ?m") (simp_all add: NewEngineFromString_def)
  qed
  ultimately show ?thesis using l(1) by (simp add: newOutbounds_def)
qed

definition demo_config :: Config where
  "demo_config = Default\<lparr>cf_Outbounds := [\<lparr>oe_Name = ''Warp'', oe_Type = ''SOCKS5'', oe_Direct = [],
     oe_SOCKS5 = \<lparr>so_Addr = ''10.0.0.9:1080'', so_Username = '''', so_Password = ''''\<rparr>\<rparr>]\<rparr>"

lemma ToLower_Nil: "ToLower [] = []"
  by (simp add: ToLower_def)

theorem loaded_config_outbounds_witness:
  "\<exists>m ob. newOutbounds (cf_Outbounds demo_config) = Inr m \<and> map_of m ''warp'' = Some ob \<and> ob \<noteq> Reject"
proof -
  have b: "parseBandwidth '''' = Inr 0" by (simp add: parseBandwidth_def ToLower_def)
  have s: "SplitHostPort ''10.0.0.9:1080'' = Some (''10.0.0.9'', ''1080'')" "ToLower (TrimSpace ''SOCKS5'') = ''socks5''"
    "TrimSpace ''Warp'' = ''Warp''" "ToLower ''Warp'' = ''warp''" by code_simp+
  have "ParseUint 16 ''1080'' = Some 1080" by (simp add: parse_eval)
  then have "wf_config (\<lambda>_. None) demo_config"
    by (simp add: wf_config_def demo_config_def Default_def duration_ok_def bandwidth_ok_def b auth_ok_def resolver_ok_def
        ResolverConfig_Kind_def outbound_ok_def OutboundEntry_Kind_def socks5_ok_def s ToLower_Nil)
  then have "LoadFile (\<lambda>_. None) (\<lambda>_. Inr []) (\<lambda>_ _. Inr demo_config) ''server.yaml'' = Inr demo_config"
    unfolding LoadFile_char by simp
  from loaded_config_outbounds [OF this, of small_cache demo_geo "[]"] show ?thesis by (auto simp: demo_config_def s)
qed

section \<open>The packet connection\<close>

text \<open>
  A packet connection in use: packets to any destination, with whatever the resolvers, the
  network and the iteration order of the cache do at the time, and closing, in any order.
\<close>

inductive packet_step :: "'c penv \<Rightarrow> ('c, 'b) routedPacketConn \<Rightarrow> ('c, 'b) routedPacketConn \<Rightarrow> bool" for env where
  packet: "dest_ok (pe_sing env) d \<Longrightarrow> answers_ok (env\<lparr>pe_Resolve := ans, pe_LookupIP := sys\<rparr>) \<Longrightarrow>
     packet_step env c (fst (WritePacket (env\<lparr>pe_Resolve := ans, pe_LookupIP := sys\<rparr>) evict listen send b d c))"
| close: "packet_step env c (PacketConn_Close c)"

inductive packet_reachable :: "'c penv \<Rightarrow> 'c outboundPolicy \<Rightarrow> ('c, 'b) routedPacketConn \<Rightarrow> bool" for env p where
  init: "packet_reachable env p (newRoutedPacketConn p)"
| step: "packet_reachable env p c \<Longrightarrow> packet_step env c c' \<Longrightarrow> packet_reachable env p c'"

text \<open>Where a packet may go under the private filter: a public address, a proxy that resolves itself, or
  the address of a rule.\<close>

definition allowed_route :: "sing \<Rightarrow> bool \<Rightarrow> (Outbound compiledRule list \<times> Outbound) option \<Rightarrow> Outbound \<Rightarrow> Socksaddr \<Rightarrow> bool" where
  "allowed_route sg block rules ob target \<longleftrightarrow>
     (block \<longrightarrow> RemoteResolve ob \<or> public_addr (sa_Addr target) \<or>
       (\<exists>rs dflt r. rules = Some (rs, dflt) \<and> r \<in> set rs \<and> cr_HijackAddress r \<noteq> [] \<and> sa_Addr target = ipToNetip (cr_HijackAddress r)))"

definition packet_inv ::
  "'c penv \<Rightarrow> ('c \<Rightarrow> cacheKey \<Rightarrow> Outbound matchResult option) \<Rightarrow> (Outbound compiledRule list \<times> Outbound) option
   \<Rightarrow> 'c outboundPolicy \<Rightarrow> ('c, 'b) routedPacketConn \<Rightarrow> bool" where
  "packet_inv env contents rules p c \<longleftrightarrow>
     policy_decides env contents rules (pc_policy c) \<and> same_policy p (pc_policy c) \<and>
     distinct (map fst (pc_cache c)) \<and> length (pc_cache c) \<le> maxSessionACLCache \<and>
     (\<forall>k r. map_of (pc_cache c) k = Some (Some r) \<longrightarrow>
        allowed_route (pe_sing env) (op_blockPrivate p) rules (rt_outbound r) (rt_target r)) \<and>
     (pc_conn c = None \<longleftrightarrow> pc_outbound c = None) \<and>
     (pc_ready c \<longleftrightarrow> pc_conn c \<noteq> None \<or> pc_closed c) \<and> (pc_conn_closed c \<longleftrightarrow> pc_closed c \<and> pc_conn c \<noteq> None) \<and>
     (\<forall>(ob, target, b) \<in> set (pc_sent c). pc_outbound c = Some ob \<and>
        allowed_route (pe_sing env) (op_blockPrivate p) rules ob target)"

lemma first_match_hijack: "first_match tu rs h proto port = Some (ob, hijack) \<Longrightarrow> \<exists>r \<in> set rs. cr_HijackAddress r = hijack"
  by (auto simp: first_match_def find_Some_iff split: option.splits)

lemma route_spec_allowed:
  assumes "sing_documented (pe_sing env)" "answers_ok env" "dest_ok (pe_sing env) d" "route_spec env p rules d proto = Inr r"
  shows "allowed_route (pe_sing env) (op_blockPrivate p) rules (rt_outbound r) (rt_target r)"
proof (cases "op_blockPrivate p")
  case True
  obtain host res att where h: "hostInfo env p d = (host, res, att)" by (metis prod_cases3)
  note hb = hostInfo_block [OF True assms(2,3) h]
  note safe = route_by_address_safe [OF assms(1) conjunct1 [OF hb] conjunct1 [OF conjunct2 [OF hb]] conjunct2 [OF conjunct2 [OF hb]]]
  have by_addr: "RemoteResolve (rt_outbound r) \<or> public_addr (sa_Addr (rt_target r))"
    if "route_by_address (pe_sing env) True ob d res att = Inr r" for ob
    using safe [OF that] by (auto split: if_splits)
  show ?thesis
  proof (cases rules)
    case None
    then show ?thesis using assms(4) h True by_addr by (auto simp: route_spec_def allowed_route_def)
  next
    case (Some rd)
    obtain rs dflt where rd: "rd = (rs, dflt)" by (cases rd)
    obtain ob hijack where dec: "acl_decision (pe_ToUnicode env) rs dflt host res proto (sa_Port d) = (ob, hijack)" by fastforce
    show ?thesis
    proof (cases "hijack = []")
      case nil: True
      then have "route_by_address (pe_sing env) True ob d res att = Inr r"
        using assms(4) h True Some rd dec by (auto simp: route_spec_def split: if_splits)
      then show ?thesis using by_addr by (auto simp: allowed_route_def)
    next
      case False
      then obtain x where "x \<in> set rs" "cr_HijackAddress x = hijack"
        using dec first_match_hijack by (fastforce simp: acl_decision_def split: option.splits)
      moreover have "sa_Addr (rt_target r) = ipToNetip hijack"
        using assms(1,4) h Some rd dec False by (auto simp: route_spec_def sing_documented_def split: if_splits)
      ultimately show ?thesis using False Some rd by (auto simp: allowed_route_def)
    qed
  qed
qed (simp add: allowed_route_def)

lemma delete_member_length:
  assumes "distinct (map fst m)" "k \<in> fst ` set m"
  shows "length (AList.delete k m) < length m"
proof -
  have "dom (map_of (AList.delete k m)) = dom (map_of m) - {k}" by (auto simp: delete_conv')
  moreover have "k \<in> dom (map_of m)" using assms(2) by (simp add: dom_map_of_conv_image_fst)
  moreover have "card (dom (map_of l)) = length l" if "distinct (map fst l)" for l :: "('a \<times> 'b) list"
    using that distinct_card [of "map fst l"] by (simp add: dom_map_of_conv_image_fst)
  moreover have "distinct (map fst (AList.delete k m))" using assms(1) by (rule distinct_delete)
  ultimately show ?thesis using assms(1) by (metis card_Diff1_less finite_dom_map_of)
qed

lemma cached_decision_inv:
  assumes env: "lru_documented (pe_lru env) contents" "ipString_documented (pe_ipString env)" "sing_documented (pe_sing env)"
    and env': "env' = env\<lparr>pe_Resolve := ans, pe_LookupIP := sys\<rparr>" "answers_ok env'" "dest_ok (pe_sing env) d"
    and inv: "packet_inv env contents rules p c" and cd: "cached_decision env' evict d c = (c', dec)"
  shows "packet_inv env contents rules p c' \<and>
    (\<forall>r. dec = Some r \<longrightarrow> allowed_route (pe_sing env) (op_blockPrivate p) rules (rt_outbound r) (rt_target r))"
proof (cases "map_of (pc_cache c) (sg_String (pe_sing env') d)")
  case (Some x)
  then have "c' = c" "dec = x" using cd by (auto simp: cached_decision_def)
  then show ?thesis using inv Some by (auto simp: packet_inv_def)
next
  case None
  have at: "env' = at_time env (ans, sys, d, ProtocolUDP)" using env'(1) by (simp add: at_time_def)
  have sp: "same_policy p (pc_policy c)" "policy_decides env' contents rules (pc_policy c)"
    using inv by (simp_all add: packet_inv_def at)
  obtain q where q: "selectRoute env' (pc_policy c) d ProtocolUDP = (q, route_spec env' (pc_policy c) rules d ProtocolUDP)"
      "policy_decides env contents rules q" "same_policy (pc_policy c) q"
    using selectRoute_spec [of env' contents rules "pc_policy c" d ProtocolUDP] sp env(1,2) by (auto simp: at)
  have block: "op_blockPrivate (pc_policy c) = op_blockPrivate p" using sp(1) by (simp add: same_policy_def)
  let ?m = "pc_cache c"
  define kept where "kept = (if length ?m \<ge> maxSessionACLCache then AList.delete (fst (?m ! (evict mod length ?m))) ?m else ?m)"
  have c': "c' = c\<lparr>pc_policy := q, pc_cache := AList.update (sg_String (pe_sing env') d) dec kept\<rparr>"
    and dec: "dec = (case route_spec env' (pc_policy c) rules d ProtocolUDP of Inl _ \<Rightarrow> None | Inr r \<Rightarrow> Some r)"
    using cd None q(1) by (auto simp: cached_decision_def decide_def kept_def Let_def)
  have ok: "allowed_route (pe_sing env) (op_blockPrivate p) rules (rt_outbound r) (rt_target r)" if "dec = Some r" for r
    using route_spec_allowed [of env' d "pc_policy c" rules ProtocolUDP r] that dec env(3) env'(2,3) block
    by (auto simp: at split: sum.splits)
  have m: "distinct (map fst ?m)" "length ?m \<le> maxSessionACLCache" using inv by (simp_all add: packet_inv_def)
  have "length kept < maxSessionACLCache"
  proof (cases "length ?m \<ge> maxSessionACLCache")
    case True
    then have "?m \<noteq> []" by (auto simp: maxSessionACLCache_def)
    then have "fst (?m ! (evict mod length ?m)) \<in> fst ` set ?m" by simp
    then show ?thesis using delete_member_length [OF m(1)] m(2) True unfolding kept_def by simp
  qed (simp add: kept_def)
  then have len: "length (AList.update (sg_String (pe_sing env') d) dec kept) \<le> maxSessionACLCache"
    using length_update_le [of "sg_String (pe_sing env') d" dec kept] by linarith
  have dist: "distinct (map fst kept)" using m(1) by (simp add: kept_def distinct_delete)
  have sub: "map_of kept k = Some y \<Longrightarrow> map_of ?m k = Some y" for k y
    by (auto simp: kept_def delete_conv' split: if_splits)
  have "same_policy p q" using sp(1) q(3) by (simp add: same_policy_def)
  moreover have "\<forall>k r. map_of (pc_cache c') k = Some (Some r) \<longrightarrow>
      allowed_route (pe_sing env) (op_blockPrivate p) rules (rt_outbound r) (rt_target r)"
  proof (intro allI impI)
    fix k r assume kr: "map_of (pc_cache c') k = Some (Some r)"
    have "map_of (pc_cache c') k = (if k = sg_String (pe_sing env') d then Some dec else map_of kept k)"
      by (simp add: c' update_conv')
    with kr consider "dec = Some r" | "map_of kept k = Some (Some r)" by (auto split: if_splits)
    then show "allowed_route (pe_sing env) (op_blockPrivate p) rules (rt_outbound r) (rt_target r)"
    proof cases
      case 2
      then have "map_of ?m k = Some (Some r)" by (rule sub)
      then show ?thesis using inv unfolding packet_inv_def by blast
    qed (rule ok)
  qed
  ultimately show ?thesis using inv q(2) ok len distinct_update [OF dist] unfolding packet_inv_def
    by (simp add: c' del: not_None_eq)
qed

lemma WritePacket_inv:
  assumes env: "lru_documented (pe_lru env) contents" "ipString_documented (pe_ipString env)" "sing_documented (pe_sing env)"
    and env': "env' = env\<lparr>pe_Resolve := ans, pe_LookupIP := sys\<rparr>" "answers_ok env'" "dest_ok (pe_sing env) d"
    and inv: "packet_inv env contents rules p c"
  shows "packet_inv env contents rules p (fst (WritePacket env' evict listen send b d c))"
proof -
  obtain c1 dec where cd: "cached_decision env' evict d c = (c1, dec)" by fastforce
  note k = cached_decision_inv [OF env env' inv cd]
  show ?thesis
  proof (cases dec)
    case None
    then show ?thesis using cd k by (simp add: WritePacket_def)
  next
    case (Some r)
    then have ok: "allowed_route (pe_sing env) (op_blockPrivate p) rules (rt_outbound r) (rt_target r)" using k by blast
    let ?listen = "if rt_outbound r = Reject then Inl ErrRejected else listen (rt_outbound r)"
    let ?open = "\<lambda>conn. c1\<lparr>pc_outbound := Some (rt_outbound r), pc_conn := Some conn, pc_ready := True\<rparr>"
    have new: "packet_inv env contents rules p (?open conn)" if "pc_conn c1 = None" "\<not> pc_closed c1" for conn
      using k that unfolding packet_inv_def by auto
    have send: "packet_inv env contents rules p (x\<lparr>pc_sent := pc_sent x @ [(rt_outbound r, rt_target r, b)]\<rparr>)"
      if "packet_inv env contents rules p x" "pc_outbound x = Some (rt_outbound r)" for x :: "('a, 'b) routedPacketConn"
      using that ok unfolding packet_inv_def by simp
    show ?thesis
    proof (cases "pc_closed c1")
      case True
      then show ?thesis using cd Some k by (simp add: WritePacket_def)
    next
      case False
      show ?thesis
      proof (cases "pc_conn c1")
        case None
        then show ?thesis using cd Some k False new send [OF new]
          by (cases ?listen) (auto simp: WritePacket_def)
      next
        case conn: (Some conn)
        then show ?thesis using cd Some k False send [of c1] by (auto simp: WritePacket_def)
      qed
    qed
  qed
qed

lemma Close_inv: "packet_inv env contents rules p c \<Longrightarrow> packet_inv env contents rules p (PacketConn_Close c)"
  unfolding packet_inv_def PacketConn_Close_def by auto

lemma packet_reachable_inv:
  assumes "lru_documented (pe_lru env) contents" "ipString_documented (pe_ipString env)" "sing_documented (pe_sing env)"
    and "policy_decides env contents rules p" "packet_reachable env p c"
  shows "packet_inv env contents rules p c"
  using assms(5)
proof induction
  case init
  then show ?case using assms(4) by (simp add: packet_inv_def newRoutedPacketConn_def same_policy_def)
next
  case (step c c')
  from step(2) show ?case
  proof cases
    case (packet d ans sys evict listen send b)
    show ?thesis unfolding packet(1) by (rule WritePacket_inv [OF assms(1-3) refl packet(3,2) step.IH])
  next
    case close
    then show ?thesis using Close_inv step.IH by blast
  qed
qed


definition demo_packet_conn :: "((cacheKey \<times> Outbound matchResult) list, string) routedPacketConn" where
  "demo_packet_conn = fst (WritePacket demo_env 0 (\<lambda>ob. Inr 5) None ''data'' demo_dest (newRoutedPacketConn demo_policy))"

lemma demo_packet_conn_state:
  "map fst (pc_sent demo_packet_conn) = [Direct 0]" "map (sa_Addr \<circ> fst \<circ> snd) (pc_sent demo_packet_conn) = [[8, 8, 8, 8]]"
  by code_simp+


text \<open>When the success cannot be reported to the client, the connection just dialed is neither relayed nor closed: no
  event follows the report.\<close>

lemma report_failure_drops_connection:
  assumes "selectRoute env p d ProtocolTCP = (p', Inr r)" "Outbound_DialTCP dial (rt_outbound r) (rt_target r) = None" "success = Some err"
  shows "proxyOutboundTCP env dial success p hasStats d = (p', [DialTCP (rt_outbound r) (rt_target r), ReportHandshakeSuccess])"
  using assms by (simp add: proxyOutboundTCP_def)

end
