(* ===== verification/Server.thy ===== *)
theory Server
  imports Handshake Limiter Stats_Traffic Policy_Relay
begin

text \<open>
  The connections of the server (\<^verbatim>\<open>cmd/server/inbound_tcp.go\<close>, after the handshake): what an admitted
  connection takes from the statistics and the limiter, what its streams record, and how it gives
  everything back. The session in between is the component of the session theories. A session and its
  connection are named by one number.

  The claims compose the two registries: whatever connections and streams come and go, the
  registries know exactly the ones that are alive.
\<close>

section \<open>Operations\<close>

record server =
  sv_stats :: "statsRegistry option"
  sv_limits :: "limiterRegistry option"

text \<open>What the deferred calls of a connection refer to.\<close>

record connection =
  cn_id :: string
  cn_remote :: string
  cn_sess :: nat
  cn_conn :: "nat option"
  cn_dev :: "nat option"

text \<open>The session is attached to its user.\<close>

definition attach_session :: "int \<Rightarrow> string \<Rightarrow> string \<Rightarrow> nat \<Rightarrow> statsRegistry option \<Rightarrow> statsRegistry option" where
  "attach_session now i remote sess st = (case st of None \<Rightarrow> None | Some r \<Rightarrow> Some (fst (Attach now i remote sess r)))"

text \<open>A connection whose identifier is never found does not get any further: \<open>None\<close>.\<close>

definition open_connection :: "(nat \<Rightarrow> u32) \<Rightarrow> int \<Rightarrow> string \<Rightarrow> string \<Rightarrow> nat \<Rightarrow> server \<Rightarrow> (server \<times> connection) option" where
  "open_connection rnd now i remote sess s =
     (case (case sv_stats s of
              None \<Rightarrow> Some (None, None)
            | Some r \<Rightarrow> map_option (\<lambda>(r', c). (Some r', Some c)) (AcquireConn rnd i remote r)) of
        None \<Rightarrow> None
      | Some (st, conn) \<Rightarrow>
          (let (li, dev) = (case sv_limits s of
                 None \<Rightarrow> (None, None)
               | Some l \<Rightarrow> (let (l', d) = Acquire i remote l in (Some l', Some d)))
           in Some (\<lparr>sv_stats = attach_session now i remote sess st, sv_limits = li\<rparr>,
                \<lparr>cn_id = i, cn_remote = remote, cn_sess = sess, cn_conn = conn, cn_dev = dev\<rparr>)))"

text \<open>The deferred calls, last first.\<close>

definition close_connection :: "connection \<Rightarrow> server \<Rightarrow> server" where
  "close_connection c s =
     (let s1 = s\<lparr>sv_stats := map_option (Detach (cn_id c) (cn_sess c)) (sv_stats s)\<rparr>;
          s2 = s1\<lparr>sv_limits := map_option (Release (cn_dev c)) (sv_limits s1)\<rparr>
      in s2\<lparr>sv_stats := map_option (ReleaseConn (cn_conn c)) (sv_stats s2)\<rparr>)"

definition isUoT :: "string \<Rightarrow> string \<Rightarrow> Socksaddr \<Rightarrow> bool" where
  "isUoT MagicAddress LegacyMagicAddress destination \<longleftrightarrow>
     sa_Fqdn destination = MagicAddress \<or> sa_Fqdn destination = LegacyMagicAddress"

text \<open>The stream handler up to the relay: the record of a TCP stream, if streams are recorded. A stream
  whose address cannot be read is given up.\<close>

definition begin_stream ::
  "string \<Rightarrow> string \<Rightarrow> sing \<Rightarrow> int \<Rightarrow> connection \<Rightarrow> Socksaddr option \<Rightarrow> server \<Rightarrow> server \<times> nat option" where
  "begin_stream MagicAddress LegacyMagicAddress sg now c addr s =
     (case addr of
        None \<Rightarrow> (s, None)
      | Some destination \<Rightarrow>
          if isUoT MagicAddress LegacyMagicAddress destination then (s, None)
          else case sv_stats s of
              None \<Rightarrow> (s, None)
            | Some r \<Rightarrow>
                (let conn = the (cn_conn c);
                     (r1, n) = NextStreamID conn r;
                     (r2, st) = TraceStream now (cn_id c) (sc_id (rg_connStore r1 ! conn)) n r1
                 in (s\<lparr>sv_stats := Some (StreamStats_SetReqAddr st (sg_String sg destination) r2)\<rparr>, Some st)))"

definition end_stream :: "nat option \<Rightarrow> server \<Rightarrow> server" where
  "end_stream st s = s\<lparr>sv_stats := map_option (UntraceStream st) (sv_stats s)\<rparr>"

definition NewMyServer :: "Config \<Rightarrow> u64 \<Rightarrow> u64 \<Rightarrow> server" where
  "NewMyServer cfg upBps downBps =
     \<lparr>sv_stats = (if StatsEnabled cfg then Some NewStatsRegistry else None), sv_limits = NewRegistry upBps downBps\<rparr>"

text \<open>Connections and streams come and go in any order. The state is the server, the connections and
  the records of the streams that are alive.\<close>

inductive server_step ::
  "(nat \<Rightarrow> u32) \<Rightarrow> string \<Rightarrow> string \<Rightarrow> sing \<Rightarrow> server \<times> connection list \<times> nat list \<Rightarrow> server \<times> connection list \<times> nat list \<Rightarrow> bool"
  for rnd magic legacy sg where
  connect: "sess \<notin> cn_sess ` set cs \<Longrightarrow> open_connection rnd now i remote sess s = Some (s', c) \<Longrightarrow>
    server_step rnd magic legacy sg (s, cs, ss) (s', c # cs, ss)"
| disconnect: "n < length cs \<Longrightarrow>
    server_step rnd magic legacy sg (s, cs, ss) (close_connection (cs ! n) s, take n cs @ drop (Suc n) cs, ss)"
| stream: "c \<in> set cs \<Longrightarrow> begin_stream magic legacy sg now c addr s = (s', Some st) \<Longrightarrow>
    server_step rnd magic legacy sg (s, cs, ss) (s', cs, ss @ [st])"
| unrecorded: "c \<in> set cs \<Longrightarrow> begin_stream magic legacy sg now c addr s = (s', None) \<Longrightarrow>
    server_step rnd magic legacy sg (s, cs, ss) (s', cs, ss)"
| stream_end: "st \<in> set ss \<Longrightarrow> server_step rnd magic legacy sg (s, cs, ss) (end_stream (Some st) s, cs, removeAll st ss)"
| clear: "sv_stats s = Some r \<Longrightarrow> server_step rnd magic legacy sg (s, cs, ss) (s\<lparr>sv_stats := Some (fst (Clear r))\<rparr>, cs, ss)"
| traffic: "sv_stats s = Some r \<Longrightarrow> map_of (rg_users r) (cn_id c) = Some u \<Longrightarrow> c \<in> set cs \<Longrightarrow>
    server_step rnd magic legacy sg (s, cs, ss) (s\<lparr>sv_stats := Some (UserStat_AddTx u n r)\<rparr>, cs, ss)"

section \<open>Start-up\<close>

text \<open>Flags that were given override the file; the listen flag also fills a gap.\<close>

record server_flags =
  sf_explicit :: "string list"
  sf_listen :: string
  sf_password :: string
  sf_paddingScheme :: string

definition apply_flags :: "server_flags \<Rightarrow> Config \<Rightarrow> Config" where
  "apply_flags f cfg =
     (let c1 = (if ''l'' \<in> set (sf_explicit f) \<or> cf_Listen cfg = [] then cfg\<lparr>cf_Listen := sf_listen f\<rparr> else cfg);
          c2 = (if ''p'' \<in> set (sf_explicit f) then c1\<lparr>cf_Password := sf_password f\<rparr> else c1)
      in if ''padding-scheme'' \<in> set (sf_explicit f) then c2\<lparr>cf_PaddingScheme := sf_paddingScheme f\<rparr> else c2)"

text \<open>The padding scheme file: none when the program stops because it cannot be read; a file in the wrong format leaves the
  built-in scheme.\<close>

definition main_padding :: "(bytes \<Rightarrow> string) \<Rightarrow> (string \<Rightarrow> bytes option) \<Rightarrow> Config \<Rightarrow> PaddingFactory \<Rightarrow> PaddingFactory option" where
  "main_padding md5hex read cfg cur =
     (if cf_PaddingScheme cfg = [] then Some cur
      else case read (cf_PaddingScheme cfg) of
          None \<Rightarrow> None
        | Some b \<Rightarrow> Some (fst (UpdatePaddingScheme md5hex cur b)))"

definition bandwidthLabel :: "u64 \<Rightarrow> string" where
  "bandwidthLabel bps = (if bps = 0 then ''unlimited'' else FormatUint (unat bps) @ '' bps'')"

lemma apply_flags_listen: "sf_listen f \<noteq> [] \<Longrightarrow> cf_Listen (apply_flags f cfg) \<noteq> []"
  by (simp add: apply_flags_def Let_def)

section \<open>What the operations leave alone\<close>

lemma AcquireConn_frame:
  assumes "AcquireConn rnd a h r = Some (r', c)"
  shows "rg_users r' = rg_users r" "rg_userStore r' = rg_userStore r" "rg_streams r' = rg_streams r" "rg_streamStore r' = rg_streamStore r"
  using assms by (auto simp: AcquireConn_def Let_def split: option.splits prod.splits)

lemma ReleaseConn_frame [simp]:
  "rg_users (ReleaseConn p r) = rg_users r" "rg_userStore (ReleaseConn p r) = rg_userStore r"
  "rg_streams (ReleaseConn p r) = rg_streams r" "rg_streamStore (ReleaseConn p r) = rg_streamStore r"
  by (auto simp: ReleaseConn_def Let_def split: option.split)

lemma upd_user_frame [simp]:
  "rg_devices (upd_user u f r) = rg_devices r" "rg_connStore (upd_user u f r) = rg_connStore r"
  "rg_streams (upd_user u f r) = rg_streams r" "rg_streamStore (upd_user u f r) = rg_streamStore r"
  by (simp_all add: upd_user_def)

lemma Attach_frame [simp]:
  "rg_devices (fst (Attach now i remote s r)) = rg_devices r" "rg_connStore (fst (Attach now i remote s r)) = rg_connStore r"
  "rg_streams (fst (Attach now i remote s r)) = rg_streams r" "rg_streamStore (fst (Attach now i remote s r)) = rg_streamStore r"
  by (auto simp: Attach_def Let_def split: option.split prod.split)

lemma Detach_frame [simp]:
  "rg_devices (Detach i s r) = rg_devices r" "rg_connStore (Detach i s r) = rg_connStore r"
  "rg_streams (Detach i s r) = rg_streams r" "rg_streamStore (Detach i s r) = rg_streamStore r"
  by (auto simp: Detach_def split: option.split)

lemma Clear_frame [simp]:
  "rg_devices (fst (Clear r)) = rg_devices r" "rg_connStore (fst (Clear r)) = rg_connStore r"
  "rg_streams (fst (Clear r)) = rg_streams r" "rg_streamStore (fst (Clear r)) = rg_streamStore r"
  by (auto simp: Clear_def split: prod.split)

lemma upd_stream_frame [simp]:
  "rg_devices (upd_stream st f r) = rg_devices r" "rg_connStore (upd_stream st f r) = rg_connStore r"
  "rg_users (upd_stream st f r) = rg_users r" "rg_userStore (upd_stream st f r) = rg_userStore r"
  "rg_streams (upd_stream st f r) = rg_streams r" "length (rg_streamStore (upd_stream st f r)) = length (rg_streamStore r)"
  by (simp_all add: upd_stream_def)

section \<open>The invariant\<close>

definition conns_live :: "statsRegistry \<Rightarrow> connection list \<Rightarrow> bool" where
  "conns_live r cs \<longleftrightarrow> conns.counted r (map (the \<circ> cn_conn) cs) \<and>
     (\<forall>c \<in> set cs. cn_conn c \<noteq> None \<and> conn_key r (the (cn_conn c)) = device_of (cn_id c) (cn_remote c))"

definition users_live :: "statsRegistry \<Rightarrow> connection list \<Rightarrow> bool" where
  "users_live r cs \<longleftrightarrow> users_ok r \<and>
     (\<exists>held. linked r held \<and> (\<forall>s i. (\<exists>u. held s = Some (i, u)) \<longleftrightarrow> (\<exists>c \<in> set cs. cn_sess c = s \<and> cn_id c = i)))"

definition streams_live :: "statsRegistry \<Rightarrow> nat list \<Rightarrow> bool" where
  "streams_live r ss \<longleftrightarrow> rg_streams r = ss \<and> (\<forall>st \<in> set ss. st < length (rg_streamStore r)) \<and> distinct ss"

definition devs_live :: "u64 \<Rightarrow> u64 \<Rightarrow> limiterRegistry \<Rightarrow> connection list \<Rightarrow> bool" where
  "devs_live up down l cs \<longleftrightarrow> buckets.counted up down l (map (the \<circ> cn_dev) cs) \<and>
     (\<forall>c \<in> set cs. cn_dev c \<noteq> None \<and> lim_key l (the (cn_dev c)) = device_of (cn_id c) (cn_remote c))"

lemma counted_cong:
  assumes "rg_devices r' = rg_devices r" "length (rg_connStore r') = length (rg_connStore r)" "conn_key r' = conn_key r" "conn_refs r' = conn_refs r"
  shows "conns_live r' cs = conns_live r cs"
  using assms by (simp add: conns_live_def conns.counted_def conns_ok_def)

lemma conns_live_cong:
  assumes "rg_devices r' = rg_devices r" "rg_connStore r' = rg_connStore r"
  shows "conns_live r' cs = conns_live r cs"
  using assms by (intro counted_cong) (simp_all add: conn_key_def conn_refs_def fun_eq_iff)

lemma users_live_cong:
  assumes "rg_users r' = rg_users r" "rg_userStore r' = rg_userStore r"
  shows "users_live r' cs = users_live r cs"
  using assms by (simp add: users_live_def users_ok_def linked_def)

lemma streams_live_cong:
  assumes "rg_streams r' = rg_streams r" "length (rg_streamStore r') = length (rg_streamStore r)"
  shows "streams_live r' ss = streams_live r ss"
  using assms by (simp add: streams_live_def)

section \<open>The invariant is kept\<close>

lemma conns_live_acquire:
  assumes "conns_live r cs" "AcquireConn rnd i h r = Some (r', p)" "cn_id c = i" "cn_remote c = h" "cn_conn c = Some p"
  shows "conns_live r' (c # cs)"
proof -
  have k: "conns.counted r (map (the \<circ> cn_conn) cs)" using assms(1) by (simp add: conns_live_def)
  show ?thesis
    using assms conns.counted_acquire [OF k assms(2)] conns.acquired_key [OF k assms(2)] by (simp add: conns_live_def)
qed

lemma without_nth: "x \<in> set (take n xs @ drop (Suc n) xs) \<Longrightarrow> x \<in> set xs"
  by (auto dest: in_set_takeD in_set_dropD)

lemma distinct_without: "distinct xs \<Longrightarrow> distinct (take n xs @ drop (Suc n) xs)"
  by (simp add: set_take_disj_set_drop_if_distinct)

lemma conns_live_release:
  assumes "conns_live r cs" "n < length cs"
  shows "conns_live (ReleaseConn (cn_conn (cs ! n)) r) (take n cs @ drop (Suc n) cs)"
proof -
  let ?h = "map (the \<circ> cn_conn) cs"
  have k: "conns.counted r ?h" and c: "cn_conn (cs ! n) = Some (the (cn_conn (cs ! n)))" using assms by (simp_all add: conns_live_def)
  have n: "n < length ?h" "?h ! n = the (cn_conn (cs ! n))" using assms(2) by simp_all
  have "conns.counted (ReleaseConn (Some (?h ! n)) r) (take n ?h @ drop (Suc n) ?h)" by (rule conns.counted_release [OF k n(1)])
  moreover have "conn_key (ReleaseConn (Some (?h ! n)) r) = conn_key r" using conns.released_key [OF k] nth_mem [OF n(1)] by blast
  ultimately show ?thesis
    using assms(1) without_nth [of _ n cs] c n(2) unfolding conns_live_def by (metis drop_map map_append take_map)
qed

lemma devs_live_acquire:
  assumes "devs_live up down l cs" "Acquire i h l = (l', p)" "cn_id c = i" "cn_remote c = h" "cn_dev c = Some p"
  shows "devs_live up down l' (c # cs)"
proof -
  have k: "buckets.counted up down l (map (the \<circ> cn_dev) cs)" using assms(1) by (simp add: devs_live_def)
  show ?thesis
    using assms buckets.counted_acquire [OF k, of i h] buckets.acquired_key [OF k, of i h] by (simp add: devs_live_def)
qed

lemma devs_live_release:
  assumes "devs_live up down l cs" "n < length cs"
  shows "devs_live up down (Release (cn_dev (cs ! n)) l) (take n cs @ drop (Suc n) cs)"
proof -
  let ?h = "map (the \<circ> cn_dev) cs"
  have k: "buckets.counted up down l ?h" and c: "cn_dev (cs ! n) = Some (the (cn_dev (cs ! n)))" using assms by (simp_all add: devs_live_def)
  have n: "n < length ?h" "?h ! n = the (cn_dev (cs ! n))" using assms(2) by simp_all
  have "buckets.counted up down (Release (Some (?h ! n)) l) (take n ?h @ drop (Suc n) ?h)" by (rule buckets.counted_release [OF k n(1)])
  moreover have "lim_key (Release (Some (?h ! n)) l) = lim_key l" using buckets.released_key [OF k] nth_mem [OF n(1)] by blast
  ultimately show ?thesis
    using assms(1) without_nth [of _ n cs] c n(2) unfolding devs_live_def by (metis drop_map map_append take_map)
qed

lemma users_live_attach:
  assumes "users_live r cs" "cn_sess c \<notin> cn_sess ` set cs"
  shows "users_live (fst (Attach now (cn_id c) remote (cn_sess c) r)) (c # cs)"
proof -
  obtain held where ok: "users_ok r" and l: "linked r held"
    and h: "\<And>s i. (\<exists>u. held s = Some (i, u)) \<longleftrightarrow> (\<exists>c \<in> set cs. cn_sess c = s \<and> cn_id c = i)"
    using assms(1) unfolding users_live_def by blast
  obtain r' u where a: "Attach now (cn_id c) remote (cn_sess c) r = (r', u)" by fastforce
  obtain r1 where r1: "users_ok r1" "map_of (rg_users r1) (cn_id c) = Some u" "linked r1 held"
    "r' = upd_user u (\<lambda>x. x\<lparr>us_sessions := AList.update (cn_sess c) \<lparr>si_remote = remote, si_started = now\<rparr> (us_sessions x)\<rparr>) r1"
    using Attach_result [OF ok a] l by blast
  have new: "d \<in> set cs \<Longrightarrow> cn_sess d \<noteq> cn_sess c" for d using assms(2) by (metis image_eqI)
  have none: "held (cn_sess c) = None" using h [of "cn_sess c"] new by (cases "held (cn_sess c)") auto
  have "linked r' (held(cn_sess c \<mapsto> (cn_id c, u)))" unfolding r1(4) by (rule linked_attach [OF r1(1,3) none r1(2)])
  moreover have "(\<exists>q. (held(cn_sess c \<mapsto> (cn_id c, u))) s = Some (i, q)) \<longleftrightarrow> (\<exists>d \<in> set (c # cs). cn_sess d = s \<and> cn_id d = i)" for s i
    using h [of s i] new by (cases "s = cn_sess c") auto
  moreover have "users_ok r'" using r1(1,4) by simp
  ultimately show ?thesis unfolding users_live_def a fst_conv by blast
qed

lemma users_live_detach:
  assumes "users_live r cs" "n < length cs" "distinct (map cn_sess cs)"
  shows "users_live (Detach (cn_id (cs ! n)) (cn_sess (cs ! n)) r) (take n cs @ drop (Suc n) cs)"
proof -
  let ?c = "cs ! n" and ?cs = "take n cs @ drop (Suc n) cs"
  obtain held where ok: "users_ok r" and l: "linked r held"
    and h: "\<And>s i. (\<exists>u. held s = Some (i, u)) \<longleftrightarrow> (\<exists>c \<in> set cs. cn_sess c = s \<and> cn_id c = i)"
    using assms(1) unfolding users_live_def by blast
  obtain u where u: "held (cn_sess ?c) = Some (cn_id ?c, u)" using h [of "cn_sess ?c" "cn_id ?c"] assms(2) nth_mem by blast
  have eq: "cs = take n cs @ ?c # drop (Suc n) cs" by (rule id_take_nth_drop [OF assms(2)])
  have mem: "c \<in> set cs \<longleftrightarrow> c = ?c \<or> c \<in> set ?cs" for c using arg_cong [OF eq, of set] by auto
  have "cn_sess ?c \<notin> cn_sess ` set ?cs" using assms(3) by (subst (asm) eq) auto
  then have d: "c \<in> set ?cs \<Longrightarrow> cn_sess c \<noteq> cn_sess ?c" for c by (metis image_eqI)
  have "(\<exists>q. (held(cn_sess ?c := None)) s = Some (i, q)) \<longleftrightarrow> (\<exists>c \<in> set ?cs. cn_sess c = s \<and> cn_id c = i)" for s i
  proof (cases "s = cn_sess ?c")
    case True
    then show ?thesis using d by auto
  next
    case False
    then show ?thesis using h [of s i] mem by auto
  qed
  moreover have "users_ok (Detach (cn_id ?c) (cn_sess ?c) r)" using ok by (simp add: Detach_def split: option.split)
  ultimately show ?thesis using linked_detach [OF ok l u] unfolding users_live_def by blast
qed

lemma users_live_clear:
  assumes "users_live r cs"
  shows "users_live (fst (Clear r)) cs"
proof -
  obtain held where ok: "users_ok r" and l: "linked r held"
    and h: "\<And>s i. (\<exists>u. held s = Some (i, u)) \<longleftrightarrow> (\<exists>c \<in> set cs. cn_sess c = s \<and> cn_id c = i)"
    using assms unfolding users_live_def by blast
  obtain r' out where c: "Clear r = (r', out)" by fastforce
  have "users_ok r'" "linked r' held" using accounted_clear [OF ok l c] by simp_all
  then show ?thesis using h unfolding users_live_def c fst_conv by blast
qed

lemma users_live_tx:
  assumes "users_live r cs" "map_of (rg_users r) i = Some u"
  shows "users_live (UserStat_AddTx u n r) cs"
proof -
  obtain held where ok: "users_ok r" and l: "linked r held"
    and h: "\<And>s i. (\<exists>u. held s = Some (i, u)) \<longleftrightarrow> (\<exists>c \<in> set cs. cn_sess c = s \<and> cn_id c = i)"
    using assms(1) unfolding users_live_def by blast
  have "u < length (rg_userStore r)" using users_okD(2,3) [OF ok] assms(2) by blast
  then have "linked (UserStat_AddTx u n r) held" unfolding UserStat_AddTx_def by (intro linked_upd_same [OF l]) simp_all
  moreover have "users_ok (UserStat_AddTx u n r)" using ok by (simp add: UserStat_AddTx_def)
  ultimately show ?thesis using h unfolding users_live_def by blast
qed

definition stats_live :: "statsRegistry \<Rightarrow> connection list \<Rightarrow> nat list \<Rightarrow> bool" where
  "stats_live r cs ss \<longleftrightarrow> conns_live r cs \<and> users_live r cs \<and> streams_live r ss"

definition server_ok :: "u64 \<Rightarrow> u64 \<Rightarrow> server \<times> connection list \<times> nat list \<Rightarrow> bool" where
  "server_ok up down x \<longleftrightarrow>
     (case x of (s, cs, ss) \<Rightarrow> distinct (map cn_sess cs) \<and>
        (\<forall>r. sv_stats s = Some r \<longrightarrow> stats_live r cs ss) \<and> (\<forall>l. sv_limits s = Some l \<longrightarrow> devs_live up down l cs))"

lemma stats_live_open:
  assumes "stats_live r cs ss" "AcquireConn rnd (cn_id c) (cn_remote c) r = Some (r', p)" "cn_conn c = Some p" "cn_sess c \<notin> cn_sess ` set cs"
  shows "stats_live (fst (Attach now (cn_id c) (cn_remote c) (cn_sess c) r')) (c # cs) ss"
proof -
  note f = AcquireConn_frame [OF assms(2)]
  have 1: "conns_live r' (c # cs)" using conns_live_acquire [OF _ assms(2) refl refl assms(3)] assms(1) by (simp add: stats_live_def)
  have 2: "users_live r' cs" using users_live_cong [OF f(1,2)] assms(1) by (simp add: stats_live_def)
  have 3: "streams_live r' ss" using f(3,4) assms(1) by (simp add: stats_live_def streams_live_def)
  show ?thesis
    using conns_live_cong [OF Attach_frame(1,2)] 1 users_live_attach [OF 2 assms(4)] streams_live_cong [OF Attach_frame(3)] 3
    by (simp add: stats_live_def)
qed

lemma stats_live_close:
  assumes "stats_live r cs ss" "n < length cs" "distinct (map cn_sess cs)"
  shows "stats_live (ReleaseConn (cn_conn (cs ! n)) (Detach (cn_id (cs ! n)) (cn_sess (cs ! n)) r)) (take n cs @ drop (Suc n) cs) ss"
proof -
  let ?r = "Detach (cn_id (cs ! n)) (cn_sess (cs ! n)) r"
  have 1: "conns_live ?r cs" using conns_live_cong [OF Detach_frame(1,2)] assms(1) by (simp add: stats_live_def)
  have 2: "users_live ?r (take n cs @ drop (Suc n) cs)" using users_live_detach [OF _ assms(2,3)] assms(1) by (simp add: stats_live_def)
  have 3: "streams_live ?r ss" using assms(1) by (simp add: stats_live_def streams_live_def)
  show ?thesis
    using conns_live_release [OF 1 assms(2)] users_live_cong [OF ReleaseConn_frame(1,2)] 2 3
    by (simp add: stats_live_def streams_live_def)
qed

lemma nth_update_field: "(\<And>y. f (g y) = f y) \<Longrightarrow> f (xs[p := g (xs ! p)] ! q) = f (xs ! q)"
  by (cases "p < length xs"; cases "p = q") (simp_all add: not_less list_update_beyond)

lemma NextStreamID_keys:
  assumes "NextStreamID p r = (r', n)"
  shows "conns_live r' cs = conns_live r cs" "users_live r' cs = users_live r cs" "rg_streams r' = rg_streams r"
    "rg_streamStore r' = rg_streamStore r" "map sc_id (rg_connStore r') = map sc_id (rg_connStore r)"
proof -
  have r': "r' = r\<lparr>rg_connStore := (rg_connStore r)[p := (rg_connStore r ! p)\<lparr>sc_streamSeq := sc_streamSeq (rg_connStore r ! p) + 1\<rparr>]\<rparr>"
    using assms by (auto simp: NextStreamID_def Let_def)
  show "conns_live r' cs = conns_live r cs"
    by (intro counted_cong) (simp_all add: r' conn_key_def conn_refs_def fun_eq_iff nth_update_field [of sc_key] nth_update_field [of sc_refs])
  show "users_live r' cs = users_live r cs" by (intro users_live_cong) (simp_all add: r')
  show "map sc_id (rg_connStore r') = map sc_id (rg_connStore r)"
    by (intro nth_equalityI) (simp_all add: r' nth_update_field [of sc_id])
qed (use assms in \<open>auto simp: NextStreamID_def Let_def\<close>)

lemma stats_live_stream:
  assumes "stats_live r cs ss" "NextStreamID p r = (r1, n)" "TraceStream now i q n r1 = (r2, st)"
  shows "stats_live (StreamStats_SetReqAddr st a r2) cs (ss @ [st])"
proof -
  note k = NextStreamID_keys [OF assms(2)]
  have f: "rg_devices r2 = rg_devices r1" "rg_connStore r2 = rg_connStore r1" "rg_users r2 = rg_users r1" "rg_userStore r2 = rg_userStore r1"
    "rg_streams r2 = rg_streams r1 @ [st]" "length (rg_streamStore r2) = Suc (length (rg_streamStore r1))" "st = length (rg_streamStore r1)"
    using assms(3) by (auto simp: TraceStream_def Let_def)
  have "conns_live r2 cs" "users_live r2 cs"
    using conns_live_cong [OF f(1,2)] users_live_cong [OF f(3,4)] k(1,2) assms(1) by (simp_all add: stats_live_def)
  moreover have "streams_live r2 (ss @ [st])"
    using assms(1) k(3,4) f(5,6,7) by (auto simp: stats_live_def streams_live_def)
  moreover have "conns_live (StreamStats_SetReqAddr st a r2) cs = conns_live r2 cs" "users_live (StreamStats_SetReqAddr st a r2) cs = users_live r2 cs"
    unfolding StreamStats_SetReqAddr_def by (intro conns_live_cong users_live_cong; simp)+
  ultimately show ?thesis by (simp add: stats_live_def streams_live_def StreamStats_SetReqAddr_def)
qed

lemma stats_live_stream_end:
  assumes "stats_live r cs ss"
  shows "stats_live (UntraceStream (Some st) r) cs (removeAll st ss)"
proof -
  let ?r = "UntraceStream (Some st) r"
  have "conns_live ?r cs = conns_live r cs" "users_live ?r cs = users_live r cs"
    by (intro conns_live_cong users_live_cong; simp add: UntraceStream_def StreamStats_SetState_def)+
  moreover have "streams_live ?r (removeAll st ss)"
    using assms by (auto simp: stats_live_def streams_live_def UntraceStream_def StreamStats_SetState_def distinct_removeAll)
  ultimately show ?thesis using assms by (simp add: stats_live_def)
qed

lemma open_connection_fields:
  assumes "open_connection rnd now i remote sess s = Some (s', c)"
  shows "cn_id c = i" "cn_remote c = remote" "cn_sess c = sess"
    and "sv_stats s' = Some r' \<Longrightarrow> \<exists>r r1 p. sv_stats s = Some r \<and> AcquireConn rnd i remote r = Some (r1, p) \<and> cn_conn c = Some p \<and>
      r' = fst (Attach now i remote sess r1)"
    and "sv_limits s' = Some l' \<Longrightarrow> \<exists>l d. sv_limits s = Some l \<and> Acquire i remote l = (l', d) \<and> cn_dev c = Some d"
  using assms by (auto simp: open_connection_def attach_session_def Let_def split: option.splits prod.splits)

lemma server_ok_step:
  assumes "server_step rnd magic legacy sg x y" "server_ok up down x"
  shows "server_ok up down y"
  using assms
proof (induction rule: server_step.induct)
  case (connect sess cs now i remote s s' c ss)
  note f = open_connection_fields [OF connect(2)]
  have d: "cn_sess c \<notin> cn_sess ` set cs" "distinct (map cn_sess (c # cs))" using connect(1,3) f(3) by (simp_all add: server_ok_def)
  have "stats_live r' (c # cs) ss" if S: "sv_stats s' = Some r'" for r'
  proof -
    obtain r r1 p where r: "sv_stats s = Some r" "AcquireConn rnd i remote r = Some (r1, p)" "cn_conn c = Some p" "r' = fst (Attach now i remote sess r1)"
      using f(4) [OF S] by blast
    have "stats_live r cs ss" using connect(3) r(1) by (simp add: server_ok_def)
    from stats_live_open [OF this _ r(3) d(1)] r(2,4) f(1-3) show ?thesis by simp
  qed
  moreover have "devs_live up down l' (c # cs)" if S: "sv_limits s' = Some l'" for l'
  proof -
    obtain l p where l: "sv_limits s = Some l" "Acquire i remote l = (l', p)" "cn_dev c = Some p" using f(5) [OF S] by blast
    then show ?thesis using devs_live_acquire [OF _ l(2) f(1,2) l(3)] connect(3) by (simp add: server_ok_def)
  qed
  ultimately show ?case using d(2) by (simp only: server_ok_def prod.case) blast
next
  case (disconnect n cs s ss)
  have d: "distinct (map cn_sess cs)" using disconnect(2) by (simp add: server_ok_def)
  have "distinct (map cn_sess (take n cs @ drop (Suc n) cs))" using distinct_without [OF d, of n] by (simp add: take_map drop_map)
  then show ?case
    using disconnect stats_live_close [OF _ disconnect(1) d] devs_live_release [OF _ disconnect(1)]
    by (auto simp: server_ok_def close_connection_def)
next
  case (stream c cs now addr s s' st ss)
  obtain destination r r1 n r2 where r: "sv_stats s = Some r" "NextStreamID (the (cn_conn c)) r = (r1, n)"
      "TraceStream now (cn_id c) (sc_id (rg_connStore r1 ! the (cn_conn c))) n r1 = (r2, st)"
      "s' = s\<lparr>sv_stats := Some (StreamStats_SetReqAddr st (sg_String sg destination) r2)\<rparr>"
    using stream(2) by (auto simp: begin_stream_def Let_def split: if_splits option.splits prod.splits)
  then show ?case using stream(3) stats_live_stream [OF _ r(2,3)] by (simp add: server_ok_def)
next
  case (unrecorded c cs now addr s s' ss)
  then have "s' = s" by (auto simp: begin_stream_def Let_def split: if_splits option.splits prod.splits)
  then show ?case using unrecorded by simp
next
  case (stream_end st ss s cs)
  then show ?case using stats_live_stream_end by (auto simp: server_ok_def end_stream_def)
next
  case (clear s r cs ss)
  have "stats_live r cs ss" using clear by (simp add: server_ok_def)
  then have "stats_live (fst (Clear r)) cs ss"
    using conns_live_cong [OF Clear_frame(1,2)] users_live_clear by (simp add: stats_live_def streams_live_def)
  then show ?case using clear by (simp add: server_ok_def)
next
  case (traffic s r c u cs ss n)
  have "stats_live r cs ss" using traffic by (simp add: server_ok_def)
  moreover have "conns_live (UserStat_AddTx u n r) cs = conns_live r cs" by (intro conns_live_cong) (simp_all add: UserStat_AddTx_def)
  ultimately have "stats_live (UserStat_AddTx u n r) cs ss"
    using users_live_tx [OF _ traffic(2)] by (simp add: stats_live_def streams_live_def UserStat_AddTx_def)
  then show ?case using traffic by (simp add: server_ok_def)
qed

section \<open>Claims\<close>

lemma server_ok_run:
  assumes "(server_step rnd magic legacy sg)\<^sup>*\<^sup>* (NewMyServer cfg up down, [], []) x"
  shows "server_ok (up div 8) (down div 8) x"
  using assms
proof (induction rule: rtranclp_induct)
  case base
  have "users_live NewStatsRegistry []" unfolding users_live_def
    by (intro conjI exI [of _ Map.empty]) (simp_all add: users_ok_def linked_def NewStatsRegistry_def)
  then have "stats_live NewStatsRegistry [] []"
    using new_registry_conns by (simp add: stats_live_def conns_live_def streams_live_def) (simp add: NewStatsRegistry_def)
  moreover have "devs_live (up div 8) (down div 8) l []" if "NewRegistry up down = Some l" for l
    using new_registry_counted [OF that] by (simp add: devs_live_def)
  ultimately show ?case by (auto simp: server_ok_def NewMyServer_def split: if_splits)
next
  case (step y z)
  then show ?case using server_ok_step by blast
qed

lemma users_live_Kick:
  assumes "users_live r cs"
  shows "set (Kick ids r) = cn_sess ` {c \<in> set cs. cn_id c \<in> set ids}"
proof -
  obtain held where "users_ok r" "linked r held"
    and h: "\<And>s i. (\<exists>u. held s = Some (i, u)) \<longleftrightarrow> (\<exists>c \<in> set cs. cn_sess c = s \<and> cn_id c = i)"
    using assms unfolding users_live_def by blast
  from Kick_linked [OF this(1,2)] show ?thesis using h by auto
qed

lemma open_connection_returns:
  assumes "fair rnd" "\<And>r. sv_stats s = Some r \<Longrightarrow> length (rg_devices r) < 2 ^ 32"
  shows "\<exists>s' c. open_connection rnd now i remote sess s = Some (s', c)"
proof (cases "sv_stats s")
  case None
  then show ?thesis by (simp add: open_connection_def case_prod_beta Let_def)
next
  case (Some r)
  obtain r' p where "AcquireConn rnd i remote r = Some (r', p)" using AcquireConn_returns [OF assms(1)] assms(2) [OF Some] by blast
  then show ?thesis using Some by (simp add: open_connection_def case_prod_beta Let_def)
qed

lemma conns_live_length:
  assumes "conns_live r cs"
  shows "length (rg_devices r) \<le> length cs"
proof -
  let ?h = "map (the \<circ> cn_conn) cs"
  have k: "conns.counted r ?h" using assms by (simp add: conns_live_def)
  have "length (rg_devices r) = card (dom (map_of (rg_devices r)))"
    using k by (simp add: conns.counted_def dom_map_of_conv_image_fst distinct_card flip: set_map)
  also have "\<dots> \<le> card (set ?h)" unfolding conns.in_use [OF k] by (intro card_image_le) simp
  also have "\<dots> \<le> length cs" by (metis card_length length_map)
  finally show ?thesis .
qed

definition stats_config :: Config where
  "stats_config = Default\<lparr>cf_TrafficStats := \<lparr>ts_Listen = '':9999'', ts_Secret = ''s3cret''\<rparr>\<rparr>"

text \<open>An admitted connection is taken up. Whatever has happened before, as long as fewer than \<open>2 ^ 32\<close>
  connections are open and the random source keeps producing every value: taking up one more ends,
  drawing its identifier included, and the server then has it.\<close>

theorem connection_taken_up:
  assumes "(server_step rnd magic legacy sg)\<^sup>*\<^sup>* (NewMyServer cfg up down, [], []) (s, cs, ss)"
    and "fair rnd" and "length cs < 2 ^ 32" and "sess \<notin> cn_sess ` set cs"
  shows "\<exists>s' c. open_connection rnd now i remote sess s = Some (s', c) \<and> cn_id c = i \<and> cn_remote c = remote \<and>
    (server_step rnd magic legacy sg)\<^sup>*\<^sup>* (NewMyServer cfg up down, [], []) (s', c # cs, ss)"
proof -
  have "length (rg_devices r) < 2 ^ 32" if "sv_stats s = Some r" for r
    using server_ok_run [OF assms(1)] that conns_live_length [of r cs] assms(3) by (simp add: server_ok_def stats_live_def)
  then obtain s' c where o: "open_connection rnd now i remote sess s = Some (s', c)"
    using open_connection_returns [OF assms(2)] by blast
  then show ?thesis
    using rtranclp.rtrancl_into_rtrancl [OF assms(1) server_step.connect [OF assms(4) o]] open_connection_fields(1,2) [OF o] by blast
qed

theorem connection_taken_up_witness:
  "\<exists>s c. open_connection word_of_nat 0 ''alice'' ''10.0.0.1:1000'' 7 (NewMyServer stats_config 80000000 0) = Some (s, c) \<and> cn_id c = ''alice'' \<and>
     (server_step word_of_nat ''m'' ''l'' (pe_sing demo_env))\<^sup>*\<^sup>* (NewMyServer stats_config 80000000 0, [], []) (s, [c], [])"
  using connection_taken_up [OF rtranclp.rtrancl_refl fair_counting, where sess = 7] by fastforce

text \<open>C6. The registries know exactly what is alive. However connections and streams come and go, counters are cleared and
  traffic is reported: the devices the statistics and the limiter keep are exactly those of the open
  connections, so nothing of a closed connection stays; kicking a list of users reaches exactly
  their open connections; and the recorded streams are exactly those whose handler is running.\<close>

theorem server_knows_the_living:
  assumes "(server_step rnd magic legacy sg)\<^sup>*\<^sup>* (NewMyServer cfg up down, [], []) (s, cs, ss)"
  shows "(\<forall>r. sv_stats s = Some r \<longrightarrow>
      dom (map_of (rg_devices r)) = (\<lambda>c. device_of (cn_id c) (cn_remote c)) ` set cs \<and>
      (\<forall>ids. set (Kick ids r) = cn_sess ` {c \<in> set cs. cn_id c \<in> set ids}) \<and> rg_streams r = ss) \<and>
    (\<forall>l. sv_limits s = Some l \<longrightarrow> dom (map_of (lr_devices l)) = (\<lambda>c. device_of (cn_id c) (cn_remote c)) ` set cs)"
proof -
  have ok: "\<forall>r. sv_stats s = Some r \<longrightarrow> stats_live r cs ss" "\<forall>l. sv_limits s = Some l \<longrightarrow> devs_live (up div 8) (down div 8) l cs"
    using server_ok_run [OF assms] by (simp_all add: server_ok_def)
  have "dom (map_of (rg_devices r)) = (\<lambda>c. device_of (cn_id c) (cn_remote c)) ` set cs" if "conns_live r cs" for r
    using conns.in_use [of r "map (the \<circ> cn_conn) cs"] that by (auto simp: conns_live_def image_def)
  moreover have "dom (map_of (lr_devices l)) = (\<lambda>c. device_of (cn_id c) (cn_remote c)) ` set cs" if "devs_live (up div 8) (down div 8) l cs" for l
    using buckets.in_use [of "up div 8" "down div 8" l "map (the \<circ> cn_dev) cs"] that by (auto simp: devs_live_def image_def)
  ultimately show ?thesis using ok users_live_Kick by (simp add: stats_live_def streams_live_def)
qed

theorem server_knows_the_living_witness:
  "\<exists>s c r. (server_step word_of_nat ''m'' ''l'' (pe_sing demo_env))\<^sup>*\<^sup>* (NewMyServer stats_config 80000000 0, [], []) (s, [c], []) \<and> sv_stats s = Some r \<and>
     dom (map_of (rg_devices r)) = {device_of ''alice'' ''10.0.0.1:1000''} \<and> set (Kick [''alice''] r) = {7}"
proof -
  let ?s0 = "NewMyServer stats_config 80000000 0"
  have "length (rg_devices r) < 2 ^ 32" if "sv_stats ?s0 = Some r" for r
    using that by (auto simp: NewMyServer_def NewStatsRegistry_def split: if_splits)
  then obtain s c where o: "open_connection word_of_nat 0 ''alice'' ''10.0.0.1:1000'' 7 ?s0 = Some (s, c)"
    using open_connection_returns [OF fair_counting] by blast
  note f = open_connection_fields [OF o]
  have "sv_stats ?s0 = Some NewStatsRegistry" by (simp add: NewMyServer_def stats_config_def StatsEnabled_def)
  then obtain r where r: "sv_stats s = Some r" using o by (auto simp: open_connection_def attach_session_def Let_def split: option.splits prod.splits)
  have run: "(server_step word_of_nat ''m'' ''l'' (pe_sing demo_env))\<^sup>*\<^sup>* (?s0, [], []) (s, [c], [])"
    by (rule r_into_rtranclp, rule server_step.connect [OF _ o]) simp
  from server_knows_the_living [OF run] run r f(1-3) show ?thesis
    by (intro exI [of _ s] exI [of _ c] exI [of _ r]) auto
qed

end
