(* ===== verification/Certificates.thy ===== *)
theory Certificates
  imports Prelude
begin

text \<open>
  The certificate files of the server (\<^verbatim>\<open>util/tls_cert.go\<close>): loading them at the start, looking for changes at
  most once per interval, and serving the last good certificate when a reload fails.

  What the files are like is an argument of each call, with modification times and contents apart: the files
  may change between the two. Parsing a pair is a parameter. Whether a handshake wins the compare-and-swap
  of \<^verbatim>\<open>dueForCheck\<close> against concurrent handshakes is an argument too.
\<close>

section \<open>Operations\<close>

datatype cert_error = StatCert string | StatKey string | ReadCert string | ReadKey string | ParsePair

record cert_files =
  cf_stat :: "string \<Rightarrow> int option"
  cf_read :: "string \<Rightarrow> bytes option"

record 'cert FileCertificateLoader =
  fl_certPath :: string
  fl_keyPath :: string
  fl_cert :: "'cert option"
  fl_modTime :: int
  fl_lastLoggedErr :: "cert_error option"
  fl_lastLoggedAt :: int
  fl_checkInterval :: int
  fl_lastCheck :: int

definition certCheckInterval :: int where
  "certCheckInterval = 1000000000"

definition certKeyModTime :: "cert_files \<Rightarrow> string \<Rightarrow> string \<Rightarrow> cert_error + int" where
  "certKeyModTime fs certPath keyPath =
     (case cf_stat fs certPath of
        None \<Rightarrow> Inl (StatCert certPath)
      | Some certTime \<Rightarrow>
          (case cf_stat fs keyPath of
             None \<Rightarrow> Inl (StatKey keyPath)
           | Some keyTime \<Rightarrow> Inr (if keyTime > certTime then keyTime else certTime)))"

definition reload ::
  "(bytes \<Rightarrow> bytes \<Rightarrow> 'cert option) \<Rightarrow> cert_files \<Rightarrow> 'cert FileCertificateLoader \<Rightarrow> 'cert FileCertificateLoader \<times> cert_error option" where
  "reload X509KeyPair fs l =
     (case certKeyModTime fs (fl_certPath l) (fl_keyPath l) of
        Inl err \<Rightarrow> (l, Some err)
      | Inr modTime \<Rightarrow>
          (case cf_read fs (fl_certPath l) of
             None \<Rightarrow> (l, Some (ReadCert (fl_certPath l)))
           | Some certPEM \<Rightarrow>
               (case cf_read fs (fl_keyPath l) of
                  None \<Rightarrow> (l, Some (ReadKey (fl_keyPath l)))
                | Some keyPEM \<Rightarrow>
                    (case X509KeyPair certPEM keyPEM of
                       None \<Rightarrow> (l, Some ParsePair)
                     | Some keyPair \<Rightarrow> (l\<lparr>fl_cert := Some keyPair, fl_modTime := modTime\<rparr>, None)))))"

definition reloadIfChanged ::
  "(bytes \<Rightarrow> bytes \<Rightarrow> 'cert option) \<Rightarrow> cert_files \<Rightarrow> cert_files \<Rightarrow> 'cert FileCertificateLoader \<Rightarrow> 'cert FileCertificateLoader \<times> cert_error option" where
  "reloadIfChanged X509KeyPair fs fs' l =
     (case certKeyModTime fs (fl_certPath l) (fl_keyPath l) of
        Inl err \<Rightarrow> (l, Some err)
      | Inr modTime \<Rightarrow> if \<not> modTime > fl_modTime l then (l, None) else reload X509KeyPair fs' l)"

definition dueForCheck :: "int \<Rightarrow> bool \<Rightarrow> 'cert FileCertificateLoader \<Rightarrow> 'cert FileCertificateLoader \<times> bool" where
  "dueForCheck now wins l =
     (if now - fl_lastCheck l < fl_checkInterval l then (l, False)
      else if wins then (l\<lparr>fl_lastCheck := now\<rparr>, True) else (l, False))"

text \<open>The second component is whether a warning is logged.\<close>

definition logReloadError :: "int \<Rightarrow> cert_error \<Rightarrow> 'cert FileCertificateLoader \<Rightarrow> 'cert FileCertificateLoader \<times> bool" where
  "logReloadError now err l =
     (if Some err = fl_lastLoggedErr l \<and> now - fl_lastLoggedAt l < 1000000000 then (l, False)
      else (l\<lparr>fl_lastLoggedErr := Some err, fl_lastLoggedAt := now\<rparr>, True))"

definition GetCertificate ::
  "(bytes \<Rightarrow> bytes \<Rightarrow> 'cert option) \<Rightarrow> cert_files \<Rightarrow> cert_files \<Rightarrow> int \<Rightarrow> bool \<Rightarrow> 'cert FileCertificateLoader \<Rightarrow>
   'cert FileCertificateLoader \<times> (cert_error + 'cert option)" where
  "GetCertificate X509KeyPair fs fs' now wins l =
     (let (l1, due) = dueForCheck now wins l;
          (l2, reloadErr) = (if due then reloadIfChanged X509KeyPair fs fs' l1 else (l1, None))
      in case reloadErr of
           None \<Rightarrow> (l2, Inr (fl_cert l2))
         | Some err \<Rightarrow> if fl_cert l2 = None then (l2, Inl err) else (fst (logReloadError now err l2), Inr (fl_cert l2)))"

definition NewFileCertificateLoader ::
  "(bytes \<Rightarrow> bytes \<Rightarrow> 'cert option) \<Rightarrow> cert_files \<Rightarrow> string \<Rightarrow> string \<Rightarrow> cert_error + 'cert FileCertificateLoader" where
  "NewFileCertificateLoader X509KeyPair fs certPath keyPath =
     (case reload X509KeyPair fs
         \<lparr>fl_certPath = certPath, fl_keyPath = keyPath, fl_cert = None, fl_modTime = 0, fl_lastLoggedErr = None, fl_lastLoggedAt = 0,
          fl_checkInterval = certCheckInterval, fl_lastCheck = 0\<rparr> of
        (l, Some err) \<Rightarrow> Inl err
      | (l, None) \<Rightarrow> Inr l)"

section \<open>Handshakes over time\<close>

inductive cert_run ::
  "(bytes \<Rightarrow> bytes \<Rightarrow> 'cert option) \<Rightarrow> string \<Rightarrow> string \<Rightarrow> 'cert FileCertificateLoader \<Rightarrow> bool" for X509KeyPair certPath keyPath where
  start: "NewFileCertificateLoader X509KeyPair fs certPath keyPath = Inr l \<Longrightarrow> cert_run X509KeyPair certPath keyPath l"
| shake: "cert_run X509KeyPair certPath keyPath l \<Longrightarrow> GetCertificate X509KeyPair fs fs' now wins l = (l', res) \<Longrightarrow>
    cert_run X509KeyPair certPath keyPath l'"

text \<open>What a successful reload takes.\<close>

definition loads :: "(bytes \<Rightarrow> bytes \<Rightarrow> 'cert option) \<Rightarrow> cert_files \<Rightarrow> string \<Rightarrow> string \<Rightarrow> 'cert option" where
  "loads X509KeyPair fs certPath keyPath =
     (case (certKeyModTime fs certPath keyPath, cf_read fs certPath, cf_read fs keyPath) of
        (Inr _, Some c, Some k) \<Rightarrow> X509KeyPair c k | _ \<Rightarrow> None)"

lemma reload_loads:
  assumes "reload X509KeyPair fs l = (l', err)"
  shows "fl_certPath l' = fl_certPath l \<and> fl_keyPath l' = fl_keyPath l \<and> fl_checkInterval l' = fl_checkInterval l \<and>
    fl_lastCheck l' = fl_lastCheck l \<and> (err = None \<longleftrightarrow> loads X509KeyPair fs (fl_certPath l) (fl_keyPath l) \<noteq> None) \<and>
    fl_cert l' = (case loads X509KeyPair fs (fl_certPath l) (fl_keyPath l) of None \<Rightarrow> fl_cert l | Some c \<Rightarrow> Some c)"
  using assms by (auto simp: reload_def loads_def split: sum.splits option.splits)

definition cert_ok :: "string \<Rightarrow> string \<Rightarrow> 'cert FileCertificateLoader \<Rightarrow> bool" where
  "cert_ok certPath keyPath l \<longleftrightarrow> fl_certPath l = certPath \<and> fl_keyPath l = keyPath \<and> fl_cert l \<noteq> None \<and> fl_checkInterval l = certCheckInterval"

lemma logReloadError_fields [simp]:
  "fl_certPath (fst (logReloadError now e l)) = fl_certPath l" "fl_keyPath (fst (logReloadError now e l)) = fl_keyPath l"
  "fl_cert (fst (logReloadError now e l)) = fl_cert l" "fl_checkInterval (fst (logReloadError now e l)) = fl_checkInterval l"
  by (simp_all add: logReloadError_def)

lemma GetCertificate_ok:
  assumes ok: "cert_ok certPath keyPath l" and g: "GetCertificate X509KeyPair fs fs' now wins l = (l', res)"
  shows "cert_ok certPath keyPath l' \<and>
    res = Inr (if now - fl_lastCheck l \<ge> certCheckInterval \<and> wins \<and> (\<exists>t > fl_modTime l. certKeyModTime fs certPath keyPath = Inr t) \<and>
                  loads X509KeyPair fs' certPath keyPath \<noteq> None
               then loads X509KeyPair fs' certPath keyPath else fl_cert l)"
proof (cases "now - fl_lastCheck l \<ge> certCheckInterval \<and> wins \<and> (\<exists>t > fl_modTime l. certKeyModTime fs certPath keyPath = Inr t)")
  case False
  then show ?thesis using ok g
    by (auto simp: cert_ok_def GetCertificate_def dueForCheck_def reloadIfChanged_def Let_def split: sum.splits if_splits)
next
  case True
  then obtain t where t: "t > fl_modTime l" "certKeyModTime fs certPath keyPath = Inr t" by blast
  let ?l = "l\<lparr>fl_lastCheck := now\<rparr>"
  obtain l2 err where r: "reload X509KeyPair fs' ?l = (l2, err)" by fastforce
  have k: "cert_ok certPath keyPath l2" "err = None \<longleftrightarrow> loads X509KeyPair fs' certPath keyPath \<noteq> None"
      "fl_cert l2 = (case loads X509KeyPair fs' certPath keyPath of None \<Rightarrow> fl_cert l | Some c \<Rightarrow> Some c)"
    using reload_loads [OF r] ok by (auto simp: cert_ok_def split: option.splits)
  have "GetCertificate X509KeyPair fs fs' now wins l = (case err of None \<Rightarrow> (l2, Inr (fl_cert l2))
      | Some e \<Rightarrow> if fl_cert l2 = None then (l2, Inl e) else (fst (logReloadError now e l2), Inr (fl_cert l2)))"
    using True t ok r by (simp add: GetCertificate_def dueForCheck_def reloadIfChanged_def cert_ok_def)
  then show ?thesis using g k True by (cases err) (auto simp: cert_ok_def split: option.splits)
qed

lemma cert_run_ok: "cert_run X509KeyPair certPath keyPath l \<Longrightarrow> cert_ok certPath keyPath l"
proof (induction rule: cert_run.induct)
  case (start fs l)
  then show ?case
    by (auto simp: NewFileCertificateLoader_def cert_ok_def reload_def split: sum.splits option.splits prod.splits)
next
  case (shake l fs fs' now wins l' res)
  then show ?case using GetCertificate_ok by blast
qed

text \<open>C20. A handshake always gets a good certificate. After a successful start no handshake fails over the files,
  whatever happens to them: a handshake that is the first of its interval, finds the files newer
  and can load them serves the new pair, and every other one serves the pair that was served before.\<close>

theorem certificate_always_served:
  assumes "cert_run X509KeyPair certPath keyPath l" and "GetCertificate X509KeyPair fs fs' now wins l = (l', res)"
  shows "\<exists>c. fl_cert l = Some c \<and>
    res = Inr (if now - fl_lastCheck l \<ge> 1000000000 \<and> wins \<and> (\<exists>t > fl_modTime l. certKeyModTime fs certPath keyPath = Inr t) \<and>
                  loads X509KeyPair fs' certPath keyPath \<noteq> None
               then loads X509KeyPair fs' certPath keyPath else Some c) \<and> fl_cert l' = (case res of Inr x \<Rightarrow> x | Inl e \<Rightarrow> None)"
proof -
  note ok = cert_run_ok [OF assms(1)]
  have "fl_cert l' = (case res of Inr x \<Rightarrow> x | Inl e \<Rightarrow> None)"
    using assms(2) GetCertificate_ok [OF ok assms(2)] by (auto simp: GetCertificate_def Let_def split: prod.splits option.splits if_splits)
  then show ?thesis using GetCertificate_ok [OF ok assms(2)] ok by (auto simp: cert_ok_def certCheckInterval_def)
qed
definition demo_pair :: "bytes \<Rightarrow> bytes \<Rightarrow> bytes option" where
  "demo_pair c k = (if c = k then Some c else None)"

definition good_files :: cert_files where
  "good_files = \<lparr>cf_stat = (\<lambda>_. Some 5), cf_read = (\<lambda>_. Some [1])\<rparr>"

definition broken_files :: cert_files where
  "broken_files = \<lparr>cf_stat = (\<lambda>_. Some 9), cf_read = (\<lambda>f. if f = ''c'' then Some [2] else Some [3])\<rparr>"

theorem certificate_always_served_witness:
  "\<exists>l l'. cert_run demo_pair ''c'' ''k'' l \<and> GetCertificate demo_pair broken_files broken_files 3000000000 True l = (l', Inr (Some [1])) \<and>
     fl_cert l' = Some [1]"
proof -
  let ?l = "\<lparr>fl_certPath = ''c'', fl_keyPath = ''k'', fl_cert = Some [1], fl_modTime = 5, fl_lastLoggedErr = None, fl_lastLoggedAt = 0,
      fl_checkInterval = certCheckInterval, fl_lastCheck = 0\<rparr>"
  have "NewFileCertificateLoader demo_pair good_files ''c'' ''k'' = Inr ?l"
    by (simp add: NewFileCertificateLoader_def reload_def certKeyModTime_def good_files_def demo_pair_def)
  then have run: "cert_run demo_pair ''c'' ''k'' ?l" by (rule cert_run.start)
  obtain l' res where g: "GetCertificate demo_pair broken_files broken_files 3000000000 True ?l = (l', res)" by fastforce
  have "loads demo_pair broken_files ''c'' ''k'' = None" by (simp add: loads_def certKeyModTime_def broken_files_def demo_pair_def)
  then have "res = Inr (Some [1])" "fl_cert l' = Some [1]" using certificate_always_served [OF run g] by auto
  then show ?thesis using run g by blast
qed

end
