(* ===== verification/Startup.thy ===== *)
theory Startup
  imports Server Certificates Resolver
begin

text \<open>
  Starting the server (\<^verbatim>\<open>cmd/server/main.go\<close>): the whole of \<^verbatim>\<open>main\<close> up to the first accept, put together from the
  components it calls, in the order it calls them; the first failure ends the program. The files, the
  port, key generation and the backend of the authentication are answers of the system and parameters.
\<close>

section \<open>The parts\<close>

record ('c, 'n, 's) auth_env =
  ae_lru :: "('c, string) expirableLRU"
  ae_neg :: "('n, unit) expirableLRU"
  ae_clock :: "'s \<Rightarrow> int"
  ae_validURL :: "string \<Rightarrow> bool"
  ae_Do :: "HTTPAuthenticator \<Rightarrow> HTTPAuthRequest \<Rightarrow> 's \<Rightarrow> (int \<times> HTTPAuthResponse option) option \<times> 's"
  ae_slot :: "int \<Rightarrow> 's \<Rightarrow> bool \<times> 's"

record ('cert, 'l) system =
  sy_ParseDuration :: "string \<Rightarrow> int option"
  sy_ReadFile :: "string \<Rightarrow> string + string"
  sy_Unmarshal :: "string \<Rightarrow> Config \<Rightarrow> string + Config"
  sy_ReadAll :: "string \<Rightarrow> bytes option"
  sy_md5 :: "bytes \<Rightarrow> string"
  sy_sha256 :: "bytes \<Rightarrow> bytes"
  sy_Listen :: "string \<Rightarrow> bool"
  sy_X509KeyPair :: "bytes \<Rightarrow> bytes \<Rightarrow> 'cert option"
  sy_certFiles :: cert_files
  sy_GenerateKeyPair :: "'cert option"
  sy_lru :: "(Outbound, 'l) lru"
  sy_geo :: "string \<Rightarrow> string \<Rightarrow> int \<Rightarrow> geo_env"

datatype start_fatal =
    BadConfig config_error
  | NoPaddingFile
  | NoPassword
  | ListenError
  | BadCertificate cert_error
  | NoGeneratedCertificate
  | BadResolver config_error
  | BadOutbounds config_error
  | BadGeoInterval config_error
  | BadRules acl_error
  | BadBandwidth config_error

text \<open>Where a handshake gets its certificate from: files that may change, or the key made at the start.\<close>

datatype 'cert tls_source = FromFiles "'cert FileCertificateLoader" | SelfSigned 'cert

definition main_tls :: "('cert, 'l) system \<Rightarrow> Config \<Rightarrow> start_fatal + 'cert tls_source" where
  "main_tls sy cfg =
     (if TLSEnabled cfg then
        (case NewFileCertificateLoader (sy_X509KeyPair sy) (sy_certFiles sy) (tc_Cert (cf_TLS cfg)) (tc_Key (cf_TLS cfg)) of
           Inl e \<Rightarrow> Inl (BadCertificate e)
         | Inr l \<Rightarrow> Inr (FromFiles l))
      else case sy_GenerateKeyPair sy of
          None \<Rightarrow> Inl NoGeneratedCertificate
        | Some tlsCert \<Rightarrow> Inr (SelfSigned tlsCert))"

text \<open>The answer to one handshake.\<close>

definition tls_handshake ::
  "(bytes \<Rightarrow> bytes \<Rightarrow> 'cert option) \<Rightarrow> cert_files \<Rightarrow> cert_files \<Rightarrow> int \<Rightarrow> bool \<Rightarrow> 'cert tls_source \<Rightarrow> 'cert tls_source \<times> (cert_error + 'cert option)" where
  "tls_handshake X509KeyPair fs fs' now wins t =
     (case t of
        FromFiles l \<Rightarrow> (let (l', r) = GetCertificate X509KeyPair fs fs' now wins l in (FromFiles l', r))
      | SelfSigned c \<Rightarrow> (t, Inr (Some c)))"

definition main_resolver :: "Config \<Rightarrow> start_fatal + Resolver option" where
  "main_resolver cfg =
     (if ResolverConfig_Enabled (cf_Resolver cfg) then
        (case newResolver (cf_Resolver cfg) of Inl e \<Rightarrow> Inl (BadResolver e) | Inr r \<Rightarrow> Inr r)
      else Inr None)"

definition main_acl :: "('cert, 'l) system \<Rightarrow> Config \<Rightarrow> (string \<times> Outbound) list \<Rightarrow> start_fatal + (Outbound, 'l) Engine option" where
  "main_acl sy cfg obs =
     (if ACLEnabled cfg then
        (case GeoUpdateInterval (sy_ParseDuration sy) cfg of
           Inl e \<Rightarrow> Inl (BadGeoInterval e)
         | Inr geoInterval \<Rightarrow>
             (let geoLoader = sy_geo sy (ac_GeoIP (cf_ACL cfg)) (ac_GeoSite (cf_ACL cfg)) geoInterval;
                  file = ac_File (cf_ACL cfg)
              in case (if file \<noteq> [] then NewEngineFromFile (sy_lru sy) geoLoader (sy_ReadFile sy file) obs
                       else NewEngineFromString (sy_lru sy) geoLoader (Join (ac_Inline (cf_ACL cfg)) [CHR 0x0A]) obs) of
                   Inl e \<Rightarrow> Inl (BadRules e)
                 | Inr e \<Rightarrow> Inr (Some e)))
      else Inr None)"

text \<open>The proxies a warning is logged for.\<close>

definition warnLocalProxies :: "OutboundEntry list \<Rightarrow> (string \<times> string) list" where
  "warnLocalProxies entries =
     map (\<lambda>e. (oe_Name e, so_Addr (oe_SOCKS5 e)))
       (filter (\<lambda>e. OutboundEntry_Kind e = ''socks5'' \<and> isLocalProxyAddr (so_Addr (oe_SOCKS5 e))) entries)"

section \<open>All of it\<close>

text \<open>\<open>ss_stats\<close> is the address and secret of the statistics interface, if it is served.\<close>

record ('cert, 'l, 'a) started_server =
  ss_cfg :: Config
  ss_padding :: PaddingFactory
  ss_auth :: 'a
  ss_tls :: "'cert tls_source"
  ss_resolver :: "Resolver option"
  ss_stats :: "(string \<times> string) option"
  ss_policy :: "'l outboundPolicy"
  ss_server :: server
  ss_warned :: "(string \<times> string) list"

definition bind_fatal :: "start_fatal + 'a \<Rightarrow> ('a \<Rightarrow> start_fatal + 'b) \<Rightarrow> start_fatal + 'b" where
  "bind_fatal r f = (case r of Inl e \<Rightarrow> Inl e | Inr x \<Rightarrow> f x)"

definition or_fatal :: "start_fatal \<Rightarrow> 'a option \<Rightarrow> start_fatal + 'a" where
  "or_fatal e r = (case r of None \<Rightarrow> Inl e | Some x \<Rightarrow> Inr x)"

definition as_fatal :: "('e \<Rightarrow> start_fatal) \<Rightarrow> 'e + 'a \<Rightarrow> start_fatal + 'a" where
  "as_fatal f r = (case r of Inl e \<Rightarrow> Inl (f e) | Inr x \<Rightarrow> Inr x)"

definition server_main ::
  "('cert, 'l) system \<Rightarrow> ('c, 'n, 's) auth_env \<Rightarrow> PaddingFactory \<Rightarrow> string \<Rightarrow> server_flags \<Rightarrow>
   start_fatal + ('cert, 'l, (('c, 'n) caches \<times> 's) auth_fn \<times> ('c, 'n) caches) started_server" where
  "server_main sy ae cur configPath flags =
     bind_fatal (as_fatal BadConfig (LoadFile (sy_ParseDuration sy) (sy_ReadFile sy) (sy_Unmarshal sy) configPath)) (\<lambda>cfg0.
     let cfg = apply_flags flags cfg0 in
     bind_fatal (or_fatal NoPaddingFile (main_padding (sy_md5 sy) (sy_ReadAll sy) cfg cur)) (\<lambda>padding.
     bind_fatal (or_fatal NoPassword (main_auth (sy_sha256 sy) (sy_ParseDuration sy) (ae_lru ae) (ae_neg ae) (ae_clock ae)
         (ae_validURL ae) (ae_Do ae) (ae_slot ae) cfg)) (\<lambda>authn.
     if \<not> sy_Listen sy (cf_Listen cfg) then Inl ListenError else
     bind_fatal (main_tls sy cfg) (\<lambda>tls.
     bind_fatal (main_resolver cfg) (\<lambda>dnsResolver.
     bind_fatal (as_fatal BadOutbounds (newOutbounds (cf_Outbounds cfg))) (\<lambda>obs.
     bind_fatal (main_acl sy cfg obs) (\<lambda>aclEngine.
     bind_fatal (as_fatal BadBandwidth (BandwidthLimits cfg)) (\<lambda>(upBps, downBps).
     Inr \<lparr>ss_cfg = cfg, ss_padding = padding, ss_auth = authn, ss_tls = tls, ss_resolver = dnsResolver,
          ss_stats = (if StatsEnabled cfg then Some (ts_Listen (cf_TrafficStats cfg), ts_Secret (cf_TrafficStats cfg)) else None),
          ss_policy = newOutboundPolicy (Suc (length (cf_Outbounds cfg))) aclEngine (dnsResolver \<noteq> None)
            (\<not> oc_AllowPrivate (cf_Outbound cfg)) (map_of obs ''default''),
          ss_server = NewMyServer cfg upBps downBps,
          ss_warned = (if oc_AllowPrivate (cf_Outbound cfg) then [] else warnLocalProxies (cf_Outbounds cfg))\<rparr>))))))))"

text \<open>The accept loop. An error after the signal to stop ends the program, any other is fatal.\<close>

datatype 'k accepted = Conn 'k | AcceptError bool

datatype 's served = Serving 's | Stopped 's | AcceptFatal 's

fun server_accept :: "('k \<Rightarrow> 's \<Rightarrow> 's) \<Rightarrow> 'k accepted list \<Rightarrow> 's \<Rightarrow> 's served" where
  "server_accept handle [] s = Serving s"
| "server_accept handle (Conn c # as) s = server_accept handle as (handle c s)"
| "server_accept handle (AcceptError stopping # as) s = (if stopping then Stopped s else AcceptFatal s)"

section \<open>Once the configuration is loaded\<close>

lemma Default_wf: "wf_config pd Default"
proof -
  have "parseBandwidth '''' = Inr 0" by (simp add: parseBandwidth_def ToLower_def)
  moreover have "ToLower (TrimSpace '''') = ''''" by code_simp
  ultimately show ?thesis
    by (simp add: wf_config_def Default_def duration_ok_def bandwidth_ok_def auth_ok_def resolver_ok_def ResolverConfig_Kind_def Let_def)
qed

lemma loaded_wf: "LoadFile pd ReadFile Unmarshal path = Inr c \<Longrightarrow> wf_config pd c"
  unfolding LoadFile_char using Default_wf by blast

text \<open>The flags change nothing that was checked.\<close>

lemma apply_flags_keeps:
  "cf_TLS (apply_flags f c) = cf_TLS c" "cf_Auth (apply_flags f c) = cf_Auth c" "cf_ACL (apply_flags f c) = cf_ACL c"
  "cf_Resolver (apply_flags f c) = cf_Resolver c" "cf_TrafficStats (apply_flags f c) = cf_TrafficStats c"
  "cf_Bandwidth (apply_flags f c) = cf_Bandwidth c" "cf_Outbound (apply_flags f c) = cf_Outbound c" "cf_Outbounds (apply_flags f c) = cf_Outbounds c"
  by (simp_all add: apply_flags_def Let_def)

lemma wf_apply_flags: "wf_config pd c \<Longrightarrow> wf_config pd (apply_flags f c)"
  by (simp add: wf_config_def apply_flags_keeps)

lemma error_of_None: "error_of r = None \<longleftrightarrow> (\<exists>x. r = Inr x)"
  by (cases r) (simp_all add: error_of_def)

lemma wf_resolver:
  assumes "wf_config pd c"
  shows "\<exists>r. main_resolver c = Inr r \<and> (r \<noteq> None \<longleftrightarrow> ResolverConfig_Enabled (cf_Resolver c))"
proof -
  have ok: "resolver_ok (cf_Resolver c)" using assms by (simp add: wf_config_def)
  then have "ResolverConfig_Validate (cf_Resolver c) = None" by (simp add: validation)
  then show ?thesis using ok
    by (auto simp: main_resolver_def newResolver_def resolver_ok_def ResolverConfig_Enabled_def Let_def)
qed

lemma wf_outbounds:
  assumes "wf_config pd c"
  shows "\<exists>obs d. newOutbounds (cf_Outbounds c) = Inr obs \<and> map_of obs ''default'' = Some d"
proof -
  obtain l where l: "named_outbounds 0 (cf_Outbounds c) = Inr l"
    using named_outbounds_total assms unfolding wf_config_def by blast
  have "map_of (outboundMap l d) ''default'' \<noteq> None" for d
    unfolding outbound_map_lookup by (auto simp: outbound_spec_def split: option.split)
  then show ?thesis using l by (simp add: newOutbounds_def)
qed

lemma wf_bandwidth: "wf_config pd c \<Longrightarrow> \<exists>up down. BandwidthLimits c = Inr (up, down)"
  using error_of_None [of "BandwidthLimits c"] by (simp add: validation wf_config_def)

lemma wf_geo_interval: "wf_config pd c \<Longrightarrow> \<exists>i. GeoUpdateInterval pd c = Inr i"
  using error_of_None [of "GeoUpdateInterval pd c"] by (simp add: validation wf_config_def)

lemma engine_error:
  assumes "map_of obs ''default'' = Some d"
  shows "NewEngineFromString lru ge text obs \<noteq> Inl NoDefaultOutbound"
  using assms no_other_default_error(1) [of "text"] no_other_default_error(2) [of lru ge _ obs]
  by (auto simp: NewEngineFromString_def split: sum.splits)

lemma wf_acl:
  assumes "wf_config (sy_ParseDuration sy) c" "map_of obs ''default'' = Some d"
  shows "case main_acl sy c obs of Inl e \<Rightarrow> ACLEnabled c \<and> (\<exists>x. e = BadRules x \<and> x \<noteq> NoDefaultOutbound) | Inr e \<Rightarrow> e \<noteq> None \<longleftrightarrow> ACLEnabled c"
proof -
  obtain i where "GeoUpdateInterval (sy_ParseDuration sy) c = Inr i" using wf_geo_interval [OF assms(1)] by blast
  then show ?thesis using engine_error [OF assms(2)]
    by (auto simp: main_acl_def NewEngineFromFile_def Let_def split: sum.splits)
qed

lemma main_auth_None: "main_auth sha256 pd lru neg clock validURL Do slot cfg = None \<longleftrightarrow> \<not> UseHTTPAuth cfg \<and> cf_Password cfg = ''''"
  by (auto simp: main_auth_def Let_def)

lemmas fatal_simps = bind_fatal_def or_fatal_def as_fatal_def


text \<open>A start with nothing but a password on the command line.\<close>

definition demo_system :: "(unit, (cacheKey \<times> Outbound matchResult) list) system" where
  "demo_system =
     \<lparr>sy_ParseDuration = (\<lambda>_. None), sy_ReadFile = (\<lambda>_. Inl ''no such file''), sy_Unmarshal = (\<lambda>_. Inr), sy_ReadAll = (\<lambda>_. None),
      sy_md5 = (\<lambda>_. ''''), sy_sha256 = (\<lambda>_. replicate 32 0), sy_Listen = (\<lambda>a. a = ''0.0.0.0:8443''), sy_X509KeyPair = (\<lambda>_ _. None),
      sy_certFiles = \<lparr>cf_stat = (\<lambda>_. None), cf_read = (\<lambda>_. None)\<rparr>, sy_GenerateKeyPair = Some (), sy_lru = small_cache,
      sy_geo = (\<lambda>_ _ _. demo_geo)\<rparr>"

definition demo_flags :: server_flags where
  "demo_flags = \<lparr>sf_explicit = [''p''], sf_listen = ''0.0.0.0:8443'', sf_password = ''secret'', sf_paddingScheme = ''''\<rparr>"

definition demo_auth :: "(int \<times> (string \<times> string \<times> int) list, int \<times> (string \<times> unit \<times> int) list, int) auth_env" where
  "demo_auth = \<lparr>ae_lru = list_lru, ae_neg = list_lru, ae_clock = id, ae_validURL = (\<lambda>_. False), ae_Do = (\<lambda>_ _ s. (None, s)),
     ae_slot = (\<lambda>_ s. (True, s))\<rparr>"


end
