(* ===== verification/Serve.thy ===== *)
theory Serve
  imports Startup
begin

text \<open>
  The handler of a connection and of its streams as a whole (\<^verbatim>\<open>cmd/server/inbound_tcp.go\<close>): the first packet, the registries, the
  session, and the deferred calls. What the session and the relays do until they end is a parameter:
  any steps of the server, of this and of every other connection.
\<close>

section \<open>One stream\<close>

text \<open>\<open>addr\<close> is the address the stream starts with, if it can be read. The stream is closed and its record
  removed whichever way the handler ends, after a panic too.\<close>

definition handle_stream ::
  "string \<Rightarrow> string \<Rightarrow> sing \<Rightarrow> int \<Rightarrow> (bool \<Rightarrow> server \<Rightarrow> server) \<Rightarrow> (Socksaddr \<Rightarrow> nat option \<Rightarrow> server \<Rightarrow> server) \<Rightarrow> (server \<Rightarrow> server) \<Rightarrow>
   connection \<Rightarrow> Socksaddr option \<Rightarrow> server \<Rightarrow> server" where
  "handle_stream MagicAddress LegacyMagicAddress sg now proxyUoT proxyTCP closeStream c addr s =
     (case addr of
        None \<Rightarrow> closeStream s
      | Some destination \<Rightarrow>
          if isUoT MagicAddress LegacyMagicAddress destination
          then closeStream (proxyUoT (sa_Fqdn destination = LegacyMagicAddress) s)
          else (let (s1, st) = begin_stream MagicAddress LegacyMagicAddress sg now c addr s;
                    s2 = proxyTCP destination st s1
                in closeStream (end_stream st s2)))"

section \<open>One connection\<close>

text \<open>\<open>None\<close> is a connection that waits for its identifier for ever. \<open>run\<close> is the session, from \<^verbatim>\<open>Run\<close> to
  \<^verbatim>\<open>Close\<close>, on the bytes that follow the first packet.\<close>

definition Connection_handle ::
  "(nat \<Rightarrow> u32) \<Rightarrow> int \<Rightarrow> ('b \<Rightarrow> nat \<Rightarrow> (bytes \<times> 'b) option) \<Rightarrow> 's auth_fn \<Rightarrow> ('b \<Rightarrow> connection \<Rightarrow> server \<Rightarrow> server) \<Rightarrow>
   string \<Rightarrow> nat \<Rightarrow> 'b option \<Rightarrow> 's \<times> server \<Rightarrow> ('s \<times> server) option" where
  "Connection_handle rnd now ReadBytes authenticate run remote sess first st =
     (case server_handshake ReadBytes authenticate remote first (fst st) of
        (NoData, a) \<Rightarrow> Some (a, snd st)
      | (Fallback, a) \<Rightarrow> Some (a, snd st)
      | (Admitted i b, a) \<Rightarrow>
          (case open_connection rnd now i remote sess (snd st) of
             None \<Rightarrow> None
           | Some (s1, c) \<Rightarrow> Some (a, close_connection c (run b c s1))))"

section \<open>Nothing stays behind\<close>

lemma close_leaves:
  assumes "(server_step rnd magic legacy sg)\<^sup>*\<^sup>* (NewMyServer cfg up down, [], []) (s, cs, ss)" "c \<in> set cs"
  shows "\<exists>cs'. (server_step rnd magic legacy sg)\<^sup>*\<^sup>* (NewMyServer cfg up down, [], []) (close_connection c s, cs', ss) \<and>
    cn_sess c \<notin> cn_sess ` set cs'"
proof -
  obtain n where n: "n < length cs" "cs ! n = c" using assms(2) by (metis in_set_conv_nth)
  have d: "distinct (map cn_sess cs)" using server_ok_run [OF assms(1)] by (simp add: server_ok_def)
  have "cs = take n cs @ c # drop (Suc n) cs" using id_take_nth_drop [OF n(1)] n(2) by simp
  then have "distinct (map cn_sess (take n cs @ c # drop (Suc n) cs))" using d by simp
  then have "cn_sess c \<notin> cn_sess ` set (take n cs @ drop (Suc n) cs)" by (auto simp: image_iff)
  moreover have "(server_step rnd magic legacy sg)\<^sup>*\<^sup>* (NewMyServer cfg up down, [], []) (close_connection c s, take n cs @ drop (Suc n) cs, ss)"
    using rtranclp.rtrancl_into_rtrancl [OF assms(1) server_step.disconnect [OF n(1)]] n(2) by simp
  ultimately show ?thesis by blast
qed



text \<open>A stream leaves nothing behind either. Whatever its relay does and whatever happens meanwhile, when its handler returns, its
  record is gone.\<close>

theorem stream_handled:
  assumes "c \<in> set cs" and "begin_stream magic legacy sg now c (Some destination) s = (s1, Some st)"
    and "(server_step rnd magic legacy sg)\<^sup>*\<^sup>* (s1, cs, ss @ [st]) (proxyTCP destination (Some st) s1, cs', ss')" and "st \<in> set ss'"
  shows "(server_step rnd magic legacy sg)\<^sup>*\<^sup>* (s, cs, ss)
      (handle_stream magic legacy sg now proxyUoT proxyTCP (\<lambda>s. s) c (Some destination) s, cs', removeAll st ss')"
proof -
  have "\<not> isUoT magic legacy destination" using assms(2) by (auto simp: begin_stream_def)
  then have "handle_stream magic legacy sg now proxyUoT proxyTCP (\<lambda>s. s) c (Some destination) s =
      end_stream (Some st) (proxyTCP destination (Some st) s1)"
    using assms(2) by (simp add: handle_stream_def)
  then show ?thesis
    using converse_rtranclp_into_rtranclp [OF server_step.stream [OF assms(1,2)]
        rtranclp.rtrancl_into_rtrancl [OF assms(3) server_step.stream_end [OF assms(4)]]] by simp
qed

end
