(* ===== verification/Client.thy ===== *)
theory Client
  imports Session_Steps
begin

text \<open>
  The client's session pool (\<^verbatim>\<open>proxy/session/client.go\<close>): creating sessions, handing them out
  newest first, taking them back when their stream ends, and closing the ones that stayed idle
  too long.

  The skip list is a third-party ordered map, a parameter of the model: its operations and the
  order \<^verbatim>\<open>Iterate\<close> walks it in. \<open>ordered_map\<close> is its documented behaviour. Sessions are named by
  their reference into a store. Hooks run where the session operations mark them as fired.
\<close>

section \<open>The ordered map\<close>

record 'l skiplist =
  sl_New :: 'l
  sl_Insert :: "u64 \<Rightarrow> nat \<Rightarrow> 'l \<Rightarrow> 'l"
  sl_Remove :: "u64 \<Rightarrow> 'l \<Rightarrow> 'l"
  sl_Iterate :: "'l \<Rightarrow> (u64 \<times> nat) list"

definition ordered_map :: "'l skiplist \<Rightarrow> bool" where
  "ordered_map sl \<longleftrightarrow>
     sl_Iterate sl (sl_New sl) = [] \<and>
     (\<forall>l. sorted_wrt (<) (map fst (sl_Iterate sl l))) \<and>
     (\<forall>l k v. set (sl_Iterate sl (sl_Insert sl k v l)) =
        insert (k, v) {e \<in> set (sl_Iterate sl l). fst e \<noteq> k}) \<and>
     (\<forall>l k. set (sl_Iterate sl (sl_Remove sl k l)) = {e \<in> set (sl_Iterate sl l). fst e \<noteq> k})"

section \<open>State\<close>

text \<open>\<open>cl_padding\<close> is the value of the global \<^verbatim>\<open>DefaultPaddingFactory\<close> that all sessions share.\<close>

record 'l client =
  cl_die :: bool
  cl_env :: env
  cl_padding :: PaddingFactory
  cl_sessionCounter :: u64
  cl_idleSession :: 'l
  cl_sessions :: "(u64 \<times> nat) list"
  cl_store :: "session list"
  cl_idleSessionTimeout :: int
  cl_minIdleSession :: int
  cl_disableReuse :: bool

definition second :: int where
  "second = 1000000000"

text \<open>The second component is the interval of the cleanup routine, if one is started.\<close>

definition NewClient ::
  "'l skiplist \<Rightarrow> env \<Rightarrow> PaddingFactory \<Rightarrow> int \<Rightarrow> int \<Rightarrow> int \<Rightarrow> bool \<Rightarrow> 'l client \<times> int option" where
  "NewClient sl ev p checkInterval timeout minIdle disableReuse =
     (let checkInterval' = (if checkInterval \<le> second * 5 then second * 30 else checkInterval);
          timeout' = (if timeout \<le> second * 5 then second * 30 else timeout)
      in (\<lparr>cl_die = False, cl_env = ev, cl_padding = p, cl_sessionCounter = 0,
           cl_idleSession = sl_New sl, cl_sessions = [], cl_store = [],
           cl_idleSessionTimeout = timeout', cl_minIdleSession = minIdle, cl_disableReuse = disableReuse\<rparr>,
          if \<not> disableReuse then Some checkInterval' else None))"

definition MaxUint64 :: u64 where
  "MaxUint64 = - 1"

definition idle_key :: "session \<Rightarrow> u64" where
  "idle_key s = MaxUint64 - s_seq s"

section \<open>Hooks\<close>

text \<open>The \<^verbatim>\<open>dieHook\<close> of a session.\<close>

definition session_dieHook :: "'l skiplist \<Rightarrow> session \<Rightarrow> 'l client \<Rightarrow> 'l client" where
  "session_dieHook sl s c =
     (let c1 = (if \<not> cl_disableReuse c
                then c\<lparr>cl_idleSession := sl_Remove sl (idle_key s) (cl_idleSession c)\<rparr> else c)
      in c1\<lparr>cl_sessions := AList.delete (s_seq s) (cl_sessions c1)\<rparr>)"

text \<open>Run an operation of a session; its padding pointer is the shared one. If the operation
  closed the session, its hook runs.\<close>

definition run_session ::
  "'l skiplist \<Rightarrow> (session \<Rightarrow> session) \<Rightarrow> nat \<Rightarrow> 'l client \<Rightarrow> 'l client" where
  "run_session sl f i c =
     (let s = (cl_store c ! i)\<lparr>s_padding := cl_padding c\<rparr>;
          s' = f s;
          c1 = c\<lparr>cl_store := (cl_store c)[i := s'], cl_padding := s_padding s'\<rparr>
      in if s_dieHook s = Armed \<and> s_dieHook s' = Fired then session_dieHook sl s' c1 else c1)"

definition closeSession :: "'l skiplist \<Rightarrow> nat \<Rightarrow> 'l client \<Rightarrow> 'l client" where
  "closeSession sl = run_session sl (\<lambda>s. fst (Session_Close s))"

text \<open>The \<^verbatim>\<open>dieHook\<close> of a stream: put its session back into the pool, or close it.\<close>

definition stream_dieHook :: "'l skiplist \<Rightarrow> int \<Rightarrow> nat \<Rightarrow> 'l client \<Rightarrow> 'l client" where
  "stream_dieHook sl now i c =
     (let s = cl_store c ! i
      in if \<not> Session_IsClosed s then
           (if cl_disableReuse c then closeSession sl i c
            else if cl_die c then closeSession sl i c
            else c\<lparr>cl_store := (cl_store c)[i := s\<lparr>s_idleSince := now\<rparr>],
                   cl_idleSession := sl_Insert sl (idle_key s) i (cl_idleSession c)\<rparr>)
         else c)"

text \<open>The streams whose hook an operation has fired.\<close>

definition fired_streams :: "session \<Rightarrow> session \<Rightarrow> nat list" where
  "fired_streams s s' =
     filter (\<lambda>r. r < length (s_store s) \<and> st_dieHook (s_store s ! r) = Armed \<and> st_dieHook (s_store s' ! r) = Fired)
       [0..<length (s_store s')]"

text \<open>Any operation on a session of the pool, with the hooks it fires.\<close>

definition on_session ::
  "'l skiplist \<Rightarrow> int \<Rightarrow> (session \<Rightarrow> session) \<Rightarrow> nat \<Rightarrow> 'l client \<Rightarrow> 'l client" where
  "on_session sl now f i c =
     (let c1 = run_session sl f i c
      in fold (\<lambda>_. stream_dieHook sl now i) (fired_streams (cl_store c ! i) (cl_store c1 ! i)) c1)"

section \<open>Operations\<close>

definition getIdleSession :: "'l skiplist \<Rightarrow> 'l client \<Rightarrow> 'l client \<times> nat option" where
  "getIdleSession sl c =
     (case sl_Iterate sl (cl_idleSession c) of
        [] \<Rightarrow> (c, None)
      | (k, i) # _ \<Rightarrow> (c\<lparr>cl_idleSession := sl_Remove sl k (cl_idleSession c)\<rparr>, Some i))"

text \<open>\<open>dial\<close> is what \<^verbatim>\<open>dialOut\<close> returns.\<close>

definition createSession ::
  "'l skiplist \<Rightarrow> int \<Rightarrow> netConn result \<Rightarrow> 'l client \<Rightarrow> 'l client \<times> nat result" where
  "createSession sl now dial c =
     (case dial of
        Inl e \<Rightarrow> (c, Inl e)
      | Inr underlying \<Rightarrow>
          (let sq = cl_sessionCounter c + 1;
               s = (NewClientSession (cl_env c) underlying (cl_padding c))\<lparr>s_seq := sq, s_dieHook := Armed\<rparr>;
               i = length (cl_store c);
               c1 = c\<lparr>cl_sessionCounter := sq, cl_store := cl_store c @ [s],
                      cl_sessions := AList.update sq i (cl_sessions c)\<rparr>
           in (on_session sl now Session_Run i c1, Inr i)))"

definition openOn :: "'l skiplist \<Rightarrow> int \<Rightarrow> nat \<Rightarrow> 'l client \<Rightarrow> 'l client \<times> (nat \<times> nat) result" where
  "openOn sl now i c =
     (let s = (cl_store c ! i)\<lparr>s_padding := cl_padding c\<rparr>;
          c1 = on_session sl now (\<lambda>s. fst (OpenStream s)) i c
      in case snd (OpenStream s) of
           Inl e \<Rightarrow> (closeSession sl i c1, Inl e)
         | Inr r \<Rightarrow>
             (c1\<lparr>cl_store := (cl_store c1)[i := update_stream (\<lambda>st. st\<lparr>st_dieHook := Armed\<rparr>) r (cl_store c1 ! i)]\<rparr>,
              Inr (i, r)))"

definition CreateStream ::
  "'l skiplist \<Rightarrow> int \<Rightarrow> netConn result \<Rightarrow> 'l client \<Rightarrow> 'l client \<times> (nat \<times> nat) result" where
  "CreateStream sl now dial c =
     (if cl_die c then (c, Inl ErrClosedPipe)
      else let (c1, idle) = (if \<not> cl_disableReuse c then getIdleSession sl c else (c, None))
           in case idle of
                Some i \<Rightarrow> openOn sl now i c1
              | None \<Rightarrow>
                  (case createSession sl now dial c1 of
                     (c2, Inl e) \<Rightarrow> (c2, Inl e)
                   | (c2, Inr i) \<Rightarrow> openOn sl now i c2))"

definition Client_Close :: "'l skiplist \<Rightarrow> 'l client \<Rightarrow> 'l client" where
  "Client_Close sl c =
     fold (\<lambda>e. closeSession sl (snd e)) (cl_sessions c) (c\<lparr>cl_die := True, cl_sessions := []\<rparr>)"

text \<open>
  The walk of the cleanup: the entries to close and the entries kept, with the sessions whose
  idle time is renewed because fewer than the minimum were counted before them.
\<close>

fun cleanup_scan ::
  "(nat \<Rightarrow> int) \<Rightarrow> int \<Rightarrow> int \<Rightarrow> int \<Rightarrow> (u64 \<times> nat) list \<Rightarrow> (u64 \<times> nat) list \<times> nat list" where
  "cleanup_scan idleSince expTime minIdle active [] = ([], [])"
| "cleanup_scan idleSince expTime minIdle active ((k, i) # es) =
     (if \<not> idleSince i < expTime then cleanup_scan idleSince expTime minIdle (active + 1) es
      else if active < minIdle then
        (let (cs, rs) = cleanup_scan idleSince expTime minIdle (active + 1) es in (cs, i # rs))
      else (let (cs, rs) = cleanup_scan idleSince expTime minIdle active es in ((k, i) # cs, rs)))"

definition renew :: "int \<Rightarrow> nat list \<Rightarrow> 'l client \<Rightarrow> 'l client" where
  "renew now rs c =
     fold (\<lambda>i c. c\<lparr>cl_store := (cl_store c)[i := (cl_store c ! i)\<lparr>s_idleSince := now\<rparr>]\<rparr>) rs c"

definition idleCleanupExpTime :: "'l skiplist \<Rightarrow> int \<Rightarrow> int \<Rightarrow> 'l client \<Rightarrow> 'l client" where
  "idleCleanupExpTime sl now expTime c =
     (let (cs, rs) = cleanup_scan (\<lambda>i. s_idleSince (cl_store c ! i)) expTime (cl_minIdleSession c) 0
            (sl_Iterate sl (cl_idleSession c));
          c1 = (renew now rs c)\<lparr>cl_idleSession := fold (\<lambda>e. sl_Remove sl (fst e)) cs (cl_idleSession c)\<rparr>
      in fold (\<lambda>e. closeSession sl (snd e)) cs c1)"

definition idleCleanup :: "'l skiplist \<Rightarrow> int \<Rightarrow> 'l client \<Rightarrow> 'l client" where
  "idleCleanup sl now c = idleCleanupExpTime sl now (now - cl_idleSessionTimeout c) c"

end
