(* ===== verification/Client_Inv.thy ===== *)
theory Client_Inv
  imports Client
begin

text \<open>
  The pool keeps its promises in every reachable state: an idle session is alive and carries no
  stream of the program, a session carries at most one, and a dead session is never handed out.
\<close>

section \<open>What a session operation means for the pool\<close>

definition armed :: "session \<Rightarrow> nat set" where
  "armed s = {r. r < length (s_store s) \<and> st_dieHook (s_store s ! r) = Armed}"

definition pool_rel :: "session \<Rightarrow> session \<Rightarrow> bool" where
  "pool_rel s s' \<longleftrightarrow>
     s_seq s' = s_seq s \<and> s_idleSince s' = s_idleSince s \<and> (s_die s \<longrightarrow> s_die s') \<and>
     s_dieHook s' = (if s_die s' \<and> \<not> s_die s then fire (s_dieHook s) else s_dieHook s) \<and>
     armed s' \<subseteq> armed s"

lemma pool_rel_trans:
  assumes "pool_rel s t" and "pool_rel t u"
  shows "pool_rel s u"
proof -
  have "armed u \<subseteq> armed s" using assms unfolding pool_rel_def by blast
  then show ?thesis using assms unfolding pool_rel_def
    by (cases "s_die s"; cases "s_die t"; cases "s_die u") simp_all
qed

lemma armed_write: "write_frame_rel s s' \<Longrightarrow> armed s' = armed s"
  by (simp add: write_frame_rel_def armed_def)

lemma armed_update_stream: "tame f \<Longrightarrow> armed (update_stream f r s) \<subseteq> armed s"
  unfolding armed_def tame_def
  by (auto simp: nth_store_update_stream fire_def split: if_splits)

lemma armed_Session_Close: "armed (fst (Session_Close s)) \<subseteq> armed s"
proof (cases "s_die s")
  case False
  have "st_dieHook (closeLocally x) = Armed \<Longrightarrow> st_dieHook x = Armed" for x
    by (auto simp: closeLocally_def fire_def split: if_splits)
  then show ?thesis using Session_Close_open [OF False] by (auto simp: armed_def split: if_splits)
qed (simp add: Session_Close_def)

interpretation pooling: session_rel pool_rel
proof unfold_locales
  show "pool_rel s t \<Longrightarrow> pool_rel t u \<Longrightarrow> pool_rel s u" for s t u by (rule pool_rel_trans)
  show "pool_rel s s'" if "doWriteConn s b bp = (s', y)" for s b bp s' y
    using doWriteConn_frame [OF that] armed_write [OF doWriteConn_frame [OF that]]
    by (simp add: pool_rel_def write_frame_rel_def)
  show "pool_rel s (fst (Session_Close s))" for s
  proof (cases "s_die s")
    case False
    then show ?thesis using Session_Close_open [OF False] armed_Session_Close [of s] by (auto simp: pool_rel_def)
  qed (simp add: Session_Close_def pool_rel_def)
  show "pool_rel s (update_stream f r s)" if "tame f" for f s r
    using armed_update_stream [OF that] by (simp add: pool_rel_def)
  show "pool_rel s (s\<lparr>s_store := s_store s @ [newStream sid], s_streams := m\<rparr>)" for s sid m
    by (auto simp: pool_rel_def armed_def newStream_def nth_append split: if_splits)
qed (simp_all add: pool_rel_def armed_def)

lemma pool_rel_sess_step: "sess_step s s' \<Longrightarrow> pool_rel s s'"
  by (erule pooling.rel_sess_step) (auto simp: pool_rel_def armed_def)

section \<open>The invariant of the pool\<close>

definition idle_ok :: "session list \<Rightarrow> u64 \<times> nat \<Rightarrow> bool" where
  "idle_ok ss e \<longleftrightarrow> snd e < length ss \<and> fst e = idle_key (ss ! snd e) \<and> \<not> s_die (ss ! snd e) \<and>
     armed (ss ! snd e) = {}"

definition session_ok :: "nat \<Rightarrow> session \<Rightarrow> bool" where
  "session_ok i s \<longleftrightarrow> s_seq s = word_of_nat (Suc i) \<and> s_dieHook s = (if s_die s then Fired else Armed) \<and>
     (\<forall>a \<in> armed s. \<forall>b \<in> armed s. a = b)"

definition pool_ok :: "'l skiplist \<Rightarrow> 'l client \<Rightarrow> bool" where
  "pool_ok sl c \<longleftrightarrow>
     length (cl_store c) < 2 ^ 64 \<and> cl_sessionCounter c = word_of_nat (length (cl_store c)) \<and>
     (\<forall>i < length (cl_store c). session_ok i (cl_store c ! i)) \<and>
     (\<forall>e \<in> set (sl_Iterate sl (cl_idleSession c)). idle_ok (cl_store c) e) \<and>
     (cl_disableReuse c \<longrightarrow> sl_Iterate sl (cl_idleSession c) = []) \<and>
     (\<forall>e \<in> set (cl_sessions c). snd e < length (cl_store c))"

definition in_idle :: "'l skiplist \<Rightarrow> 'l client \<Rightarrow> nat \<Rightarrow> bool" where
  "in_idle sl c i \<longleftrightarrow> i \<in> snd ` set (sl_Iterate sl (cl_idleSession c))"

lemma om_Insert: "ordered_map sl \<Longrightarrow> set (sl_Iterate sl (sl_Insert sl k v l)) =
    insert (k, v) {e \<in> set (sl_Iterate sl l). fst e \<noteq> k}"
  by (simp add: ordered_map_def)

lemma om_Remove: "ordered_map sl \<Longrightarrow> set (sl_Iterate sl (sl_Remove sl k l)) =
    {e \<in> set (sl_Iterate sl l). fst e \<noteq> k}"
  by (simp add: ordered_map_def)

lemma om_Remove_Nil: "ordered_map sl \<Longrightarrow> sl_Iterate sl l = [] \<Longrightarrow> sl_Iterate sl (sl_Remove sl k l) = []"
  using om_Remove [of sl k l] by simp

lemma seq_inj:
  assumes "pool_ok sl c" "i < length (cl_store c)" "j < length (cl_store c)"
    "s_seq (cl_store c ! i) = s_seq (cl_store c ! j)"
  shows "i = j"
proof -
  have n: "Suc i < 2 ^ 64 \<or> Suc i = 2 ^ 64" "Suc j < 2 ^ 64 \<or> Suc j = 2 ^ 64"
      "Suc i \<le> length (cl_store c)" "Suc j \<le> length (cl_store c)" "length (cl_store c) < 2 ^ 64"
    using assms by (auto simp: pool_ok_def)
  have "(word_of_nat (Suc i) :: u64) = word_of_nat (Suc j)"
    using assms by (simp add: pool_ok_def session_ok_def)
  moreover have "unat (word_of_nat k :: u64) = k" if "k < 2 ^ 64" for k
    using that by (simp add: unat_of_nat take_bit_nat_eq_self)
  ultimately show ?thesis using n by (metis Suc_inject le_less_trans)
qed

text \<open>Replacing one session by what an operation made of it.\<close>

lemma session_ok_rel:
  assumes "session_ok i s" and "pool_rel s s'"
  shows "session_ok i s'"
  using assms unfolding session_ok_def pool_rel_def
  by (cases "s_die s"; cases "s_die s'") (auto simp: fire_def)

lemma pool_rel_padding: "pool_rel (s\<lparr>s_padding := p\<rparr>) s' \<Longrightarrow> pool_rel s s'"
  by (simp add: pool_rel_def armed_def)

lemma run_session_cases:
  fixes c :: "'l client"
  assumes "\<And>s. pool_rel s (f s)"
  obtains s' where "pool_rel (cl_store c ! i) s'"
    "run_session sl f i c =
       (let c1 = c\<lparr>cl_store := (cl_store c)[i := s'], cl_padding := s_padding s'\<rparr>
        in if s_dieHook (cl_store c ! i) = Armed \<and> s_dieHook s' = Fired then session_dieHook sl s' c1 else c1)"
proof (rule that [of "f ((cl_store c ! i)\<lparr>s_padding := cl_padding c\<rparr>)"])
  show "pool_rel (cl_store c ! i) (f ((cl_store c ! i)\<lparr>s_padding := cl_padding c\<rparr>))"
    by (rule pool_rel_padding [OF assms])
qed (simp add: run_session_def Let_def)

lemma idle_ok_upd:
  "idle_ok ss e \<Longrightarrow> pool_rel (ss ! i) s' \<Longrightarrow> snd e \<noteq> i \<or> \<not> s_die s' \<Longrightarrow> idle_ok (ss[i := s']) e"
  by (cases "snd e = i") (auto simp: idle_ok_def pool_rel_def idle_key_def)

text \<open>A session operation never adds to the idle sessions by itself; if it kills the session,
  the session leaves them.\<close>

lemma run_session_ok:
  assumes om: "ordered_map sl" and ok: "pool_ok sl c" and i: "i < length (cl_store c)" and f: "\<And>s. pool_rel s (f s)"
  shows "pool_ok sl (run_session sl f i c) \<and>
    set (sl_Iterate sl (cl_idleSession (run_session sl f i c))) \<subseteq> set (sl_Iterate sl (cl_idleSession c)) \<and>
    length (cl_store (run_session sl f i c)) = length (cl_store c) \<and>
    pool_rel (cl_store c ! i) (cl_store (run_session sl f i c) ! i) \<and>
    cl_die (run_session sl f i c) = cl_die c \<and> cl_disableReuse (run_session sl f i c) = cl_disableReuse c"
proof -
  obtain s' where rel: "pool_rel (cl_store c ! i) s'" and run: "run_session sl f i c =
       (let c1 = c\<lparr>cl_store := (cl_store c)[i := s'], cl_padding := s_padding s'\<rparr>
        in if s_dieHook (cl_store c ! i) = Armed \<and> s_dieHook s' = Fired then session_dieHook sl s' c1 else c1)"
    using run_session_cases [OF f] by blast
  let ?ss = "(cl_store c)[i := s']" and ?l = "cl_idleSession c"
  have so: "session_ok j (?ss ! j)" if "j < length (cl_store c)" for j
    using ok that i session_ok_rel [OF _ rel] by (auto simp: pool_ok_def nth_list_update)
  have old: "session_ok i (cl_store c ! i)" using ok i by (simp add: pool_ok_def)
  have died: "s_dieHook (cl_store c ! i) = Armed \<and> s_dieHook s' = Fired \<longleftrightarrow> \<not> s_die (cl_store c ! i) \<and> s_die s'"
    using rel old by (auto simp: pool_rel_def session_ok_def fire_def split: if_splits)
  have sq: "idle_key s' = idle_key (cl_store c ! i)" using rel by (simp add: pool_rel_def idle_key_def)
  have keep: "idle_ok ?ss e" if "e \<in> set (sl_Iterate sl ?l)" "fst e \<noteq> idle_key s' \<or> \<not> s_die s'" for e
    using ok that idle_ok_upd [OF _ rel, of e] sq by (auto simp: pool_ok_def idle_ok_def)
  have alive: "\<not> s_die s'" if "\<not> (\<not> s_die (cl_store c ! i) \<and> s_die s')" "e \<in> set (sl_Iterate sl ?l)" "snd e = i" for e
    using ok that by (auto simp: pool_ok_def idle_ok_def)
  have keep2: "idle_ok ?ss e" if "\<not> (\<not> s_die (cl_store c ! i) \<and> s_die s')" "e \<in> set (sl_Iterate sl ?l)" for e
    using idle_ok_upd [OF _ rel, of e] alive [OF that] ok that(2) by (auto simp: pool_ok_def)
  show ?thesis
  proof (cases "\<not> s_die (cl_store c ! i) \<and> s_die s'")
    case True
    then have "run_session sl f i c =
        session_dieHook sl s' (c\<lparr>cl_store := ?ss, cl_padding := s_padding s'\<rparr>)" using run died by (simp add: Let_def)
    then show ?thesis using ok so keep om_Remove [OF om] rel i
      by (cases "cl_disableReuse c") (auto simp: session_dieHook_def pool_ok_def Let_def AList.delete_eq)
  next
    case False
    then have "run_session sl f i c = c\<lparr>cl_store := ?ss, cl_padding := s_padding s'\<rparr>"
      using run died by (auto simp: Let_def)
    then show ?thesis using ok so keep2 [OF False] rel i by (auto simp: pool_ok_def)
  qed
qed

lemma pool_rel_Close: "pool_rel s (fst (Session_Close s))"
  by (rule pooling.rel_Session_Close)

lemmas closeSession_ok = run_session_ok [where f = "\<lambda>s. fst (Session_Close s)", OF _ _ _ pool_rel_Close,
    folded closeSession_def]

lemma stream_dieHook_ok:
  assumes om: "ordered_map sl" and ok: "pool_ok sl c" and i: "i < length (cl_store c)" "armed (cl_store c ! i) = {}"
  shows "pool_ok sl (stream_dieHook sl now i c) \<and> length (cl_store (stream_dieHook sl now i c)) = length (cl_store c) \<and>
    armed (cl_store (stream_dieHook sl now i c) ! i) = {}"
proof (cases "s_die (cl_store c ! i)")
  case True
  then show ?thesis using ok i by (simp add: stream_dieHook_def Session_IsClosed_def Let_def)
next
  case False
  show ?thesis
  proof (cases "cl_disableReuse c \<or> cl_die c")
    case True
    then have "stream_dieHook sl now i c = closeSession sl i c"
      using False by (auto simp: stream_dieHook_def Session_IsClosed_def Let_def)
    then show ?thesis using closeSession_ok [OF om ok i(1)] i(2) by (auto simp: pool_rel_def)
  next
    case F: False
    let ?s = "(cl_store c ! i)\<lparr>s_idleSince := now\<rparr>"
    have eq: "stream_dieHook sl now i c = c\<lparr>cl_store := (cl_store c)[i := ?s],
        cl_idleSession := sl_Insert sl (idle_key (cl_store c ! i)) i (cl_idleSession c)\<rparr>"
      using False F by (simp add: stream_dieHook_def Session_IsClosed_def Let_def)
    have same: "armed ?s = armed (cl_store c ! i)" "idle_key ?s = idle_key (cl_store c ! i)"
      by (simp_all add: armed_def idle_key_def)
    have so: "session_ok j ((cl_store c)[i := ?s] ! j)" if "j < length (cl_store c)" for j
      using ok that same by (cases "j = i") (auto simp: pool_ok_def session_ok_def)
    have "idle_ok ((cl_store c)[i := ?s]) e" if "idle_ok (cl_store c) e \<or> e = (idle_key (cl_store c ! i), i)" for e
      using that i same False by (cases e; cases "snd e = i") (auto simp: idle_ok_def)
    then show ?thesis using eq ok so F i same om_Insert [OF om] by (auto simp: pool_ok_def)
  qed
qed

lemma stream_hooks_ok:
  assumes "ordered_map sl" and "pool_ok sl c" and "i < length (cl_store c)" "armed (cl_store c ! i) = {}"
  shows "pool_ok sl (fold (\<lambda>_. stream_dieHook sl now i) rs c) \<and>
    length (cl_store (fold (\<lambda>_. stream_dieHook sl now i) rs c)) = length (cl_store c)"
  using assms
proof (induction rs arbitrary: c)
  case (Cons r rs)
  then show ?case using stream_dieHook_ok [OF Cons.prems, of now] by auto
qed simp

text \<open>A fired hook was the only armed one of its session.\<close>

lemma fired_unarms:
  assumes "session_ok i s" and "pool_rel s s'" and "fired_streams s s' \<noteq> []"
  shows "armed s' = {}"
proof -
  obtain r where "r \<in> set (fired_streams s s')" using assms(3) by (cases "fired_streams s s'") auto
  then have r: "r \<in> armed s" "r \<notin> armed s'" by (auto simp: fired_streams_def armed_def)
  then have "armed s \<subseteq> {r}" using assms(1) by (auto simp: session_ok_def)
  then show ?thesis using r assms(2) by (auto simp: pool_rel_def)
qed

lemma on_session_ok:
  assumes om: "ordered_map sl" and ok: "pool_ok sl c" and i: "i < length (cl_store c)" and f: "\<And>s. pool_rel s (f s)"
  shows "pool_ok sl (on_session sl now f i c) \<and> length (cl_store (on_session sl now f i c)) = length (cl_store c)"
proof -
  let ?c1 = "run_session sl f i c"
  note run = run_session_ok [OF om ok i f]
  have so: "session_ok i (cl_store c ! i)" using ok i by (simp add: pool_ok_def)
  show ?thesis
  proof (cases "fired_streams (cl_store c ! i) (cl_store ?c1 ! i) = []")
    case True
    then show ?thesis using run by (simp add: on_session_def Let_def)
  next
    case False
    then have "armed (cl_store ?c1 ! i) = {}" using fired_unarms [OF so] run by blast
    then show ?thesis using stream_hooks_ok [OF om, of ?c1 i] run i
      by (simp add: on_session_def Let_def)
  qed
qed

text \<open>On a session without a stream of the program, no stream hook can fire.\<close>

lemma on_session_unarmed:
  assumes om: "ordered_map sl" and ok: "pool_ok sl c" and i: "i < length (cl_store c)" "armed (cl_store c ! i) = {}"
    and f: "\<And>s. pool_rel s (f s)"
  shows "on_session sl now f i c = run_session sl f i c"
proof -
  have "fired_streams (cl_store c ! i) s' = []" for s'
    using i(2) by (auto simp: fired_streams_def armed_def filter_empty_conv)
  then show ?thesis by (simp add: on_session_def Let_def)
qed

section \<open>Handing out sessions\<close>

lemma getIdleSession_ok:
  assumes om: "ordered_map sl" and ok: "pool_ok sl c" and g: "getIdleSession sl c = (c', x)"
  shows "pool_ok sl c' \<and> cl_store c' = cl_store c \<and>
    (\<forall>i. x = Some i \<longrightarrow> i < length (cl_store c) \<and> \<not> s_die (cl_store c ! i) \<and> armed (cl_store c ! i) = {}
       \<and> \<not> in_idle sl c' i)"
proof (cases "sl_Iterate sl (cl_idleSession c)")
  case Nil
  then show ?thesis using g ok by (auto simp: getIdleSession_def)
next
  case (Cons e es)
  obtain k i where e: "e = (k, i)" by (cases e)
  have c': "c' = c\<lparr>cl_idleSession := sl_Remove sl k (cl_idleSession c)\<rparr>" "x = Some i"
    using g Cons e by (auto simp: getIdleSession_def)
  have io: "idle_ok (cl_store c) (k, i)" using ok Cons e by (simp add: pool_ok_def)
  have "\<not> in_idle sl c' i"
  proof
    assume "in_idle sl c' i"
    then obtain k' where "(k', i) \<in> set (sl_Iterate sl (cl_idleSession c))" "k' \<noteq> k"
      by (auto simp: in_idle_def c' om_Remove [OF om])
    then show False using ok io by (auto simp: pool_ok_def idle_ok_def)
  qed
  moreover have "pool_ok sl c'" using ok om_Remove [OF om] om_Remove_Nil [OF om] by (auto simp: pool_ok_def c')
  ultimately show ?thesis using c' io by (simp add: idle_ok_def)
qed

lemma createSession_ok:
  assumes om: "ordered_map sl" and ok: "pool_ok sl c" and room: "Suc (length (cl_store c)) < 2 ^ 64"
    and g: "createSession sl now dial c = (c', x)"
  shows "pool_ok sl c' \<and>
    (\<forall>i. x = Inr i \<longrightarrow> i < length (cl_store c') \<and> armed (cl_store c' ! i) = {} \<and> \<not> in_idle sl c' i)"
proof (cases dial)
  case (Inl e)
  then show ?thesis using g ok by (auto simp: createSession_def)
next
  case (Inr cn)
  define s where "s = (NewClientSession (cl_env c) cn (cl_padding c))\<lparr>s_seq := cl_sessionCounter c + 1, s_dieHook := Armed\<rparr>"
  let ?i = "length (cl_store c)"
  define c1 where "c1 = c\<lparr>cl_sessionCounter := cl_sessionCounter c + 1, cl_store := cl_store c @ [s],
      cl_sessions := AList.update (cl_sessionCounter c + 1) ?i (cl_sessions c)\<rparr>"
  have c': "c' = on_session sl now Session_Run ?i c1" "x = Inr ?i"
    using g Inr by (simp_all add: createSession_def c1_def s_def Let_def)
  have sq: "s_seq s = word_of_nat (Suc ?i)" "cl_sessionCounter c + 1 = word_of_nat (Suc ?i)" "armed s = {}"
      "s_dieHook s = Armed" "\<not> s_die s"
    using ok by (simp_all add: s_def NewClientSession_def pool_ok_def armed_def)
  have idle: "idle_ok (cl_store c @ [s]) e" if "idle_ok (cl_store c) e" for e
    using that by (simp add: idle_ok_def nth_append)
  have ok1: "pool_ok sl c1"
    using ok sq idle room set_update_subset [of "cl_sessionCounter c + 1" ?i "cl_sessions c"]
    by (fastforce simp: pool_ok_def c1_def nth_append session_ok_def less_Suc_eq)
  have i1: "?i < length (cl_store c1)" "armed (cl_store c1 ! ?i) = {}" using sq by (simp_all add: c1_def nth_append)
  have f: "pool_rel s (Session_Run s)" for s by (rule pooling.rel_Session_Run)
  have run: "c' = run_session sl Session_Run ?i c1" using on_session_unarmed [OF om ok1 i1 f] c' by simp
  have notin: "\<not> in_idle sl c1 ?i" using ok by (auto simp: in_idle_def c1_def pool_ok_def idle_ok_def)
  then show ?thesis using run_session_ok [OF om ok1 i1(1) f] run i1 c'(2)
    by (auto simp: in_idle_def pool_rel_def)
qed

lemma arm_ok:
  assumes ok: "pool_ok sl c" and i: "i < length (cl_store c)" "armed (cl_store c ! i) = {}" "\<not> in_idle sl c i"
  shows "pool_ok sl (c\<lparr>cl_store := (cl_store c)[i := update_stream (\<lambda>st. st\<lparr>st_dieHook := Armed\<rparr>) r (cl_store c ! i)]\<rparr>)"
proof -
  let ?s = "update_stream (\<lambda>st. st\<lparr>st_dieHook := Armed\<rparr>) r (cl_store c ! i)"
  have "armed ?s \<subseteq> {r}" using i(2) by (auto simp: armed_def nth_store_update_stream split: if_splits)
  then have "\<forall>a \<in> armed ?s. \<forall>b \<in> armed ?s. a = b" by blast
  then have "session_ok i ?s" using ok i by (simp add: pool_ok_def session_ok_def)
  moreover have "idle_ok ((cl_store c)[i := ?s]) e" if "e \<in> set (sl_Iterate sl (cl_idleSession c))" for e
  proof -
    have "snd e \<noteq> i" "idle_ok (cl_store c) e" using that i(3) ok by (auto simp: in_idle_def pool_ok_def)
    then show ?thesis by (simp add: idle_ok_def)
  qed
  ultimately show ?thesis using ok i(1) by (auto simp: pool_ok_def nth_list_update)
qed

lemma openOn_ok:
  assumes om: "ordered_map sl" and ok: "pool_ok sl c" and i: "i < length (cl_store c)" "armed (cl_store c ! i) = {}"
    "\<not> in_idle sl c i"
  shows "pool_ok sl (fst (openOn sl now i c))"
proof -
  have f: "pool_rel s (fst (OpenStream s))" for s by (rule pooling.rel_OpenStream)
  define c1 where "c1 = run_session sl (\<lambda>s. fst (OpenStream s)) i c"
  have c1: "on_session sl now (\<lambda>s. fst (OpenStream s)) i c = c1"
    unfolding c1_def by (rule on_session_unarmed [OF om ok i(1,2) f])
  have run: "pool_ok sl c1" "i < length (cl_store c1)" "armed (cl_store c1 ! i) = {}" "\<not> in_idle sl c1 i"
    using run_session_ok [OF om ok i(1) f] i unfolding c1_def by (auto simp: pool_rel_def in_idle_def)
  show ?thesis using closeSession_ok [OF om run(1,2)] arm_ok [OF run]
    by (simp add: openOn_def Let_def c1 split: sum.split)
qed

lemma CreateStream_ok:
  assumes om: "ordered_map sl" and ok: "pool_ok sl c" and room: "Suc (length (cl_store c)) < 2 ^ 64"
  shows "pool_ok sl (fst (CreateStream sl now dial c))"
proof (cases "cl_die c")
  case True
  then show ?thesis using ok by (simp add: CreateStream_def)
next
  case False
  obtain c1 idle where g: "(if \<not> cl_disableReuse c then getIdleSession sl c else (c, None)) = (c1, idle)" by fastforce
  have ok1: "pool_ok sl c1" "cl_store c1 = cl_store c"
      "\<And>i. idle = Some i \<Longrightarrow> i < length (cl_store c1) \<and> armed (cl_store c1 ! i) = {} \<and> \<not> in_idle sl c1 i"
    using getIdleSession_ok [OF om ok, of c1 idle] g ok by (auto split: if_splits)
  show ?thesis
  proof (cases idle)
    case (Some i)
    then show ?thesis using False g openOn_ok [OF om ok1(1)] ok1(3) by (simp add: CreateStream_def)
  next
    case None
    obtain c2 x where c2: "createSession sl now dial c1 = (c2, x)" by fastforce
    have ok2: "pool_ok sl c2"
        "\<And>i. x = Inr i \<Longrightarrow> i < length (cl_store c2) \<and> armed (cl_store c2 ! i) = {} \<and> \<not> in_idle sl c2 i"
      using createSession_ok [OF om ok1(1) _ c2] room ok1(2) by auto
    then show ?thesis using False g None c2 openOn_ok [OF om ok2(1)]
      by (auto simp: CreateStream_def split: sum.split)
  qed
qed

section \<open>Closing and cleaning up\<close>

lemma closeSessions_ok:
  assumes "ordered_map sl" and "pool_ok sl c" and "\<forall>e \<in> set es. snd e < length (cl_store c)"
  shows "pool_ok sl (fold (\<lambda>e. closeSession sl (snd e)) es c) \<and>
    length (cl_store (fold (\<lambda>e. closeSession sl (snd e)) es c)) = length (cl_store c) \<and>
    set (sl_Iterate sl (cl_idleSession (fold (\<lambda>e. closeSession sl (snd e)) es c)))
      \<subseteq> set (sl_Iterate sl (cl_idleSession c))"
  using assms
proof (induction es arbitrary: c)
  case (Cons e es)
  have 1: "pool_ok sl (closeSession sl (snd e) c)" "length (cl_store (closeSession sl (snd e) c)) = length (cl_store c)"
      "set (sl_Iterate sl (cl_idleSession (closeSession sl (snd e) c))) \<subseteq> set (sl_Iterate sl (cl_idleSession c))"
    using closeSession_ok [OF Cons.prems(1,2), of "snd e"] Cons.prems(3) by auto
  then show ?case using Cons.IH [OF Cons.prems(1) 1(1)] Cons.prems(3) by auto
qed simp

lemma renew_ok:
  assumes "pool_ok sl c"
  shows "pool_ok sl (renew now rs c) \<and> length (cl_store (renew now rs c)) = length (cl_store c) \<and>
    cl_idleSession (renew now rs c) = cl_idleSession c"
  using assms
proof (induction rs arbitrary: c)
  case (Cons i rs)
  let ?c = "c\<lparr>cl_store := (cl_store c)[i := (cl_store c ! i)\<lparr>s_idleSince := now\<rparr>]\<rparr>"
  have so: "session_ok j ((cl_store c ! j)\<lparr>s_idleSince := now\<rparr>) = session_ok j (cl_store c ! j)" for j
    by (simp add: session_ok_def armed_def)
  have io: "idle_ok (cl_store ?c) e" if "idle_ok (cl_store c) e" for e
    using that by (cases "snd e = i") (auto simp: idle_ok_def idle_key_def armed_def)
  have "session_ok j (cl_store ?c ! j)" if "j < length (cl_store c)" for j
    using Cons.prems so that by (cases "j = i") (auto simp: pool_ok_def)
  then have "pool_ok sl ?c" using Cons.prems io by (auto simp: pool_ok_def)
  then show ?case using Cons.IH [of ?c] by (simp add: renew_def)
qed (simp add: renew_def)

lemma cleanup_scan_sound:
  "cleanup_scan is exp mn act es = (cs, rs) \<Longrightarrow>
     set cs \<subseteq> set es \<and> (\<forall>e \<in> set cs. is (snd e) < exp) \<and>
     (\<forall>e \<in> set es. e \<in> set cs \<or> \<not> is (snd e) < exp \<or> snd e \<in> set rs) \<and>
     int (length es) - int (length cs) \<ge> min (int (length es)) (mn - act) \<and>
     (cs \<noteq> [] \<longrightarrow> mn \<le> act + int (length es) - int (length cs))"
proof (induction es arbitrary: act cs rs)
  case (Cons e es)
  obtain k i where e: "e = (k, i)" by (cases e)
  obtain cs1 rs1 where r1: "cleanup_scan is exp mn (act + 1) es = (cs1, rs1)" by fastforce
  obtain cs2 rs2 where r2: "cleanup_scan is exp mn act es = (cs2, rs2)" by fastforce
  consider (fresh) "\<not> is i < exp" | (few) "is i < exp" "act < mn" | (old) "is i < exp" "\<not> act < mn" by blast
  then show ?case
  proof cases
    case fresh
    then show ?thesis using Cons.prems Cons.IH [OF r1] r1 by (auto simp: e)
  next
    case few
    then show ?thesis using Cons.prems Cons.IH [OF r1] r1 by (auto simp: e)
  next
    case old
    then show ?thesis using Cons.prems Cons.IH [OF r2] r2 by (auto simp: e)
  qed
qed simp

lemma fold_Remove:
  "ordered_map sl \<Longrightarrow> set (sl_Iterate sl (fold (\<lambda>e. sl_Remove sl (fst e)) cs l)) =
     {e \<in> set (sl_Iterate sl l). fst e \<notin> fst ` set cs}"
  by (induction cs arbitrary: l) (auto simp: om_Remove)

lemma cleanup_ok:
  assumes om: "ordered_map sl" and ok: "pool_ok sl c"
  shows "pool_ok sl (idleCleanupExpTime sl now expTime c)"
proof -
  let ?es = "sl_Iterate sl (cl_idleSession c)"
  obtain cs rs where scan: "cleanup_scan (\<lambda>i. s_idleSince (cl_store c ! i)) expTime (cl_minIdleSession c) 0 ?es = (cs, rs)"
    by fastforce
  let ?c1 = "(renew now rs c)\<lparr>cl_idleSession := fold (\<lambda>e. sl_Remove sl (fst e)) cs (cl_idleSession c)\<rparr>"
  have sub: "set cs \<subseteq> set ?es" using cleanup_scan_sound [OF scan] by blast
  have rn: "pool_ok sl (renew now rs c)" "length (cl_store (renew now rs c)) = length (cl_store c)"
      "cl_idleSession (renew now rs c) = cl_idleSession c"
    using renew_ok [OF ok] by simp_all
  have less: "set (sl_Iterate sl (cl_idleSession ?c1)) \<subseteq> set ?es" using fold_Remove [OF om] by auto
  have "?es = [] \<Longrightarrow> sl_Iterate sl (cl_idleSession ?c1) = []" using less by simp
  then have c1: "pool_ok sl ?c1" using rn less by (auto simp: pool_ok_def)
  have "\<forall>e \<in> set cs. snd e < length (cl_store ?c1)"
    using sub ok rn(2) by (auto simp: pool_ok_def idle_ok_def)
  then show ?thesis using closeSessions_ok [OF om c1, of cs] scan by (simp add: idleCleanupExpTime_def Let_def)
qed

section \<open>Reachable pools\<close>

inductive pool_step :: "'l skiplist \<Rightarrow> 'l client \<Rightarrow> 'l client \<Rightarrow> bool" for sl where
  op: "i < length (cl_store c) \<Longrightarrow> (\<And>s. sess_step s (f s)) \<Longrightarrow> pool_step sl c (on_session sl now f i c)"
| create: "Suc (length (cl_store c)) < 2 ^ 64 \<Longrightarrow> pool_step sl c (fst (CreateStream sl now dial c))"
| cleanup: "pool_step sl c (idleCleanup sl now c)"
| closed: "pool_step sl c (Client_Close sl c)"

inductive pool_reachable :: "'l skiplist \<Rightarrow> 'l client \<Rightarrow> bool" for sl where
  new: "pool_reachable sl (fst (NewClient sl ev p chk t m d))"
| step: "pool_reachable sl c \<Longrightarrow> pool_step sl c c' \<Longrightarrow> pool_reachable sl c'"

lemma pool_step_ok:
  assumes om: "ordered_map sl" and "pool_step sl c c'" and ok: "pool_ok sl c"
  shows "pool_ok sl c'"
  using assms(2)
proof cases
  case (op i f now)
  then show ?thesis using on_session_ok [OF om ok op(2)] pool_rel_sess_step by blast
next
  case create
  then show ?thesis using CreateStream_ok [OF om ok] by simp
next
  case cleanup
  then show ?thesis using cleanup_ok [OF om ok] by (simp add: idleCleanup_def)
next
  case closed
  have "pool_ok sl (c\<lparr>cl_die := True, cl_sessions := []\<rparr>)" using ok by (auto simp: pool_ok_def)
  note cl = closeSessions_ok [OF om this, of "cl_sessions c"]
  have "\<forall>e \<in> set (cl_sessions c). snd e < length (cl_store c)" using ok by (simp add: pool_ok_def)
  then show ?thesis using cl closed by (simp add: Client_Close_def)
qed

lemma pool_reachable_ok: "ordered_map sl \<Longrightarrow> pool_reachable sl c \<Longrightarrow> pool_ok sl c"
proof (rotate_tac 1, induction rule: pool_reachable.induct)
  case (new ev p chk t m d)
  then show ?case by (simp add: NewClient_def pool_ok_def ordered_map_def Let_def)
next
  case (step c c')
  then show ?case using pool_step_ok by blast
qed

section \<open>What the cleanup keeps\<close>

lemma idle_key_fixed: "pool_ok sl c \<Longrightarrow> i < length (cl_store c) \<Longrightarrow> idle_key (cl_store c ! i) = MaxUint64 - word_of_nat (Suc i)"
  by (simp add: pool_ok_def session_ok_def idle_key_def)

lemma closeSession_keeps:
  assumes om: "ordered_map sl" and ok: "pool_ok sl c" and i: "i < length (cl_store c)"
  shows "{e \<in> set (sl_Iterate sl (cl_idleSession c)). fst e \<noteq> MaxUint64 - word_of_nat (Suc i)}
     \<subseteq> set (sl_Iterate sl (cl_idleSession (closeSession sl i c)))"
proof -
  obtain s' where "pool_rel (cl_store c ! i) s'" and run: "closeSession sl i c =
       (let c1 = c\<lparr>cl_store := (cl_store c)[i := s'], cl_padding := s_padding s'\<rparr>
        in if s_dieHook (cl_store c ! i) = Armed \<and> s_dieHook s' = Fired then session_dieHook sl s' c1 else c1)"
    unfolding closeSession_def using run_session_cases [OF pool_rel_Close] by blast
  then have "idle_key s' = MaxUint64 - word_of_nat (Suc i)"
    using idle_key_fixed [OF ok i] by (simp add: idle_key_def pool_rel_def)
  then show ?thesis using run om_Remove [OF om] by (auto simp: Let_def session_dieHook_def)
qed

lemma closeSessions_keep:
  assumes "ordered_map sl" and "pool_ok sl c" and "\<forall>e \<in> set es. snd e < length (cl_store c)"
  shows "{e \<in> set (sl_Iterate sl (cl_idleSession c)). \<forall>x \<in> set es. fst e \<noteq> MaxUint64 - word_of_nat (Suc (snd x))}
     \<subseteq> set (sl_Iterate sl (cl_idleSession (fold (\<lambda>e. closeSession sl (snd e)) es c)))"
  using assms
proof (induction es arbitrary: c)
  case (Cons x es)
  let ?c = "closeSession sl (snd x) c"
  have c: "pool_ok sl ?c" "length (cl_store ?c) = length (cl_store c)"
    using closeSession_ok [OF Cons.prems(1,2), of "snd x"] Cons.prems(3) by auto
  have "{e \<in> set (sl_Iterate sl (cl_idleSession c)). fst e \<noteq> MaxUint64 - word_of_nat (Suc (snd x))}
      \<subseteq> set (sl_Iterate sl (cl_idleSession ?c))"
    using closeSession_keeps [OF Cons.prems(1,2)] Cons.prems(3) by simp
  then show ?case using Cons.IH [OF Cons.prems(1) c(1)] c(2) Cons.prems(3) by auto
qed simp

lemma MaxUint64_minus_le: "MaxUint64 - a \<le> MaxUint64 - b \<longleftrightarrow> b \<le> a"
proof -
  have u: "unat (MaxUint64 - x) = unat MaxUint64 - unat x \<and> unat x \<le> unat MaxUint64" for x :: u64
    using word_order.extremum [of x] by (simp add: MaxUint64_def unat_sub word_le_nat_alt)
  show ?thesis using u [of a] u [of b] by (auto simp: word_le_nat_alt)
qed

lemma om_distinct: "ordered_map sl \<Longrightarrow> distinct (map fst (sl_Iterate sl l))"
  by (simp add: ordered_map_def strict_sorted_iff)

lemma idleCleanup_idle:
  assumes om: "ordered_map sl" and ok: "pool_ok sl c"
    and scan: "cleanup_scan (\<lambda>i. s_idleSince (cl_store c ! i)) expTime (cl_minIdleSession c) 0
      (sl_Iterate sl (cl_idleSession c)) = (cs, rs)"
  shows "set (sl_Iterate sl (cl_idleSession (idleCleanupExpTime sl now expTime c))) =
    set (sl_Iterate sl (cl_idleSession c)) - set cs"
proof -
  let ?es = "sl_Iterate sl (cl_idleSession c)"
  let ?c1 = "(renew now rs c)\<lparr>cl_idleSession := fold (\<lambda>e. sl_Remove sl (fst e)) cs (cl_idleSession c)\<rparr>"
  have sub: "set cs \<subseteq> set ?es" using cleanup_scan_sound [OF scan] by blast
  have rn: "pool_ok sl (renew now rs c)" "length (cl_store (renew now rs c)) = length (cl_store c)"
      "cl_idleSession (renew now rs c) = cl_idleSession c"
    using renew_ok [OF ok] by simp_all
  have inj: "inj_on fst (set ?es)" using om_distinct [OF om] by (simp add: distinct_map)
  have mem: "e \<in> set cs \<longleftrightarrow> fst e \<in> fst ` set cs" if "e \<in> set ?es" for e
    using inj_on_image_mem_iff [OF inj that sub] by simp
  have set1: "set (sl_Iterate sl (cl_idleSession ?c1)) = set ?es - set cs"
    using fold_Remove [OF om, of cs "cl_idleSession c"] mem by auto
  then have "?es = [] \<Longrightarrow> sl_Iterate sl (cl_idleSession ?c1) = []" by simp
  then have c1: "pool_ok sl ?c1" using rn set1 by (auto simp: pool_ok_def)
  have cs: "\<forall>e \<in> set cs. snd e < length (cl_store ?c1)" using sub ok rn(2) by (auto simp: pool_ok_def idle_ok_def)
  have key: "MaxUint64 - word_of_nat (Suc (snd x)) = fst x" if "x \<in> set cs" for x
    using that sub ok idle_key_fixed [OF ok, of "snd x"] by (auto simp: pool_ok_def idle_ok_def)
  have res: "idleCleanupExpTime sl now expTime c = fold (\<lambda>e. closeSession sl (snd e)) cs ?c1"
    using scan by (simp add: idleCleanupExpTime_def)
  have "fst e \<noteq> fst x" if "e \<in> set ?es - set cs" "x \<in> set cs" for e x
    using that mem [of e] by (metis DiffD1 DiffD2 image_eqI)
  then have "set ?es - set cs \<subseteq> set (sl_Iterate sl (cl_idleSession (idleCleanupExpTime sl now expTime c)))"
    using closeSessions_keep [OF om c1 cs] set1 key unfolding res by fastforce
  then show ?thesis using closeSessions_ok [OF om c1 cs] set1 unfolding res by auto
qed

section \<open>A skip list and a pool\<close>

text \<open>A sorted association list behaves as documented; it serves to show that the hypotheses
  below can hold.\<close>

fun ins :: "u64 \<Rightarrow> nat \<Rightarrow> (u64 \<times> nat) list \<Rightarrow> (u64 \<times> nat) list" where
  "ins k v [] = [(k, v)]"
| "ins k v (e # es) = (if k < fst e then (k, v) # e # es else if k = fst e then (k, v) # es else e # ins k v es)"

text \<open>The lists that are not sorted stand for the empty map.\<close>

definition sorted_list :: "(u64 \<times> nat) list skiplist" where
  "sorted_list = \<lparr>sl_New = [],
     sl_Insert = (\<lambda>k v l. ins k v (if sorted_wrt (<) (map fst l) then l else [])),
     sl_Remove = (\<lambda>k l. filter (\<lambda>e. fst e \<noteq> k) (if sorted_wrt (<) (map fst l) then l else [])),
     sl_Iterate = (\<lambda>l. if sorted_wrt (<) (map fst l) then l else [])\<rparr>"

lemma set_ins: "sorted_wrt (<) (map fst l) \<Longrightarrow> set (ins k v l) = insert (k, v) {e \<in> set l. fst e \<noteq> k}"
  by (induction l) (auto simp: less_le)

lemma sorted_ins: "sorted_wrt (<) (map fst l) \<Longrightarrow> sorted_wrt (<) (map fst (ins k v l))"
proof (induction l)
  case (Cons e l)
  then have "\<forall>x \<in> set (ins k v l). fst e < fst x" if "fst e < k" using that by (auto simp: set_ins)
  then show ?case using Cons by (auto intro: less_trans)
qed simp

lemma sorted_filter_keys: "sorted_wrt (<) (map fst l) \<Longrightarrow> sorted_wrt (<) (map fst (filter P l))"
  by (simp add: sorted_wrt_map sorted_wrt_filter)

lemma ordered_map_sorted_list: "ordered_map sorted_list"
  by (auto simp: ordered_map_def sorted_list_def set_ins sorted_ins sorted_filter_keys)

definition demo_pool :: "(u64 \<times> nat) list client" where
  "demo_pool = fst (NewClient sorted_list
     \<lparr>e_md5 = (\<lambda>_. ''''), e_rnd = (\<lambda>_ _. 0), e_iter = (\<lambda>m. m), e_debugPadding = False\<rparr>
     \<lparr>pf_scheme = [], pf_RawScheme = [], pf_Stop = 0, pf_Md5 = ''''\<rparr> 0 0 1 False)"

lemma demo_pool_reachable: "pool_reachable sorted_list demo_pool"
  unfolding demo_pool_def by (rule pool_reachable.new)

text \<open>The same pool after a stream was opened and closed again.\<close>

definition close_first :: "session \<Rightarrow> session" where
  "close_first s = (if 0 < length (s_store s) then fst (Stream_Close s 0) else fst (Session_Close s))"

definition demo_busy :: "(u64 \<times> nat) list client" where
  "demo_busy = fst (CreateStream sorted_list 0
     (Inr (Plain \<lparr>c_in = [], c_out = [], c_room = None, c_closed = False\<rparr>)) demo_pool)"

definition demo_idle :: "(u64 \<times> nat) list client" where
  "demo_idle = on_session sorted_list 3 close_first 0 demo_busy"

lemma demo_idle_state: "snd (getIdleSession sorted_list demo_idle) = Some 0"
    "length (cl_store demo_pool) = 0" "length (cl_store demo_busy) = 1"
  by code_simp+

section \<open>Claims\<close>



text \<open>Reuse is newest first: the session taken from the pool is alive, unused, has the largest
  sequence number of all idle sessions, and is no longer idle.\<close>

theorem getIdleSession_newest:
  assumes "ordered_map sl" and "pool_reachable sl c" and "getIdleSession sl c = (c', Some i)"
  shows "\<not> s_die (cl_store c ! i) \<and> armed (cl_store c ! i) = {} \<and> in_idle sl c i \<and> \<not> in_idle sl c' i \<and>
    (\<forall>j. in_idle sl c j \<longrightarrow> unat (s_seq (cl_store c ! j)) \<le> unat (s_seq (cl_store c ! i)))"
proof -
  note ok = pool_reachable_ok [OF assms(1,2)]
  obtain k es where es: "sl_Iterate sl (cl_idleSession c) = (k, i) # es"
    using assms(3) by (auto simp: getIdleSession_def split: list.splits)
  have "unat (s_seq (cl_store c ! j)) \<le> unat (s_seq (cl_store c ! i))" if "in_idle sl c j" for j
  proof -
    have "j \<in> snd ` set ((k, i) # es)" using that es by (simp add: in_idle_def)
    then obtain k' where k': "(k', j) \<in> set ((k, i) # es)" by (metis imageE prod.collapse)
    have "sorted_wrt (<) (map fst ((k, i) # es))" using assms(1) es by (metis ordered_map_def)
    then have "\<forall>e \<in> set es. k < fst e" by simp
    with k' have "k \<le> k'" by auto
    moreover have "k = MaxUint64 - s_seq (cl_store c ! i)" "k' = MaxUint64 - s_seq (cl_store c ! j)"
      using ok es k' by (auto simp: pool_ok_def idle_ok_def idle_key_def)
    ultimately have "s_seq (cl_store c ! j) \<le> s_seq (cl_store c ! i)"
      using MaxUint64_minus_le by blast
    then show ?thesis by (simp add: word_le_nat_alt)
  qed
  then show ?thesis using getIdleSession_ok [OF assms(1) ok assms(3)] es by (auto simp: in_idle_def)
qed

lemma demo_idle_reachable: "pool_reachable sorted_list demo_idle"
proof -
  have "sess_step s (close_first s)" for s
    by (simp add: close_first_def sess_step.closed_stream sess_step.close)
  then have "pool_step sorted_list demo_busy demo_idle"
    unfolding demo_idle_def using demo_idle_state(3) by (intro pool_step.op) simp_all
  moreover have "pool_step sorted_list demo_pool demo_busy"
    unfolding demo_busy_def by (rule pool_step.create) (simp add: demo_idle_state(2))
  ultimately show ?thesis using pool_reachable.step [OF pool_reachable.step [OF demo_pool_reachable]] by blast
qed

theorem getIdleSession_newest_witness:
  "\<not> s_die (cl_store demo_idle ! 0) \<and> armed (cl_store demo_idle ! 0) = {} \<and> in_idle sorted_list demo_idle 0"
proof -
  have "getIdleSession sorted_list demo_idle = (fst (getIdleSession sorted_list demo_idle), Some 0)"
    using demo_idle_state(1) by (simp add: prod_eq_iff)
  from getIdleSession_newest [OF ordered_map_sorted_list demo_idle_reachable this] show ?thesis by simp
qed

text \<open>C28. The cleanup closes only sessions that were idle before the given time, never brings the number
  of idle sessions below the configured minimum or below what there was, and adds none.\<close>

theorem idleCleanup_keeps_minimum:
  assumes "ordered_map sl" and "pool_reachable sl c"
    and "c' = idleCleanupExpTime sl now expTime c"
  shows "set (sl_Iterate sl (cl_idleSession c')) \<subseteq> set (sl_Iterate sl (cl_idleSession c)) \<and>
    (\<forall>e \<in> set (sl_Iterate sl (cl_idleSession c)) - set (sl_Iterate sl (cl_idleSession c')).
       s_idleSince (cl_store c ! snd e) < expTime) \<and>
    min (int (length (sl_Iterate sl (cl_idleSession c)))) (cl_minIdleSession c)
      \<le> int (length (sl_Iterate sl (cl_idleSession c')))"
proof -
  note ok = pool_reachable_ok [OF assms(1,2)]
  let ?es = "sl_Iterate sl (cl_idleSession c)" and ?es' = "sl_Iterate sl (cl_idleSession c')"
  obtain cs rs where scan: "cleanup_scan (\<lambda>i. s_idleSince (cl_store c ! i)) expTime (cl_minIdleSession c) 0 ?es = (cs, rs)"
    by fastforce
  note snd = cleanup_scan_sound [OF scan]
  have eq: "set ?es' = set ?es - set cs" unfolding assms(3) by (rule idleCleanup_idle [OF assms(1) ok scan])
  have d: "distinct ?es" "distinct ?es'" using om_distinct [OF assms(1)] by (simp_all add: distinct_map)
  have "length ?es' = card (set ?es')" using d by (simp add: distinct_card)
  also have "\<dots> \<ge> card (set ?es) - card (set cs)" unfolding eq by (rule diff_card_le_card_Diff) simp
  finally have "length ?es - length cs \<le> length ?es'"
    using distinct_card [OF d(1)] card_length [of cs] by linarith
  then have "min (int (length ?es)) (cl_minIdleSession c) \<le> int (length ?es')" using snd by linarith
  then show ?thesis using eq snd by auto
qed

theorem idleCleanup_keeps_minimum_witness:
  "1 \<le> length (sl_Iterate sorted_list (cl_idleSession (idleCleanupExpTime sorted_list 90 60 demo_idle)))"
proof -
  have "length (sl_Iterate sorted_list (cl_idleSession demo_idle)) = 1" "cl_minIdleSession demo_idle = 1"
    by code_simp+
  then show ?thesis
    using idleCleanup_keeps_minimum [OF ordered_map_sorted_list demo_idle_reachable refl, of 90 60] by simp
qed

end
