(* ===== verification/Client_Keep.thy ===== *)
theory Client_Keep
  imports Client_Inv
begin

text \<open>
  Nothing is lost from the pool of the client. Every session is closed, waits in the pool, or
  carries a living stream whose end brings it back; and closing the client closes every session.
\<close>

section \<open>Hooks of streams\<close>

text \<open>No hook is left armed on a dead stream, the streams of \<open>X\<close> aside.\<close>

definition hooks_fine :: "nat set \<Rightarrow> session \<Rightarrow> bool" where
  "hooks_fine X s \<longleftrightarrow> (\<forall>i < length (s_store s). i \<notin> X \<longrightarrow> hook_fine (s_store s ! i))"

definition keep_rel :: "session \<Rightarrow> session \<Rightarrow> bool" where
  "keep_rel s s' \<longleftrightarrow> length (s_store s) \<le> length (s_store s') \<and>
     (\<forall>r < length (s_store s). st_dieHook (s_store s' ! r) \<in> {st_dieHook (s_store s ! r), fire (st_dieHook (s_store s ! r))}) \<and>
     (\<forall>X. hooks_fine X s \<longrightarrow> hooks_fine X s')"

lemma fire_fire [simp]: "fire (fire h) = fire h"
  by (simp add: fire_def)

lemma keep_same: "s_store s' = s_store s \<Longrightarrow> keep_rel s s'"
  by (simp add: keep_rel_def hooks_fine_def)

lemma keep_rel_trans:
  assumes "keep_rel s t" "keep_rel t u"
  shows "keep_rel s u"
proof -
  have "st_dieHook (s_store u ! r) \<in> {st_dieHook (s_store s ! r), fire (st_dieHook (s_store s ! r))}" if "r < length (s_store s)" for r
  proof -
    have "st_dieHook (s_store t ! r) \<in> {st_dieHook (s_store s ! r), fire (st_dieHook (s_store s ! r))}"
      "st_dieHook (s_store u ! r) \<in> {st_dieHook (s_store t ! r), fire (st_dieHook (s_store t ! r))}"
      using assms that unfolding keep_rel_def by (meson less_le_trans)+
    then show ?thesis by auto
  qed
  then show ?thesis using assms unfolding keep_rel_def by (meson order_trans)
qed

lemma keep_Session_Close: "keep_rel s (fst (Session_Close s))"
proof (cases "s_die s")
  case False
  have cl: "st_dieHook (closeLocally x) \<in> {st_dieHook x, fire (st_dieHook x)}" "hook_fine x \<longrightarrow> hook_fine (closeLocally x)" for x
    using mild_intros(1) unfolding mild_def tame_def by blast+
  obtain st where st: "s_store (fst (Session_Close s)) = st" "length st = length (s_store s)"
      "\<forall>i < length st. st ! i = s_store s ! i \<or> st ! i = closeLocally (s_store s ! i)"
    using Session_Close_open [OF False] by fastforce
  have "st_dieHook (st ! i) \<in> {st_dieHook (s_store s ! i), fire (st_dieHook (s_store s ! i))} \<and> (hook_fine (s_store s ! i) \<longrightarrow> hook_fine (st ! i))"
    if "i < length st" for i
    using st(3) that cl by (metis insertI1)
  then show ?thesis using st(1,2) by (simp add: keep_rel_def hooks_fine_def)
qed (simp add: Session_Close_def keep_same)

interpretation keep_writes: write_rel keep_rel
proof unfold_locales
  show "keep_rel s s'" if "doWriteConn s b bp = (s', y)" for s b bp s' y
    using doWriteConn_frame [OF that] by (simp add: write_frame_rel_def keep_same)
qed (auto intro: keep_same keep_rel_trans keep_Session_Close)

lemma keep_update:
  assumes "tame f" "\<And>st. hook_fine st \<Longrightarrow> hook_fine (f st)"
  shows "keep_rel s (update_stream f r s)"
  using assms by (auto simp: keep_rel_def hooks_fine_def nth_store_update_stream tame_def)

lemma keep_streamClosed: "keep_rel s (fst (streamClosed s sid))"
proof -
  have "keep_rel s (t\<lparr>s_streams := m\<rparr>)" if "keep_rel s t" for t m using that by (simp add: keep_rel_def hooks_fine_def)
  then show ?thesis using keep_writes.rel_writeControlFrame
    by (auto simp: streamClosed_def Let_def case_prod_unfold keep_same)
qed

text \<open>Closing a stream marks it dead first and runs its hook last.\<close>

lemma keep_closeWithError: "keep_rel s (fst (closeWithError s r e))"
proof (cases "st_dieOnce (s_store s ! r)")
  case False
  let ?f = "\<lambda>st. st\<lparr>st_dieOnce := True, st_dieErr := Some e, st_pipeDone := True\<rparr>"
  let ?g = "\<lambda>st. st\<lparr>st_dieHook := fire (st_dieHook st)\<rparr>"
  define s1 where "s1 = update_stream ?f r s"
  define s2 where "s2 = fst (streamClosed s1 (st_id (s_store s ! r)))"
  have eq: "fst (closeWithError s r e) = update_stream ?g r s2"
    using False by (simp add: closeWithError_def Let_def case_prod_unfold s1_def s2_def)
  have k: "keep_rel s1 s2" unfolding s2_def by (rule keep_streamClosed)
  have h1: "length (s_store s1) = length (s_store s)" "\<And>i. i < length (s_store s) \<Longrightarrow> st_dieHook (s_store s1 ! i) = st_dieHook (s_store s ! i)"
    by (simp_all add: s1_def nth_store_update_stream)
  have "hooks_fine X (update_stream ?g r s2)" if "hooks_fine X s" for X
  proof -
    have "hooks_fine (insert r X) s1" using that by (auto simp: hooks_fine_def s1_def nth_store_update_stream)
    then have "hooks_fine (insert r X) s2" using k by (simp add: keep_rel_def)
    then show ?thesis by (auto simp: hooks_fine_def nth_store_update_stream hook_fine_def fire_def)
  qed
  moreover have "st_dieHook (s_store (update_stream ?g r s2) ! i) \<in> {st_dieHook (s_store s ! i), fire (st_dieHook (s_store s ! i))}"
    if i: "i < length (s_store s)" for i
  proof -
    have "st_dieHook (s_store s2 ! i) \<in> {st_dieHook (s_store s ! i), fire (st_dieHook (s_store s ! i))}" "i < length (s_store s2)"
      using k h1 i unfolding keep_rel_def by auto
    then show ?thesis by (auto simp: nth_store_update_stream)
  qed
  ultimately show ?thesis using k h1(1) unfolding eq keep_rel_def by simp
qed (simp add: closeWithError_def Let_def keep_same)

interpretation keeping: operation_rel keep_rel
proof unfold_locales
  show "keep_rel s (update_stream f r s)" if "mild f" for f s r using that by (auto simp: mild_def intro: keep_update)
  show "keep_rel s (fst (closeWithError s r e))" for s r e by (rule keep_closeWithError)
  show "keep_rel s (s\<lparr>s_store := s_store s @ [newStream sid], s_streams := m\<rparr>)" for s sid m
    by (auto simp: keep_rel_def hooks_fine_def nth_append hook_fine_def newStream_def)
qed (simp_all add: keep_same)

lemma keep_sess_step: "sess_step s s' \<Longrightarrow> keep_rel s s'"
  by (erule keeping.rel_sess_step) (simp add: keep_same)

section \<open>What the pool keeps\<close>

definition placed :: "'l skiplist \<Rightarrow> 'l client \<Rightarrow> nat \<Rightarrow> bool" where
  "placed sl c i \<longleftrightarrow> s_die (cl_store c ! i) \<or> in_idle sl c i \<or> armed (cl_store c ! i) \<noteq> {}"

text \<open>The sessions of \<open>J\<close> are those an operation in progress holds in its hands.\<close>

definition kept_but :: "nat set \<Rightarrow> 'l skiplist \<Rightarrow> 'l client \<Rightarrow> bool" where
  "kept_but J sl c \<longleftrightarrow> (\<forall>i < length (cl_store c). hooks_fine {} (cl_store c ! i) \<and> (i \<notin> J \<longrightarrow> placed sl c i) \<and>
     (\<not> s_die (cl_store c ! i) \<longrightarrow> (s_seq (cl_store c ! i), i) \<in> set (cl_sessions c)))"

lemma kept_but_mono: "kept_but J sl c \<Longrightarrow> J \<subseteq> K \<Longrightarrow> kept_but K sl c"
  by (auto simp: kept_but_def)

lemma idle_key_inj:
  assumes "pool_ok sl c" "i < length (cl_store c)" "j < length (cl_store c)" "idle_key (cl_store c ! i) = idle_key (cl_store c ! j)"
  shows "i = j"
  using seq_inj [OF assms(1-3)] assms(4) by (simp add: idle_key_def)

lemma run_session_frame:
  assumes om: "ordered_map sl" and ok: "pool_ok sl c" and i: "i < length (cl_store c)"
    and f: "\<And>s. pool_rel s (f s)" "\<And>s. keep_rel s (f s)"
  defines "c' \<equiv> run_session sl f i c"
  shows "cl_store c' ! i = f ((cl_store c ! i)\<lparr>s_padding := cl_padding c\<rparr>)" "j \<noteq> i \<Longrightarrow> cl_store c' ! j = cl_store c ! j"
    "j < length (cl_store c) \<Longrightarrow> in_idle sl c j \<Longrightarrow> j \<noteq> i \<or> \<not> s_die (cl_store c' ! i) \<Longrightarrow> in_idle sl c' j"
    "j < length (cl_store c) \<Longrightarrow> (s_seq (cl_store c ! j), j) \<in> set (cl_sessions c) \<Longrightarrow> j \<noteq> i \<or> \<not> s_die (cl_store c' ! i) \<Longrightarrow>
      (s_seq (cl_store c' ! j), j) \<in> set (cl_sessions c')"
proof -
  let ?s0 = "(cl_store c ! i)\<lparr>s_padding := cl_padding c\<rparr>"
  define s' where "s' = f ?s0"
  have rel: "pool_rel (cl_store c ! i) s'" unfolding s'_def by (rule pool_rel_padding [OF f(1)])
  have old: "session_ok i (cl_store c ! i)" using ok i by (simp add: pool_ok_def)
  have key: "s_seq s' = s_seq (cl_store c ! i)" "idle_key s' = idle_key (cl_store c ! i)" using rel by (simp_all add: pool_rel_def idle_key_def)
  have c': "c' = (let c1 = c\<lparr>cl_store := (cl_store c)[i := s'], cl_padding := s_padding s'\<rparr>
        in if s_dieHook (cl_store c ! i) = Armed \<and> s_dieHook s' = Fired then session_dieHook sl s' c1 else c1)"
    by (simp add: c'_def run_session_def Let_def s'_def)
  have dead: "s_die s'" if "s_dieHook (cl_store c ! i) = Armed" "s_dieHook s' = Fired"
    using rel old that by (auto simp: pool_rel_def session_ok_def split: if_splits)
  have st: "cl_store c' = (cl_store c)[i := s']" by (simp add: c' Let_def session_dieHook_def)
  show si: "cl_store c' ! i = f ?s0" using i by (simp add: st s'_def)
  show "cl_store c' ! j = cl_store c ! j" if "j \<noteq> i" using that by (simp add: st)
  have ni: "c' = c\<lparr>cl_store := (cl_store c)[i := s'], cl_padding := s_padding s'\<rparr>" if "\<not> s_die s'"
    using dead that by (auto simp: c' Let_def)
  show "in_idle sl c' j" if j: "j < length (cl_store c)" "in_idle sl c j" "j \<noteq> i \<or> \<not> s_die (cl_store c' ! i)"
  proof (cases "s_die s'")
    case False
    then show ?thesis using j(2) by (simp add: ni in_idle_def)
  next
    case True
    then have ne: "j \<noteq> i" using j(3) si by (simp add: s'_def)
    obtain e where e: "e \<in> set (sl_Iterate sl (cl_idleSession c))" "snd e = j" using j(2) by (auto simp: in_idle_def)
    then have "fst e = idle_key (cl_store c ! j)" using ok by (auto simp: pool_ok_def idle_ok_def)
    then have "fst e \<noteq> idle_key s'" using idle_key_inj [OF ok j(1) i] ne key(2) by auto
    then show ?thesis using e om_Remove [OF om] by (auto simp: c' Let_def session_dieHook_def in_idle_def)
  qed
  show "(s_seq (cl_store c' ! j), j) \<in> set (cl_sessions c')"
    if j: "j < length (cl_store c)" "(s_seq (cl_store c ! j), j) \<in> set (cl_sessions c)" "j \<noteq> i \<or> \<not> s_die (cl_store c' ! i)"
  proof (cases "s_die s'")
    case False
    then show ?thesis using j i key(1) by (auto simp: ni nth_list_update)
  next
    case True
    then have ne: "j \<noteq> i" using j(3) si by (simp add: s'_def)
    have "s_seq (cl_store c ! j) \<noteq> s_seq s'" using seq_inj [OF ok j(1) i] ne key(1) by auto
    then show ?thesis using j(2) ne by (auto simp: c' Let_def session_dieHook_def AList.delete_eq)
  qed
qed

lemma keep_padding: "keep_rel (s\<lparr>s_padding := p\<rparr>) s' \<Longrightarrow> keep_rel s s'"
  by (simp add: keep_rel_def hooks_fine_def)

lemma run_session_kept:
  assumes om: "ordered_map sl" and ok: "pool_ok sl c" and i: "i < length (cl_store c)"
    and f: "\<And>s. pool_rel s (f s)" "\<And>s. keep_rel s (f s)" and k: "kept_but J sl c"
  shows "kept_but (insert i J) sl (run_session sl f i c)" "keep_rel (cl_store c ! i) (cl_store (run_session sl f i c) ! i)"
proof -
  let ?c = "run_session sl f i c"
  note fr = run_session_frame [OF om ok i f]
  have len: "length (cl_store ?c) = length (cl_store c)" using run_session_ok [OF om ok i f(1)] by simp
  show kr: "keep_rel (cl_store c ! i) (cl_store ?c ! i)" unfolding fr(1) by (rule keep_padding [OF f(2)])
  have die: "s_die (cl_store c ! i) \<longrightarrow> s_die (cl_store ?c ! i)"
    using run_session_ok [OF om ok i f(1)] by (simp add: pool_rel_def)
  have "hooks_fine {} (cl_store ?c ! j) \<and> (j \<notin> insert i J \<longrightarrow> placed sl ?c j) \<and>
      (\<not> s_die (cl_store ?c ! j) \<longrightarrow> (s_seq (cl_store ?c ! j), j) \<in> set (cl_sessions ?c))" if j: "j < length (cl_store c)" for j
  proof (cases "j = i")
    case True
    have "hooks_fine {} (cl_store ?c ! i)" using kr k i by (simp add: keep_rel_def kept_but_def)
    then show ?thesis using True fr(4) [OF i] die k i by (auto simp: kept_but_def)
  next
    case False
    have kj: "hooks_fine {} (cl_store c ! j)" "j \<notin> J \<longrightarrow> placed sl c j"
        "\<not> s_die (cl_store c ! j) \<longrightarrow> (s_seq (cl_store c ! j), j) \<in> set (cl_sessions c)"
      using k j by (simp_all add: kept_but_def)
    have "placed sl c j \<longrightarrow> placed sl ?c j" using fr(2) [OF False] fr(3) [OF j _ disjI1 [OF False]] by (auto simp: placed_def)
    then show ?thesis using kj fr(2) [OF False] fr(4) [OF j _ disjI1 [OF False]] by auto
  qed
  then show "kept_but (insert i J) sl ?c" by (simp add: kept_but_def len)
qed

lemma keep_Close_fn: "keep_rel s (fst (Session_Close s))"
  by (rule keep_Session_Close)

lemma closeSession_kept:
  assumes "ordered_map sl" and "pool_ok sl c" and "i < length (cl_store c)" and "kept_but (insert i J) sl c"
  shows "kept_but J sl (closeSession sl i c)" "s_die (cl_store (closeSession sl i c) ! i)"
proof -
  let ?c = "closeSession sl i c"
  show d: "s_die (cl_store ?c ! i)"
    unfolding closeSession_def run_session_frame(1) [OF assms(1-3) pool_rel_Close keep_Close_fn] by simp
  have "kept_but (insert i (insert i J)) sl ?c"
    unfolding closeSession_def by (rule run_session_kept(1) [OF assms(1-3) pool_rel_Close keep_Close_fn assms(4)])
  then show "kept_but J sl ?c" using d by (auto simp: kept_but_def placed_def)
qed

lemma kept_idle_time:
  "kept_but J sl (c\<lparr>cl_store := (cl_store c)[i := (cl_store c ! i)\<lparr>s_idleSince := now\<rparr>]\<rparr>) = kept_but J sl c"
proof -
  have "(cl_store c)[i := (cl_store c ! i)\<lparr>s_idleSince := now\<rparr>] ! j =
      (if j = i \<and> i < length (cl_store c) then (cl_store c ! j)\<lparr>s_idleSince := now\<rparr> else cl_store c ! j)" for j
    by (cases "i < length (cl_store c)") (auto simp: nth_list_update list_update_beyond)
  then show ?thesis by (auto simp: kept_but_def placed_def in_idle_def armed_def hooks_fine_def)
qed

lemma stream_dieHook_kept:
  assumes om: "ordered_map sl" and ok: "pool_ok sl c" and i: "i < length (cl_store c)" and k: "kept_but (insert i J) sl c"
  shows "kept_but J sl (stream_dieHook sl now i c)"
proof (cases "s_die (cl_store c ! i)")
  case True
  then have "kept_but J sl c" using k by (auto simp: kept_but_def placed_def)
  then show ?thesis using True by (simp add: stream_dieHook_def Session_IsClosed_def Let_def)
next
  case False
  show ?thesis
  proof (cases "cl_disableReuse c \<or> cl_die c")
    case True
    then show ?thesis using False closeSession_kept(1) [OF om ok i k]
      by (auto simp: stream_dieHook_def Session_IsClosed_def Let_def)
  next
    case F: False
    let ?l = "sl_Insert sl (idle_key (cl_store c ! i)) i (cl_idleSession c)"
    have "in_idle sl (c\<lparr>cl_idleSession := ?l\<rparr>) j" if "in_idle sl c j" "j < length (cl_store c)" for j
    proof (cases "j = i")
      case False
      obtain e where e: "e \<in> set (sl_Iterate sl (cl_idleSession c))" "snd e = j" using \<open>in_idle sl c j\<close> by (auto simp: in_idle_def)
      then have "fst e \<noteq> idle_key (cl_store c ! i)"
        using ok idle_key_inj [OF ok that(2) i] False by (auto simp: pool_ok_def idle_ok_def)
      then show ?thesis using e om_Insert [OF om] by (auto simp: in_idle_def)
    qed (use om_Insert [OF om] in \<open>simp add: in_idle_def\<close>)
    moreover have "in_idle sl (c\<lparr>cl_idleSession := ?l\<rparr>) i" using om_Insert [OF om] by (simp add: in_idle_def)
    ultimately have "kept_but J sl (c\<lparr>cl_idleSession := ?l\<rparr>)" using k by (auto simp: kept_but_def placed_def)
    then have "kept_but J sl (c\<lparr>cl_idleSession := ?l, cl_store := (cl_store c)[i := (cl_store c ! i)\<lparr>s_idleSince := now\<rparr>]\<rparr>)"
      using kept_idle_time [of J sl "c\<lparr>cl_idleSession := ?l\<rparr>" i now] by simp
    moreover have "c\<lparr>cl_store := x, cl_idleSession := y\<rparr> = c\<lparr>cl_idleSession := y, cl_store := x\<rparr>" for x y by simp
    ultimately show ?thesis using False F by (simp only: stream_dieHook_def Session_IsClosed_def Let_def) simp
  qed
qed

lemma stream_hooks_kept:
  assumes om: "ordered_map sl"
  shows "pool_ok sl c \<Longrightarrow> i < length (cl_store c) \<Longrightarrow> armed (cl_store c ! i) = {} \<Longrightarrow> kept_but (insert i J) sl c \<Longrightarrow> rs \<noteq> [] \<Longrightarrow>
    kept_but J sl (fold (\<lambda>_. stream_dieHook sl now i) rs c)"
proof (induction rs arbitrary: c)
  case (Cons r rs)
  let ?c = "stream_dieHook sl now i c"
  have k: "kept_but J sl ?c" by (rule stream_dieHook_kept [OF om Cons.prems(1,2,4)])
  show ?case
  proof (cases "rs = []")
    case False
    have "kept_but (insert i J) sl ?c" by (rule kept_but_mono [OF k]) blast
    then show ?thesis using Cons.IH [of ?c] stream_dieHook_ok [OF om Cons.prems(1-3), of now] Cons.prems(2) False by simp
  qed (use k in simp)
qed simp

lemma on_session_kept:
  assumes om: "ordered_map sl" and ok: "pool_ok sl c" and i: "i < length (cl_store c)"
    and f: "\<And>s. pool_rel s (f s)" "\<And>s. keep_rel s (f s)" and k: "kept_but J sl c"
  shows "kept_but J sl (on_session sl now f i c)"
proof -
  let ?c1 = "run_session sl f i c"
  let ?rs = "fired_streams (cl_store c ! i) (cl_store ?c1 ! i)"
  note run = run_session_ok [OF om ok i f(1)] and rk = run_session_kept [OF om ok i f k] and fr = run_session_frame [OF om ok i f]
  have so: "session_ok i (cl_store c ! i)" using ok i by (simp add: pool_ok_def)
  show ?thesis
  proof (cases "?rs = []")
    case False
    have a: "armed (cl_store ?c1 ! i) = {}" using fired_unarms [OF so _ False] run by blast
    have "kept_but J sl (fold (\<lambda>_. stream_dieHook sl now i) ?rs ?c1)"
      by (rule stream_hooks_kept [OF om _ _ a rk(1) False]) (use run i in simp_all)
    then show ?thesis by (simp add: on_session_def Let_def)
  next
    case True
    have "placed sl ?c1 i" if p: "placed sl c i"
    proof (cases "s_die (cl_store ?c1 ! i)")
      case alive: False
      then have "\<not> s_die (cl_store c ! i)" using run by (auto simp: pool_rel_def)
      then consider "in_idle sl c i" | r where "r \<in> armed (cl_store c ! i)" using p by (auto simp: placed_def)
      then show ?thesis
      proof cases
        case 1
        then show ?thesis using fr(3) [OF i] alive by (simp add: placed_def)
      next
        case (2 r)
        have "st_dieHook (s_store (cl_store ?c1 ! i) ! r) \<in> {Armed, Fired}" "r < length (s_store (cl_store ?c1 ! i))"
          using 2 rk(2) by (auto simp: armed_def keep_rel_def fire_def)
        moreover have "r \<notin> set ?rs" using True by simp
        ultimately have "r \<in> armed (cl_store ?c1 ! i)" using 2 by (auto simp: armed_def fired_streams_def)
        then show ?thesis by (auto simp: placed_def)
      qed
    qed (simp add: placed_def)
    then have "kept_but J sl ?c1" using rk(1) k i by (auto simp: kept_but_def)
    then show ?thesis using True by (simp add: on_session_def Let_def)
  qed
qed

lemma OpenStream_new:
  assumes "snd (OpenStream s) = Inr r"
  shows "r < length (s_store (fst (OpenStream s)))" "\<not> st_dieOnce (s_store (fst (OpenStream s)) ! r)"
proof -
  obtain s4 sid where "OpenStream s = (register sid s4, Inr r)" "r = length (s_store s4)"
    using assms by (auto simp: OpenStream_def Let_def split: if_splits prod.splits sum.splits)
  then show "r < length (s_store (fst (OpenStream s)))" "\<not> st_dieOnce (s_store (fst (OpenStream s)) ! r)"
    by (simp_all add: register_def newStream_def)
qed

lemma openOn_kept:
  assumes om: "ordered_map sl" and ok: "pool_ok sl c" and i: "i < length (cl_store c)" "armed (cl_store c ! i) = {}"
    "\<not> in_idle sl c i" and k: "kept_but {i} sl c"
  shows "kept_but {} sl (fst (openOn sl now i c))"
proof -
  let ?f = "\<lambda>s. fst (OpenStream s)" and ?s = "(cl_store c ! i)\<lparr>s_padding := cl_padding c\<rparr>"
  have f: "pool_rel s (?f s)" "keep_rel s (?f s)" for s by (rule pooling.rel_OpenStream, rule keeping.rel_OpenStream)
  define c1 where "c1 = run_session sl ?f i c"
  have on: "on_session sl now ?f i c = c1" unfolding c1_def by (rule on_session_unarmed [OF om ok i(1,2) f(1)])
  have run: "pool_ok sl c1" "i < length (cl_store c1)"
    using run_session_ok [OF om ok i(1) f(1)] i unfolding c1_def by auto
  have k1: "kept_but {i} sl c1" using run_session_kept(1) [OF om ok i(1) f k] by (simp add: c1_def)
  show ?thesis
  proof (cases "snd (OpenStream ?s)")
    case (Inl e)
    then show ?thesis using closeSession_kept(1) [OF om run] k1 by (simp add: openOn_def Let_def on)
  next
    case (Inr r)
    have s1: "cl_store c1 ! i = fst (OpenStream ?s)" unfolding c1_def by (rule run_session_frame(1) [OF om ok i(1) f])
    note new = OpenStream_new [OF Inr, folded s1]
    let ?t = "update_stream (\<lambda>st. st\<lparr>st_dieHook := Armed\<rparr>) r (cl_store c1 ! i)"
    have "r \<in> armed ?t" using new(1) by (simp add: armed_def nth_store_update_stream)
    moreover have "hooks_fine {} ?t"
      using new k1 run(2) by (auto simp: kept_but_def hooks_fine_def nth_store_update_stream hook_fine_def)
    ultimately have "kept_but {} sl (c1\<lparr>cl_store := (cl_store c1)[i := ?t]\<rparr>)"
      using k1 run(2) by (auto simp: kept_but_def placed_def in_idle_def nth_list_update)
    then show ?thesis using Inr by (simp add: openOn_def Let_def on)
  qed
qed

lemma getIdleSession_kept:
  assumes "getIdleSession sl c = (c', x)" "kept_but {} sl c" "ordered_map sl" "pool_ok sl c"
  shows "kept_but (set_option x) sl c'"
proof (cases "sl_Iterate sl (cl_idleSession c)")
  case Nil
  then show ?thesis using assms(1,2) by (auto simp: getIdleSession_def)
next
  case (Cons e es)
  obtain k i where e: "e = (k, i)" by (cases e)
  have c': "c' = c\<lparr>cl_idleSession := sl_Remove sl k (cl_idleSession c)\<rparr>" "x = Some i"
    using assms(1) Cons e by (auto simp: getIdleSession_def)
  have io: "idle_ok (cl_store c) (k, i)" using assms(4) Cons e by (simp add: pool_ok_def)
  have "in_idle sl c' j" if j: "in_idle sl c j" "j \<noteq> i" for j
  proof -
    obtain d where d: "d \<in> set (sl_Iterate sl (cl_idleSession c))" "snd d = j" using j(1) by (auto simp: in_idle_def)
    then have dk: "idle_ok (cl_store c) d" using assms(4) by (simp add: pool_ok_def)
    then have "fst d \<noteq> k" using idle_key_inj [OF assms(4), of j i] io j(2) d(2) by (auto simp: idle_ok_def)
    then show ?thesis using d om_Remove [OF assms(3)] by (auto simp: in_idle_def c')
  qed
  then show ?thesis using assms(2) by (auto simp: kept_but_def placed_def c')
qed

lemma createSession_kept:
  assumes om: "ordered_map sl" and ok: "pool_ok sl c" and room: "Suc (length (cl_store c)) < 2 ^ 64"
    and g: "createSession sl now dial c = (c', x)" and k: "kept_but {} sl c"
  shows "kept_but (case x of Inl e \<Rightarrow> {} | Inr i \<Rightarrow> {i}) sl c'"
proof (cases dial)
  case (Inl e)
  then show ?thesis using g k by (auto simp: createSession_def)
next
  case (Inr cn)
  define sq where "sq = cl_sessionCounter c + 1"
  define s where "s = (NewClientSession (cl_env c) cn (cl_padding c))\<lparr>s_seq := sq, s_dieHook := Armed\<rparr>"
  let ?i = "length (cl_store c)"
  define c1 where "c1 = c\<lparr>cl_sessionCounter := sq, cl_store := cl_store c @ [s], cl_sessions := AList.update sq ?i (cl_sessions c)\<rparr>"
  have c': "c' = on_session sl now Session_Run ?i c1" "x = Inr ?i"
    using g Inr by (simp_all add: createSession_def c1_def s_def sq_def Let_def)
  have s: "s_seq s = word_of_nat (Suc ?i)" "sq = word_of_nat (Suc ?i)" "s_store s = []" "armed s = {}" "s_dieHook s = Armed" "\<not> s_die s"
    using ok by (simp_all add: s_def sq_def NewClientSession_def pool_ok_def armed_def)
  have idle: "idle_ok (cl_store c @ [s]) e" if "idle_ok (cl_store c) e" for e using that by (simp add: idle_ok_def nth_append)
  have ok1: "pool_ok sl c1"
    using ok s idle room set_update_subset [of sq ?i "cl_sessions c"]
    by (fastforce simp: pool_ok_def c1_def nth_append session_ok_def less_Suc_eq)
  have i1: "?i < length (cl_store c1)" "armed (cl_store c1 ! ?i) = {}" using s by (simp_all add: c1_def)
  have new: "s_seq (cl_store c ! j) \<noteq> sq" if "j < ?i" for j
    using seq_inj [OF ok1, of j ?i] that s(1,2) by (auto simp: c1_def nth_append)
  have up: "(q, j) \<in> set (AList.update sq ?i m)" if "(q, j) \<in> set m" "q \<noteq> sq" for q j m
    using that by (induction m) auto
  have self: "(sq, ?i) \<in> set (AList.update sq ?i m)" for m by (induction m) auto
  have "kept_but {?i} sl c1"
    using k new up self s by (auto simp: kept_but_def placed_def in_idle_def c1_def nth_append less_Suc_eq hooks_fine_def)
  then show ?thesis
    using on_session_kept [OF om ok1 i1(1) pooling.rel_Session_Run keeping.rel_Session_Run] c' by simp
qed

lemma CreateStream_kept:
  assumes om: "ordered_map sl" and ok: "pool_ok sl c" and room: "Suc (length (cl_store c)) < 2 ^ 64" and k: "kept_but {} sl c"
  shows "kept_but {} sl (fst (CreateStream sl now dial c))"
proof (cases "cl_die c")
  case True
  then show ?thesis using k by (simp add: CreateStream_def)
next
  case False
  obtain c1 idle where g: "(if \<not> cl_disableReuse c then getIdleSession sl c else (c, None)) = (c1, idle)" by fastforce
  have ok1: "pool_ok sl c1" "cl_store c1 = cl_store c" "kept_but (set_option idle) sl c1"
      "\<And>i. idle = Some i \<Longrightarrow> i < length (cl_store c1) \<and> armed (cl_store c1 ! i) = {} \<and> \<not> in_idle sl c1 i"
    using getIdleSession_ok [OF om ok, of c1 idle] getIdleSession_kept [OF _ k om ok, of c1 idle] g ok k by (auto split: if_splits)
  show ?thesis
  proof (cases idle)
    case (Some i)
    then show ?thesis using False g openOn_kept [OF om ok1(1)] ok1(3,4) by (simp add: CreateStream_def)
  next
    case None
    obtain c2 x where c2: "createSession sl now dial c1 = (c2, x)" by fastforce
    have r: "Suc (length (cl_store c1)) < 2 ^ 64" using room ok1(2) by simp
    have k1: "kept_but {} sl c1" using ok1(3) None by simp
    have ok2: "pool_ok sl c2"
        "\<And>i. x = Inr i \<Longrightarrow> i < length (cl_store c2) \<and> armed (cl_store c2 ! i) = {} \<and> \<not> in_idle sl c2 i"
      using createSession_ok [OF om ok1(1) r c2] by auto
    have k2: "kept_but (case x of Inl e \<Rightarrow> {} | Inr i \<Rightarrow> {i}) sl c2" by (rule createSession_kept [OF om ok1(1) r c2 k1])
    show ?thesis using False g None c2 openOn_kept [OF om ok2(1)] ok2(2) k2
      by (cases x) (auto simp: CreateStream_def)
  qed
qed

lemma closeSessions_kept:
  assumes om: "ordered_map sl"
  shows "pool_ok sl c \<Longrightarrow> \<forall>e \<in> set es. snd e < length (cl_store c) \<Longrightarrow> kept_but (snd ` set es \<union> J) sl c \<Longrightarrow>
    kept_but J sl (fold (\<lambda>e. closeSession sl (snd e)) es c)"
proof (induction es arbitrary: c)
  case (Cons e es)
  let ?c = "closeSession sl (snd e) c"
  have ok: "pool_ok sl ?c" "length (cl_store ?c) = length (cl_store c)"
    using closeSession_ok [OF om Cons.prems(1), of "snd e"] Cons.prems(2) by auto
  have "kept_but (insert (snd e) (snd ` set es \<union> J)) sl c" using Cons.prems(3) by simp
  then have "kept_but (snd ` set es \<union> J) sl ?c" using closeSession_kept(1) [OF om Cons.prems(1)] Cons.prems(2) by simp
  then show ?case using Cons.IH [OF ok(1)] ok(2) Cons.prems(2) by simp
qed simp

lemma renew_kept: "kept_but J sl (renew now rs c) = kept_but J sl c"
  unfolding renew_def by (induction rs arbitrary: c) (simp_all add: kept_idle_time)

lemma cleanup_kept:
  assumes om: "ordered_map sl" and ok: "pool_ok sl c" and k: "kept_but {} sl c"
  shows "kept_but {} sl (idleCleanupExpTime sl now expTime c)"
proof -
  let ?es = "sl_Iterate sl (cl_idleSession c)"
  obtain cs rs where scan: "cleanup_scan (\<lambda>i. s_idleSince (cl_store c ! i)) expTime (cl_minIdleSession c) 0 ?es = (cs, rs)"
    by fastforce
  let ?r = "renew now rs c"
  let ?c1 = "?r\<lparr>cl_idleSession := fold (\<lambda>e. sl_Remove sl (fst e)) cs (cl_idleSession c)\<rparr>"
  have sub: "set cs \<subseteq> set ?es" using cleanup_scan_sound [OF scan] by blast
  have rn: "pool_ok sl ?r" "length (cl_store ?r) = length (cl_store c)" "cl_idleSession ?r = cl_idleSession c"
    using renew_ok [OF ok] by simp_all
  have fr: "set (sl_Iterate sl (cl_idleSession ?c1)) = {e \<in> set ?es. fst e \<notin> fst ` set cs}" using fold_Remove [OF om] by simp
  have "?es = [] \<Longrightarrow> sl_Iterate sl (cl_idleSession ?c1) = []" using fr by simp
  then have c1: "pool_ok sl ?c1" using rn fr by (auto simp: pool_ok_def)
  have "in_idle sl ?c1 j" if j: "in_idle sl ?r j" "j \<notin> snd ` set cs" for j
  proof -
    obtain d where d: "d \<in> set ?es" "snd d = j" using j(1) rn(3) by (auto simp: in_idle_def)
    have "fst d \<notin> fst ` set cs"
    proof
      assume "fst d \<in> fst ` set cs"
      then obtain e where e: "e \<in> set cs" "fst e = fst d" by auto
      have "e \<in> set ?es" using e(1) sub by (rule set_rev_mp)
      then have "idle_ok (cl_store c) d" "idle_ok (cl_store c) e" using ok d(1) unfolding pool_ok_def by blast+
      then have "snd e = snd d" unfolding idle_ok_def using e(2) by (intro idle_key_inj [OF ok]) simp_all
      then show False using j(2) e(1) d(2) by auto
    qed
    then show ?thesis using d fr by (force simp: in_idle_def)
  qed
  then have "kept_but (snd ` set cs \<union> {}) sl ?c1"
    using k [folded renew_kept [of "{}" sl now rs c]] by (auto simp: kept_but_def placed_def)
  moreover have "\<forall>e \<in> set cs. snd e < length (cl_store ?c1)" using sub ok rn(2) by (auto simp: pool_ok_def idle_ok_def)
  ultimately show ?thesis using closeSessions_kept [OF om c1, of cs "{}"] scan by (simp add: idleCleanupExpTime_def Let_def)
qed

section \<open>A closed client\<close>

definition all_dead :: "'l client \<Rightarrow> bool" where
  "all_dead c \<longleftrightarrow> (\<forall>i < length (cl_store c). s_die (cl_store c ! i))"

lemma run_session_die [simp]: "cl_die (run_session sl f i c) = cl_die c"
  by (simp add: run_session_def session_dieHook_def Let_def)

lemma stream_dieHook_die [simp]: "cl_die (stream_dieHook sl now i c) = cl_die c"
  by (simp add: stream_dieHook_def closeSession_def Let_def)

lemma on_session_die [simp]: "cl_die (on_session sl now f i c) = cl_die c"
proof -
  have "cl_die (fold (\<lambda>_. stream_dieHook sl now i) rs d) = cl_die d" for rs :: "nat list" and d :: "'a client"
    by (induction rs arbitrary: d) simp_all
  then show ?thesis by (simp add: on_session_def Let_def)
qed

lemma closeSessions_die [simp]: "cl_die (fold (\<lambda>e. closeSession sl (snd e)) es c) = cl_die c"
  by (induction es arbitrary: c) (simp_all add: closeSession_def)

lemma renew_die [simp]: "cl_die (renew now rs c) = cl_die c"
  unfolding renew_def by (induction rs arbitrary: c) simp_all

lemma idleCleanup_die [simp]: "cl_die (idleCleanup sl now c) = cl_die c"
  by (simp add: idleCleanup_def idleCleanupExpTime_def Let_def case_prod_unfold)

lemma openOn_die [simp]: "cl_die (fst (openOn sl now i c)) = cl_die c"
  by (simp add: openOn_def closeSession_def Let_def split: sum.split)

lemma CreateStream_die [simp]: "cl_die (fst (CreateStream sl now dial c)) = cl_die c"
  by (auto simp: CreateStream_def getIdleSession_def createSession_def Let_def split: option.split prod.split list.split sum.split)

lemma on_session_dead:
  assumes "ordered_map sl" "pool_ok sl c" "i < length (cl_store c)" "\<And>s. pool_rel s (f s)" "\<And>s. keep_rel s (f s)" "all_dead c"
  shows "all_dead (on_session sl now f i c)"
proof -
  let ?c1 = "run_session sl f i c"
  note ok = run_session_ok [OF assms(1-4)] and fr = run_session_frame [OF assms(1-5)]
  have "s_die (cl_store ?c1 ! j)" if "j < length (cl_store c)" for j
    using ok fr(2) [of j] that assms(3,6) by (cases "j = i") (auto simp: all_dead_def pool_rel_def)
  then have d: "all_dead ?c1" using ok by (simp add: all_dead_def)
  have "fold (\<lambda>_. stream_dieHook sl now i) rs ?c1 = ?c1" for rs :: "nat list"
    using d ok assms(3) by (induction rs) (simp_all add: stream_dieHook_def Session_IsClosed_def all_dead_def Let_def)
  then show ?thesis using d by (simp add: on_session_def Let_def)
qed

lemma cleanup_dead:
  assumes "pool_ok sl c" "all_dead c"
  shows "idleCleanup sl now c = c"
proof -
  have "sl_Iterate sl (cl_idleSession c) = []"
    using assms by (cases "sl_Iterate sl (cl_idleSession c)") (auto simp: pool_ok_def idle_ok_def all_dead_def)
  then show ?thesis by (simp add: idleCleanup_def idleCleanupExpTime_def renew_def)
qed

lemma closeSessions_dead:
  assumes om: "ordered_map sl"
  shows "pool_ok sl c \<Longrightarrow> \<forall>e \<in> set es. snd e < length (cl_store c) \<Longrightarrow> i < length (cl_store c) \<Longrightarrow>
    hooks_fine {} (cl_store c ! i) \<Longrightarrow> s_die (cl_store c ! i) \<or> i \<in> snd ` set es \<Longrightarrow>
    s_die (cl_store (fold (\<lambda>e. closeSession sl (snd e)) es c) ! i) \<and> hooks_fine {} (cl_store (fold (\<lambda>e. closeSession sl (snd e)) es c) ! i)"
proof (induction es arbitrary: c)
  case (Cons e es)
  let ?c = "closeSession sl (snd e) c"
  have e: "snd e < length (cl_store c)" using Cons.prems(2) by simp
  have ok: "pool_ok sl ?c" "length (cl_store ?c) = length (cl_store c)"
    using closeSession_ok [OF om Cons.prems(1) e] by auto
  note fr = run_session_frame(1,2) [OF om Cons.prems(1) e pool_rel_Close keep_Close_fn, folded closeSession_def]
  have h: "hooks_fine {} (fst (Session_Close s))" if "hooks_fine {} s" for s using keep_Session_Close [of s] that by (simp add: keep_rel_def)
  have "hooks_fine {} (cl_store ?c ! i) \<and> (s_die (cl_store ?c ! i) \<or> i \<in> snd ` set es)"
  proof (cases "i = snd e")
    case True
    have "hooks_fine {} ((cl_store c ! i)\<lparr>s_padding := cl_padding c\<rparr>)" using Cons.prems(4) by (simp add: hooks_fine_def)
    then show ?thesis using h fr(1) True by simp
  next
    case False
    then show ?thesis using fr(2) [OF False] Cons.prems(4,5) by auto
  qed
  then show ?case using Cons.IH [OF ok(1)] ok(2) Cons.prems(2,3) by simp
qed simp

lemma Client_Close_dead:
  assumes om: "ordered_map sl" and ok: "pool_ok sl c" and k: "kept_but {} sl c"
  shows "all_dead (Client_Close sl c)" "kept_but {} sl (Client_Close sl c)"
proof -
  let ?c0 = "c\<lparr>cl_die := True, cl_sessions := []\<rparr>"
  have ok0: "pool_ok sl ?c0" "\<forall>e \<in> set (cl_sessions c). snd e < length (cl_store ?c0)" using ok by (auto simp: pool_ok_def)
  have len: "length (cl_store (Client_Close sl c)) = length (cl_store c)"
    using closeSessions_ok [OF om ok0] by (simp add: Client_Close_def)
  have "s_die (cl_store c ! i) \<or> i \<in> snd ` set (cl_sessions c)" if "i < length (cl_store c)" for i
    using k that by (force simp: kept_but_def)
  then have "s_die (cl_store (Client_Close sl c) ! i) \<and> hooks_fine {} (cl_store (Client_Close sl c) ! i)" if "i < length (cl_store c)" for i
    using closeSessions_dead [OF om ok0, of i] k that by (simp add: Client_Close_def kept_but_def)
  then show "all_dead (Client_Close sl c)" "kept_but {} sl (Client_Close sl c)"
    using len by (simp_all add: all_dead_def kept_but_def placed_def)
qed

section \<open>Claims\<close>

lemma pool_reachable_kept:
  assumes "ordered_map sl" "pool_reachable sl c"
  shows "kept_but {} sl c \<and> (cl_die c \<longrightarrow> all_dead c)"
  using assms(2)
proof (induction rule: pool_reachable.induct)
  case (new ev p chk t m d)
  then show ?case by (simp add: NewClient_def kept_but_def all_dead_def Let_def)
next
  case (step c c')
  note ok = pool_reachable_ok [OF assms(1) step.hyps(1)] and om = assms(1)
  from step.hyps(2) show ?case
  proof cases
    case (op i f now)
    have f: "pool_rel s (f s)" "keep_rel s (f s)" for s using op(3) pool_rel_sess_step keep_sess_step by blast+
    then show ?thesis using step.IH op(1) on_session_kept [OF om ok op(2) f] on_session_dead [OF om ok op(2) f] by auto
  next
    case (create now dial)
    have "cl_die c \<Longrightarrow> c' = c" using create(1) by (simp add: CreateStream_def)
    then show ?thesis using step.IH create(1) CreateStream_kept [OF om ok create(2)] by (metis CreateStream_die)
  next
    case (cleanup now)
    have "kept_but {} sl c'" using step.IH cleanup_kept [OF om ok] cleanup by (simp add: idleCleanup_def)
    then show ?thesis using step.IH cleanup cleanup_dead [OF ok, of now] by (metis idleCleanup_die)
  next
    case closed
    then show ?thesis using step.IH Client_Close_dead [OF om ok] by simp
  qed
qed



section \<open>A hook that comes too late\<close>

text \<open>
  \<^verbatim>\<open>CreateStream\<close> assigns the hook of the stream after \<^verbatim>\<open>OpenStream\<close> has returned it, without a lock. The
  pool above takes the two together. Here the session receives in between.
\<close>

definition openOn_racing :: "'l skiplist \<Rightarrow> int \<Rightarrow> (session \<Rightarrow> session) \<Rightarrow> nat \<Rightarrow> 'l client \<Rightarrow> 'l client \<times> (nat \<times> nat) result" where
  "openOn_racing sl now between i c =
     (let s = (cl_store c ! i)\<lparr>s_padding := cl_padding c\<rparr>;
          c1 = on_session sl now (\<lambda>s. fst (OpenStream s)) i c
      in case snd (OpenStream s) of
           Inl e \<Rightarrow> (closeSession sl i c1, Inl e)
         | Inr r \<Rightarrow>
             (let c2 = on_session sl now between i c1
              in (c2\<lparr>cl_store := (cl_store c2)[i := update_stream (\<lambda>st. st\<lparr>st_dieHook := Armed\<rparr>) r (cl_store c2 ! i)]\<rparr>,
                  Inr (i, r))))"

text \<open>The peer ends the stream at once.\<close>

definition early_FIN :: "session \<Rightarrow> session" where
  "early_FIN s = fst (recv_step (s\<lparr>s_conn := Plain ((base_conn (s_conn s))\<lparr>c_in := encode_frame (newFrame cmdFIN 2)\<rparr>)\<rparr>))"

text \<open>The session is alive but neither in the pool nor carrying a living stream: it is never used,
  cleaned up or closed again until the peer or the client ends it.\<close>

theorem late_hook_loses_session:
  "let (c1, idle) = getIdleSession sorted_list demo_idle; c = fst (openOn_racing sorted_list 9 early_FIN 0 c1)
   in idle = Some 0 \<and> \<not> s_die (cl_store c ! 0) \<and> sl_Iterate sorted_list (cl_idleSession c) = [] \<and>
      list_all st_dieOnce (s_store (cl_store c ! 0))"
  by code_simp

end
