(* ===== verification/Client_Options.thy ===== *)
theory Client_Options
  imports Go_Strings Handshake
begin

text \<open>
  What the client makes of its flags and of an \<^verbatim>\<open>anytls://\<close> link (\<^verbatim>\<open>cmd/client/main.go\<close>). Parsing a link is a
  parameter; a parsed link has its user part as it is spelled, that is percent-encoded, since the code uses
  \<^verbatim>\<open>User.String()\<close>.
\<close>

record client_flags =
  fl_serverAddr :: string
  fl_sni :: string
  fl_password :: string
  fl_insecure :: bool

record link =
  ln_Scheme :: string
  ln_Host :: string
  ln_User :: "string option"
  ln_sni :: string
  ln_insecure :: string

datatype client_fatal = NoServerAddress | NoPassword | BadServerAddress string

definition apply_link :: "(string \<Rightarrow> link option) \<Rightarrow> client_flags \<Rightarrow> client_flags" where
  "apply_link Parse f =
     (case Parse (fl_serverAddr f) of
        None \<Rightarrow> f
      | Some u \<Rightarrow>
          if ln_Scheme u = ''anytls'' then
            f\<lparr>fl_serverAddr := ln_Host u, fl_password := (case ln_User u of None \<Rightarrow> fl_password f | Some x \<Rightarrow> x), fl_sni := ln_sni u,
              fl_insecure := (if ln_insecure u = ''1'' then True else fl_insecure f)\<rparr>
          else f)"

definition client_options :: "(string \<Rightarrow> link option) \<Rightarrow> client_flags \<Rightarrow> client_fatal + client_flags" where
  "client_options Parse f0 =
     (let f = apply_link Parse f0
      in if fl_serverAddr f = [] then Inl NoServerAddress
         else if fl_password f = [] then Inl NoPassword
         else case SplitHostPort (fl_serverAddr f) of
             None \<Rightarrow> Inl (BadServerAddress (fl_serverAddr f))
           | Some _ \<Rightarrow> Inr f)"

record tls_config =
  tl_ServerName :: string
  tl_InsecureSkipVerify :: bool

definition newTLSConfig :: "string \<Rightarrow> string \<Rightarrow> bool \<Rightarrow> tls_config" where
  "newTLSConfig serverAddr sni insecure =
     (if insecure then \<lparr>tl_ServerName = (if sni = [] then ''127.0.0.1'' else sni), tl_InsecureSkipVerify = True\<rparr>
      else \<lparr>tl_ServerName = (if sni = [] then (case SplitHostPort serverAddr of Some (host, _) \<Rightarrow> host | None \<Rightarrow> []) else sni),
            tl_InsecureSkipVerify = False\<rparr>)"

text \<open>The client verifies its server unless told otherwise. With options that are accepted, verification is off
  only if the flag or the link asks for it; otherwise the certificate is checked against the name
  that was given, or against the host of the address when none was.\<close>

theorem client_verifies_server:
  assumes "client_options Parse f0 = Inr f"
  shows "\<exists>host port. SplitHostPort (fl_serverAddr f) = Some (host, port) \<and> fl_password f \<noteq> [] \<and>
    (let c = newTLSConfig (fl_serverAddr f) (fl_sni f) (fl_insecure f)
     in tl_InsecureSkipVerify c = fl_insecure f \<and> (tl_InsecureSkipVerify c \<or> tl_ServerName c = (if fl_sni f = [] then host else fl_sni f))) \<and>
    (fl_insecure f \<longleftrightarrow> fl_insecure f0 \<or>
       (\<exists>u. Parse (fl_serverAddr f0) = Some u \<and> ln_Scheme u = ''anytls'' \<and> ln_insecure u = ''1''))"
proof -
  have f: "f = apply_link Parse f0" using assms by (auto simp: client_options_def Let_def split: if_splits option.splits)
  obtain host port where h: "SplitHostPort (fl_serverAddr f) = Some (host, port)" "fl_password f \<noteq> []"
    using assms by (auto simp: client_options_def Let_def split: if_splits option.splits)
  have "fl_insecure f \<longleftrightarrow> fl_insecure f0 \<or> (\<exists>u. Parse (fl_serverAddr f0) = Some u \<and> ln_Scheme u = ''anytls'' \<and> ln_insecure u = ''1'')"
    unfolding f by (auto simp: apply_link_def split: option.splits)
  then show ?thesis using h by (intro exI [of _ host] exI [of _ port]) (simp add: newTLSConfig_def Let_def)
qed

theorem client_verifies_server_witness:
  "\<exists>f. client_options (\<lambda>x. Some \<lparr>ln_Scheme = ''anytls'', ln_Host = ''example.com:443'', ln_User = Some ''letmein'', ln_sni = [], ln_insecure = []\<rparr>)
       \<lparr>fl_serverAddr = ''anytls://letmein@example.com:443'', fl_sni = [], fl_password = [], fl_insecure = False\<rparr> = Inr f \<and>
     \<not> tl_InsecureSkipVerify (newTLSConfig (fl_serverAddr f) (fl_sni f) (fl_insecure f))"
proof -
  let ?P = "\<lambda>x. Some \<lparr>ln_Scheme = ''anytls'', ln_Host = ''example.com:443'', ln_User = Some ''letmein'', ln_sni = [], ln_insecure = []\<rparr>"
  let ?f0 = "\<lparr>fl_serverAddr = ''anytls://letmein@example.com:443'', fl_sni = [], fl_password = [], fl_insecure = False\<rparr>"
  have "SplitHostPort ''example.com:443'' = Some (''example.com'', ''443'')" by code_simp
  then have o: "client_options ?P ?f0 = Inr (apply_link ?P ?f0)" by (simp add: client_options_def apply_link_def)
  show ?thesis using client_verifies_server [OF o] o by (intro exI [of _ "apply_link ?P ?f0"]) (auto simp: Let_def)
qed

text \<open>A password with a character that has to be percent-encoded in a link is used in its encoded form.\<close>

lemma link_password_stays_encoded:
  "fl_password (apply_link (\<lambda>x. Some \<lparr>ln_Scheme = ''anytls'', ln_Host = h, ln_User = Some ''p%40ss'', ln_sni = [], ln_insecure = []\<rparr>) f) = ''p%40ss''"
  by (simp add: apply_link_def)

text \<open>A link without a port is refused.\<close>

lemma link_without_port:
  "client_options (\<lambda>x. Some \<lparr>ln_Scheme = ''anytls'', ln_Host = ''example.com'', ln_User = Some ''letmein'', ln_sni = [], ln_insecure = []\<rparr>) f =
   Inl (BadServerAddress ''example.com'')"
proof -
  have "SplitHostPort ''example.com'' = None" by code_simp
  then show ?thesis by (simp add: client_options_def apply_link_def)
qed
end
