(* ===== verification/Local_Proxy.thy ===== *)
theory Local_Proxy
  imports Client_Keep Client_Options
begin

text \<open>
  The client as a local proxy (\<^verbatim>\<open>cmd/client\<close>): starting up, choosing the protocol of an accepted connection, and
  carrying a request over a stream of the pool (\<^verbatim>\<open>CreateProxy\<close>, \<^verbatim>\<open>NewConnection\<close>, \<^verbatim>\<open>NewPacketConnection\<close>).

  The proxy protocols, the serializer of addresses and the copying of data are those of the \<^verbatim>\<open>sing\<close> library, and
  parameters here. Copying is whatever happens to the pool until it returns: steps of this and of
  every other connection. Between two calls of a handler the others may run as well; that is \<open>pause\<close>.
\<close>

section \<open>Streams of the pool\<close>

text \<open>A stream of the pool is a session and a stream of it.\<close>

definition writeStream :: "'l skiplist \<Rightarrow> int \<Rightarrow> nat \<Rightarrow> nat \<Rightarrow> bytes \<Rightarrow> 'l client \<Rightarrow> 'l client \<times> go_error option" where
  "writeStream sl now i r b c =
     (on_session sl now (\<lambda>s. fst (Stream_Write s r b)) i c,
      snd (snd (Stream_Write ((cl_store c ! i)\<lparr>s_padding := cl_padding c\<rparr>) r b)))"

definition closeStream :: "'l skiplist \<Rightarrow> int \<Rightarrow> nat \<Rightarrow> nat \<Rightarrow> 'l client \<Rightarrow> 'l client" where
  "closeStream sl now i r = on_session sl now (\<lambda>s. fst (Stream_Close s r)) i"

text \<open>The writes of the serializer; it stops at the first that fails.\<close>

fun write_all :: "'l skiplist \<Rightarrow> int \<Rightarrow> ('l client \<Rightarrow> 'l client) \<Rightarrow> nat \<Rightarrow> nat \<Rightarrow> bytes list \<Rightarrow> 'l client \<Rightarrow> 'l client \<times> go_error option" where
  "write_all sl now pause i r [] c = (c, None)"
| "write_all sl now pause i r (b # bs) c =
     (case writeStream sl now i r b c of
        (c1, Some e) \<Rightarrow> (c1, Some e)
      | (c1, None) \<Rightarrow> write_all sl now pause i r bs (pause c1))"

section \<open>\<^verbatim>\<open>myclient.go\<close>\<close>

definition NewMyClient :: "'l skiplist \<Rightarrow> env \<Rightarrow> PaddingFactory \<Rightarrow> int \<Rightarrow> bool \<Rightarrow> 'l client \<times> int option" where
  "NewMyClient sl ev p minIdleSession disableReuse =
     NewClient sl ev p (second * 30) (second * 30) minIdleSession disableReuse"

text \<open>\<open>WriteAddrPort\<close> gives what the serializer writes for a destination, and its own error.\<close>

definition CreateProxy ::
  "'l skiplist \<Rightarrow> int \<Rightarrow> ('l client \<Rightarrow> 'l client) \<Rightarrow> ('d \<Rightarrow> bytes list \<times> go_error option) \<Rightarrow> netConn result \<Rightarrow> 'd \<Rightarrow> 'l client \<Rightarrow>
   'l client \<times> (nat \<times> nat) result" where
  "CreateProxy sl now pause WriteAddrPort dial destination c =
     (case CreateStream sl now dial c of
        (c1, Inl e) \<Rightarrow> (c1, Inl e)
      | (c1, Inr (i, r)) \<Rightarrow>
          (let (bs, own) = WriteAddrPort destination;
               (c2, err) = write_all sl now pause i r bs (pause c1)
           in case (if err = None then own else err) of
                Some e \<Rightarrow> (closeStream sl now i r (pause c2), Inl e)
              | None \<Rightarrow> (c2, Inr (i, r))))"

section \<open>\<^verbatim>\<open>inbound.go\<close>\<close>

definition NewConnection ::
  "'l skiplist \<Rightarrow> int \<Rightarrow> ('l client \<Rightarrow> 'l client) \<Rightarrow> ('d \<Rightarrow> bytes list \<times> go_error option) \<Rightarrow> (nat \<times> nat \<Rightarrow> 'l client \<Rightarrow> 'l client \<times> go_error option) \<Rightarrow>
   netConn result \<Rightarrow> 'd \<Rightarrow> 'l client \<Rightarrow> 'l client \<times> go_error option" where
  "NewConnection sl now pause WriteAddrPort CopyConn dial destination c =
     (case CreateProxy sl now pause WriteAddrPort dial destination c of
        (c1, Inl e) \<Rightarrow> (c1, Some e)
      | (c1, Inr (i, r)) \<Rightarrow>
          (let (c2, err) = CopyConn (i, r) c1
           in (closeStream sl now i r c2, err)))"

text \<open>Packets go to the address that asks for UDP over TCP, version 2; the true destination is in the request the
  wrapped connection sends with its first packet.\<close>

definition NewPacketConnection ::
  "'l skiplist \<Rightarrow> int \<Rightarrow> ('l client \<Rightarrow> 'l client) \<Rightarrow> ('d \<Rightarrow> bytes list \<times> go_error option) \<Rightarrow> (nat \<Rightarrow> 'd) \<Rightarrow>
   ('d \<Rightarrow> nat \<times> nat \<Rightarrow> 'l client \<Rightarrow> 'l client \<times> go_error option) \<Rightarrow> netConn result \<Rightarrow> 'd \<Rightarrow> 'l client \<Rightarrow> 'l client \<times> go_error option" where
  "NewPacketConnection sl now pause WriteAddrPort RequestDestination CopyPacketConn dial destination c =
     (case CreateProxy sl now pause WriteAddrPort dial (RequestDestination 2) c of
        (c1, Inl e) \<Rightarrow> (c1, Some e)
      | (c1, Inr (i, r)) \<Rightarrow>
          (let (c2, err) = CopyPacketConn destination (i, r) c1
           in (closeStream sl now i r c2, err)))"

text \<open>\<open>peeked\<close> is the first byte of the connection, if there is one. A handler may panic; the panic is recovered
  after the connection is closed.\<close>

datatype 's outcome = Returned 's | Panicked 's

definition serveLocal :: "('s \<Rightarrow> 's) \<Rightarrow> ('s \<Rightarrow> 's outcome) \<Rightarrow> ('s \<Rightarrow> 's outcome) \<Rightarrow> byte option \<Rightarrow> 's \<Rightarrow> 's" where
  "serveLocal close socks http peeked s =
     (case peeked of
        None \<Rightarrow> close s
      | Some header \<Rightarrow>
          (case (if header \<in> {4, 5} then socks s else http s) of
             Returned s1 \<Rightarrow> close s1
           | Panicked s1 \<Rightarrow> close s1))"

section \<open>Streams stay\<close>

text \<open>A stream never leaves the store of its session and never comes back to life.\<close>

definition older :: "session \<Rightarrow> session \<Rightarrow> bool" where
  "older s s' \<longleftrightarrow> length (s_store s) \<le> length (s_store s') \<and>
     (\<forall>r < length (s_store s). st_dieOnce (s_store s ! r) \<longrightarrow> st_dieOnce (s_store s' ! r))"

lemma older_same: "s_store s' = s_store s \<Longrightarrow> older s s'"
  by (simp add: older_def)

lemma older_trans: "older s t \<Longrightarrow> older t u \<Longrightarrow> older s u"
  unfolding older_def by (meson less_le_trans order_trans)

lemma older_Close: "older s (fst (Session_Close s))"
proof (cases "s_die s")
  case False
  obtain st where st: "s_store (fst (Session_Close s)) = st" "length st = length (s_store s)"
      "\<forall>i < length st. st ! i = s_store s ! i \<or> st ! i = closeLocally (s_store s ! i)"
    using Session_Close_open [OF False] by fastforce
  have "st_dieOnce x \<longrightarrow> st_dieOnce (closeLocally x)" for x by (simp add: closeLocally_def)
  then show ?thesis using st by (metis older_def order_refl)
qed (simp add: Session_Close_def older_same)

interpretation older_writes: write_rel older
proof unfold_locales
  show "older s s'" if "doWriteConn s b bp = (s', y)" for s b bp s' y
    using doWriteConn_frame [OF that] by (simp add: write_frame_rel_def older_same)
qed (auto intro: older_same older_trans older_Close)

lemma older_update: "(\<And>st. st_dieOnce st \<Longrightarrow> st_dieOnce (f st)) \<Longrightarrow> older s (update_stream f r s)"
  by (auto simp: older_def nth_store_update_stream)

lemma older_streamClosed: "older s (fst (streamClosed s sid))"
  using older_writes.rel_writeControlFrame [of s "newFrame cmdFIN sid"]
  by (auto simp: streamClosed_def Let_def older_def split: prod.splits)

lemma older_closeWithError:
  "older s (fst (closeWithError s r e))" "r < length (s_store s) \<Longrightarrow> st_dieOnce (s_store (fst (closeWithError s r e)) ! r)"
proof -
  let ?s1 = "update_stream (\<lambda>st. st\<lparr>st_dieOnce := True, st_dieErr := Some e, st_pipeDone := True\<rparr>) r s"
  let ?s2 = "fst (streamClosed ?s1 (st_id (s_store s ! r)))"
  have e: "fst (closeWithError s r e) = update_stream (\<lambda>st. st\<lparr>st_dieHook := fire (st_dieHook st)\<rparr>) r ?s2"
    if "\<not> st_dieOnce (s_store s ! r)" using that by (simp add: closeWithError_def Let_def split: prod.splits)
  have o: "older ?s1 (fst (closeWithError s r e)) \<and> older s ?s1" if "\<not> st_dieOnce (s_store s ! r)"
    unfolding e [OF that] by (rule conjI, rule older_trans [OF older_streamClosed older_update], simp, rule older_update, simp)
  have c: "closeWithError s r e = (s, st_dieErr (s_store s ! r))" if "st_dieOnce (s_store s ! r)"
    using that by (simp add: closeWithError_def Let_def)
  show "older s (fst (closeWithError s r e))"
    using o c by (cases "st_dieOnce (s_store s ! r)") (auto intro: older_same older_trans)
  show "st_dieOnce (s_store (fst (closeWithError s r e)) ! r)" if "r < length (s_store s)"
  proof (cases "st_dieOnce (s_store s ! r)")
    case False
    have "r < length (s_store ?s1)" "st_dieOnce (s_store ?s1 ! r)" using that by (simp_all add: nth_store_update_stream)
    then show ?thesis using o [OF False] by (simp add: older_def)
  qed (simp add: c)
qed

interpretation ageing: operation_rel older
  by unfold_locales (auto simp: mild_def older_closeWithError intro: older_same older_update, auto simp: older_def nth_append)

lemma older_sess_step: "sess_step s s' \<Longrightarrow> older s s'"
  by (erule ageing.rel_sess_step) (simp add: older_same)

section \<open>The pool stays\<close>

text \<open>No session leaves the store of the pool, and each only grows older.\<close>

definition ages :: "'l client \<Rightarrow> 'l client \<Rightarrow> bool" where
  "ages c c' \<longleftrightarrow> length (cl_store c) \<le> length (cl_store c') \<and> (\<forall>i < length (cl_store c). older (cl_store c ! i) (cl_store c' ! i))"

lemma ages_same: "cl_store c' = cl_store c \<Longrightarrow> ages c c'"
  by (simp add: ages_def older_same)

lemma ages_trans [trans]: "ages c d \<Longrightarrow> ages d e \<Longrightarrow> ages c e"
  unfolding ages_def by (meson less_le_trans older_trans order_trans)

lemma ages_upd: "cl_store c' = (cl_store c)[i := s] \<Longrightarrow> older (cl_store c ! i) s \<Longrightarrow> ages c c'"
  by (cases "i < length (cl_store c)") (auto simp: ages_def nth_list_update older_same list_update_beyond)

lemma ages_fold: "(\<And>x c. ages c (f x c)) \<Longrightarrow> ages c (fold f xs c)"
  by (induction xs arbitrary: c) (simp_all add: ages_same, blast intro: ages_trans)

lemma store_run_session: "cl_store (run_session sl f i c) = (cl_store c)[i := f ((cl_store c ! i)\<lparr>s_padding := cl_padding c\<rparr>)]"
  by (simp add: run_session_def session_dieHook_def Let_def)

lemma ages_run_session:
  assumes "\<And>s. older s (f s)"
  shows "ages c (run_session sl f i c)"
  by (rule ages_upd [OF store_run_session older_trans [OF older_same assms]]) simp

lemma ages_closeSession: "ages c (closeSession sl i c)"
  unfolding closeSession_def by (rule ages_run_session [OF older_Close])

lemma ages_stream_dieHook: "ages c (stream_dieHook sl now i c)"
proof -
  have "ages c (c\<lparr>cl_store := (cl_store c)[i := (cl_store c ! i)\<lparr>s_idleSince := now\<rparr>], cl_idleSession := l\<rparr>)" for l
    by (rule ages_upd [where i = i and s = "(cl_store c ! i)\<lparr>s_idleSince := now\<rparr>"]) (simp_all add: older_same)
  then show ?thesis by (simp add: stream_dieHook_def Let_def ages_closeSession ages_same)
qed

lemma ages_on_session: "(\<And>s. older s (f s)) \<Longrightarrow> ages c (on_session sl now f i c)"
  unfolding on_session_def Let_def by (rule ages_trans [OF ages_run_session ages_fold [OF ages_stream_dieHook]])

lemma ages_openOn:
  "ages c (fst (openOn sl now i c))"
  "snd (openOn sl now i c) = Inr (j, r) \<Longrightarrow> j = i \<and> (i < length (cl_store c) \<longrightarrow> r < length (s_store (cl_store (fst (openOn sl now i c)) ! i)))"
proof -
  let ?f = "\<lambda>s. fst (OpenStream s)" and ?s = "(cl_store c ! i)\<lparr>s_padding := cl_padding c\<rparr>"
  let ?c1 = "on_session sl now ?f i c"
  have a: "ages c ?c1" by (rule ages_on_session [OF ageing.rel_OpenStream])
  have arm: "ages ?c1 (?c1\<lparr>cl_store := (cl_store ?c1)[i := update_stream (\<lambda>st. st\<lparr>st_dieHook := Armed\<rparr>) r (cl_store ?c1 ! i)]\<rparr>)" for r
    by (rule ages_upd [where i = i], simp) (rule older_update, simp)
  show "ages c (fst (openOn sl now i c))"
    using ages_trans [OF a arm] ages_trans [OF a ages_closeSession] by (auto simp: openOn_def Let_def split: sum.splits)
  show "j = i \<and> (i < length (cl_store c) \<longrightarrow> r < length (s_store (cl_store (fst (openOn sl now i c)) ! i)))"
    if r: "snd (openOn sl now i c) = Inr (j, r)"
  proof -
    have o: "snd (OpenStream ?s) = Inr r" "j = i" using r by (auto simp: openOn_def Let_def split: sum.splits)
    have "ages (run_session sl ?f i c) ?c1" unfolding on_session_def Let_def by (rule ages_fold [OF ages_stream_dieHook])
    then have "i < length (cl_store ?c1) \<and> r < length (s_store (cl_store ?c1 ! i))" if "i < length (cl_store c)"
      using OpenStream_new(1) [OF o(1)] that by (auto simp: ages_def older_def store_run_session dest: less_le_trans)
    then show ?thesis using o by (simp add: openOn_def Let_def)
  qed
qed

lemma ages_createSession:
  assumes "createSession sl now dial c = (c', x)"
  shows "ages c c'" "x = Inr i \<Longrightarrow> i < length (cl_store c')"
proof -
  have r: "ages c1 (on_session sl now Session_Run k c1)" for c1 k by (rule ages_on_session [OF ageing.rel_Session_Run])
  have "ages c c1" if "cl_store c1 = cl_store c @ [s]" for c1 s using that by (simp add: ages_def nth_append older_same)
  then show "ages c c'" using assms ages_trans [OF _ r]
    by (auto simp: createSession_def Let_def ages_same split: sum.splits)
  have len: "length (cl_store c1) \<le> length (cl_store (on_session sl now Session_Run k c1))" for c1 k using r by (simp add: ages_def)
  show "i < length (cl_store c')" if "x = Inr i"
    using assms that by (auto simp: createSession_def Let_def intro!: less_le_trans [OF _ len] split: sum.splits)
qed

lemma ages_CreateStream: "ages c (fst (CreateStream sl now dial c))"
proof (cases "cl_die c")
  case False
  obtain c1 idle where g: "(if \<not> cl_disableReuse c then getIdleSession sl c else (c, None)) = (c1, idle)" by fastforce
  have "ages c c1" using g by (auto simp: getIdleSession_def intro: ages_same split: if_splits list.splits)
  moreover obtain c2 x where c2: "createSession sl now dial c1 = (c2, x)" by fastforce
  ultimately show ?thesis using False g ages_createSession(1) [OF c2] ages_openOn(1) [of c1] ages_openOn(1) [of c2]
    by (cases idle; cases x) (auto simp: CreateStream_def intro: ages_trans)
qed (simp add: CreateStream_def ages_same)

lemma CreateStream_fresh:
  assumes "ordered_map sl" "pool_ok sl c" "CreateStream sl now dial c = (c', Inr (i, r))"
  shows "i < length (cl_store c') \<and> r < length (s_store (cl_store c' ! i))"
proof -
  have d: "\<not> cl_die c" using assms(3) by (auto simp: CreateStream_def)
  obtain c1 idle where g: "(if \<not> cl_disableReuse c then getIdleSession sl c else (c, None)) = (c1, idle)" by fastforce
  have idle: "k < length (cl_store c1)" if "idle = Some k" for k
    using getIdleSession_ok [OF assms(1,2), of c1 idle] g that by (auto split: if_splits)
  have o: "i < length (cl_store c') \<and> r < length (s_store (cl_store c' ! i))"
    if "openOn sl now k b = (c', Inr (i, r))" "k < length (cl_store b)" for b k
    using ages_openOn(1) [of b sl now k] ages_openOn(2) [of sl now k b i r] that by (auto simp: ages_def)
  obtain c2 x where c2: "createSession sl now dial c1 = (c2, x)" by fastforce
  show ?thesis using assms(3) d g c2 idle o ages_createSession(2) [OF c2]
    by (cases idle; cases x) (auto simp: CreateStream_def)
qed

lemma ages_pool_step: "pool_step sl c c' \<Longrightarrow> ages c c'"
proof (induction rule: pool_step.induct)
  case (op i c f now)
  then show ?case by (intro ages_on_session older_sess_step)
next
  case (create c now dial)
  show ?case by (rule ages_CreateStream)
next
  case (cleanup c now)
  have "ages c (renew now rs c)" for rs
    unfolding renew_def by (rule ages_fold, rule ages_upd, simp) (rule older_same, simp)
  then have "ages c ((renew now rs c)\<lparr>cl_idleSession := l\<rparr>)" for rs l by (simp add: ages_def)
  then show ?case unfolding idleCleanup_def idleCleanupExpTime_def Let_def case_prod_unfold
    by (rule ages_trans [OF _ ages_fold [OF ages_closeSession]])
next
  case (closed c)
  have "ages c (c\<lparr>cl_die := True, cl_sessions := []\<rparr>)" by (simp add: ages_same)
  then show ?case unfolding Client_Close_def by (rule ages_trans [OF _ ages_fold [OF ages_closeSession]])
qed

lemma ages_pool_steps: "(pool_step sl)\<^sup>*\<^sup>* c c' \<Longrightarrow> ages c c'"
  by (induction rule: rtranclp_induct) (auto intro: ages_same ages_trans ages_pool_step)

lemma pool_reachable_steps: "pool_reachable sl c \<Longrightarrow> (pool_step sl)\<^sup>*\<^sup>* c c' \<Longrightarrow> pool_reachable sl c'"
  by (rotate_tac 1, induction rule: rtranclp_induct) (auto intro: pool_reachable.step)

section \<open>A handler gives its stream back\<close>

text \<open>A call on a stream is a step of the pool.\<close>

lemma pool_step_at:
  assumes "i < length (cl_store c)" "sess_step old (f old)" "old = (cl_store c ! i)\<lparr>s_padding := cl_padding c\<rparr>"
  shows "pool_step sl c (on_session sl now f i c)"
proof -
  let ?g = "\<lambda>s. if s = old then f old else s"
  have "on_session sl now f i c = on_session sl now ?g i c"
    using assms(3) by (simp add: on_session_def run_session_def Let_def)
  moreover have "sess_step s s" for s using sess_step.scheme [of s "s_padding s"] by simp
  then have "sess_step s (?g s)" for s using assms(2) by simp
  ultimately show ?thesis using pool_step.op [OF assms(1), of ?g] by simp
qed

definition holds :: "'l client \<Rightarrow> nat \<Rightarrow> nat \<Rightarrow> bool" where
  "holds c i r \<longleftrightarrow> i < length (cl_store c) \<and> r < length (s_store (cl_store c ! i))"

lemma holds_ages: "holds c i r \<Longrightarrow> ages c c' \<Longrightarrow> holds c' i r"
  by (auto simp: holds_def ages_def older_def)

lemma closeStream_closes:
  assumes "holds c i r"
  shows "pool_step sl c (closeStream sl now i r c)" "st_dieOnce (s_store (cl_store (closeStream sl now i r c) ! i) ! r)"
proof -
  let ?f = "\<lambda>s. fst (Stream_Close s r)" and ?s = "(cl_store c ! i)\<lparr>s_padding := cl_padding c\<rparr>"
  let ?c1 = "run_session sl ?f i c"
  show "pool_step sl c (closeStream sl now i r c)" unfolding closeStream_def
    by (rule pool_step_at [where old = ?s], use assms in \<open>simp add: holds_def\<close>, rule sess_step.closed_stream)
      (use assms in \<open>simp_all add: holds_def\<close>)
  have "ages ?c1 (closeStream sl now i r c)" unfolding closeStream_def on_session_def Let_def
    by (rule ages_fold [OF ages_stream_dieHook])
  moreover have "st_dieOnce (s_store (?f ?s) ! r)" "older ?s (?f ?s)"
    unfolding Stream_Close_def using older_closeWithError [where s = ?s] assms by (simp_all add: holds_def)
  ultimately show "st_dieOnce (s_store (cl_store (closeStream sl now i r c) ! i) ! r)"
    using assms by (auto simp: ages_def older_def store_run_session holds_def)
qed

lemma writeStream_step: "holds c i r \<Longrightarrow> pool_step sl c (fst (writeStream sl now i r b c))"
  unfolding writeStream_def fst_conv holds_def
  by (rule pool_step_at [where old = "(cl_store c ! i)\<lparr>s_padding := cl_padding c\<rparr>"], simp, rule sess_step.written) simp_all

lemma write_all_steps:
  assumes "\<And>c. (pool_step sl)\<^sup>*\<^sup>* c (pause c)" and "holds c i r"
  shows "(pool_step sl)\<^sup>*\<^sup>* c (fst (write_all sl now pause i r bs c))"
  using assms(2)
proof (induction bs arbitrary: c)
  case (Cons b bs)
  obtain c1 e where w: "writeStream sl now i r b c = (c1, e)" by fastforce
  have s: "pool_step sl c c1" using writeStream_step [OF Cons.prems, of sl now b] w by simp
  have "(pool_step sl)\<^sup>*\<^sup>* c (pause c1)" using s assms(1) by (rule converse_rtranclp_into_rtranclp)
  moreover from this have "holds (pause c1) i r" by (rule holds_ages [OF Cons.prems ages_pool_steps])
  ultimately show ?case using Cons.IH [of "pause c1"] s w
    by (cases e) (auto intro: rtranclp_trans)
qed simp

lemma CreateProxy_cases:
  assumes "ordered_map sl" "pool_reachable sl c" "\<And>c. (pool_step sl)\<^sup>*\<^sup>* c (pause c)"
    and "CreateStream sl now dial c = (c1, x)" "CreateProxy sl now pause W dial d c = (c2, y)"
  shows "case x of Inl e \<Rightarrow> c2 = c1 \<and> y = Inl e
    | Inr (i, r) \<Rightarrow> (pool_step sl)\<^sup>*\<^sup>* c1 c2 \<and> holds c1 i r \<and> (y = Inr (i, r) \<or> (\<exists>e. y = Inl e) \<and> st_dieOnce (s_store (cl_store c2 ! i) ! r))"
proof (cases x)
  case (Inr p)
  obtain i r where p: "p = (i, r)" by fastforce
  obtain bs own where W: "W d = (bs, own)" by fastforce
  obtain c3 err where w: "write_all sl now pause i r bs (pause c1) = (c3, err)" by fastforce
  have h: "holds c1 i r" using CreateStream_fresh [OF assms(1) pool_reachable_ok [OF assms(1,2)]] assms(4) Inr p by (simp add: holds_def)
  have s: "(pool_step sl)\<^sup>*\<^sup>* c1 c3"
    using rtranclp_trans [OF assms(3) write_all_steps [OF assms(3) holds_ages [OF h ages_pool_steps [OF assms(3)]]], of now bs] w by simp
  have s': "(pool_step sl)\<^sup>*\<^sup>* c1 (pause c3)" using s assms(3) by (rule rtranclp_trans)
  note cl = closeStream_closes [OF holds_ages [OF h ages_pool_steps [OF s']], of sl now]
  show ?thesis using assms(4,5) Inr p W w s h cl rtranclp.rtrancl_into_rtrancl [OF s' cl(1)]
    by (auto simp: CreateProxy_def split: option.splits)
qed (use assms(4,5) in \<open>auto simp: CreateProxy_def\<close>)

lemma handler_cases:
  assumes "ordered_map sl" "pool_reachable sl c" "\<And>c. (pool_step sl)\<^sup>*\<^sup>* c (pause c)" "\<And>p c. (pool_step sl)\<^sup>*\<^sup>* c (fst (copy p c))"
    and "CreateStream sl now dial c = (c1, x)" "NewConnection sl now pause W copy dial d c = (c', err)"
  shows "case x of Inl e \<Rightarrow> c' = c1 \<and> err = Some e
    | Inr (i, r) \<Rightarrow> (pool_step sl)\<^sup>*\<^sup>* c1 c' \<and> holds c1 i r \<and> st_dieOnce (s_store (cl_store c' ! i) ! r)"
proof -
  obtain c2 y where p: "CreateProxy sl now pause W dial d c = (c2, y)" by fastforce
  note cp = CreateProxy_cases [OF assms(1-3,5) p]
  show ?thesis
  proof (cases y)
    case Inl
    then show ?thesis using cp p assms(6) by (auto simp: NewConnection_def split: sum.splits)
  next
    case (Inr q)
    obtain i r where q: "q = (i, r)" by fastforce
    have x: "x = Inr (i, r)" "(pool_step sl)\<^sup>*\<^sup>* c1 c2" "holds c1 i r" using cp Inr q by (auto split: sum.splits)
    have s: "(pool_step sl)\<^sup>*\<^sup>* c1 (fst (copy (i, r) c2))" using x(2) assms(4) by (rule rtranclp_trans)
    note cl = closeStream_closes [OF holds_ages [OF x(3) ages_pool_steps [OF s]], of sl now]
    show ?thesis using assms(6) p Inr q x(1,3) cl rtranclp.rtrancl_into_rtrancl [OF s cl(1)]
      by (auto simp: NewConnection_def split: prod.splits)
  qed
qed

lemma NewPacketConnection_as_NewConnection:
  "NewPacketConnection sl now pause W RD copy dial d c = NewConnection sl now pause W (copy d) dial (RD 2) c"
  by (simp add: NewPacketConnection_def NewConnection_def)


text \<open>The small pool, an address of no bytes, and a cleanup while the data is copied.\<close>

definition demo_handled :: "(u64 \<times> nat) list client \<times> go_error option" where
  "demo_handled = NewConnection sorted_list 7 (\<lambda>c. c) (\<lambda>d :: byte. ([], None)) (\<lambda>p c. (idleCleanup sorted_list 5 c, Some EOF))
     (Inr (Plain \<lparr>c_in = [], c_out = [], c_room = None, c_closed = False\<rparr>)) 3 demo_pool"


section \<open>Starting the client\<close>

text \<open>What \<^verbatim>\<open>main\<close> sets up before it accepts connections. \<open>Listen\<close> and opening the key log of TLS are what the system
  answers; \<open>keyLog\<close> is the environment variable \<^verbatim>\<open>TLS_KEY_LOG\<close>.\<close>

datatype start_error = BadOptions client_fatal | ListenFailed

record 'l started =
  sc_passwordSha256 :: bytes
  sc_tlsConfig :: tls_config
  sc_KeyLogWriter :: "string option"
  sc_client :: "'l client"
  sc_cleanup :: "int option"

definition key_log :: "(string \<Rightarrow> bool) \<Rightarrow> string \<Rightarrow> string option" where
  "key_log OpenFile keyLog =
     (let path = TrimSpace keyLog
      in if path \<noteq> [] \<and> OpenFile path then Some path else None)"

definition client_main ::
  "'l skiplist \<Rightarrow> env \<Rightarrow> PaddingFactory \<Rightarrow> (bytes \<Rightarrow> bytes) \<Rightarrow> (string \<Rightarrow> link option) \<Rightarrow> (string \<Rightarrow> bool) \<Rightarrow> (string \<Rightarrow> bool) \<Rightarrow> string \<Rightarrow> string \<Rightarrow>
   int \<Rightarrow> bool \<Rightarrow> client_flags \<Rightarrow> start_error + 'l started" where
  "client_main sl ev p sha256 Parse Listen OpenFile keyLog listen minIdleSession disableReuse flags =
     (case client_options Parse flags of
        Inl e \<Rightarrow> Inl (BadOptions e)
      | Inr f \<Rightarrow>
          if \<not> Listen listen then Inl ListenFailed
          else let (c, cleanup) = NewMyClient sl ev p minIdleSession disableReuse
               in Inr \<lparr>sc_passwordSha256 = sha256 (bytes_of (fl_password f)),
                       sc_tlsConfig = newTLSConfig (fl_serverAddr f) (fl_sni f) (fl_insecure f),
                       sc_KeyLogWriter = key_log OpenFile keyLog,
                       sc_client = c, sc_cleanup = cleanup\<rparr>)"

text \<open>The function \<^verbatim>\<open>main\<close> gives the client for opening a connection: dial, then wrap for TLS; the handshake of TLS
  runs with the first write.\<close>

definition dialOut :: "('s \<Rightarrow> 'k option \<times> 's) \<Rightarrow> (tls_config \<Rightarrow> 'k \<Rightarrow> 'k) \<Rightarrow> tls_config \<Rightarrow> 's \<Rightarrow> 'k option \<times> 's" where
  "dialOut DialContext tlsClient tlsConfig s =
     (case DialContext s of
        (None, s1) \<Rightarrow> (None, s1)
      | (Some conn, s1) \<Rightarrow> (Some (tlsClient tlsConfig conn), s1))"

text \<open>The accept loop: every connection gets a handler, and the first error ends the program.\<close>

fun accept_loop :: "('k \<Rightarrow> 's \<Rightarrow> 's) \<Rightarrow> 'k option list \<Rightarrow> 's \<Rightarrow> 's" where
  "accept_loop handle [] s = s"
| "accept_loop handle (None # cs) s = s"
| "accept_loop handle (Some c # cs) s = accept_loop handle cs (handle c s)"

text \<open>A client that starts is a fresh pool that cleans up every 30 seconds what was idle for 30 seconds, unless reuse is off, and it
  never dials without a password or with a server address it cannot verify against.\<close>

theorem client_started:
  assumes "client_main sl ev p sha256 Parse Listen OpenFile keyLog listen m d flags = Inr s"
  shows "pool_reachable sl (sc_client s) \<and> cl_idleSessionTimeout (sc_client s) = 30 * second \<and> cl_minIdleSession (sc_client s) = m \<and>
    sc_cleanup s = (if d then None else Some (30 * second)) \<and> Listen listen \<and>
    (\<exists>f. client_options Parse flags = Inr f \<and> sc_passwordSha256 s = sha256 (bytes_of (fl_password f)) \<and>
       (tl_InsecureSkipVerify (sc_tlsConfig s) \<longleftrightarrow> fl_insecure f))"
proof -
  obtain f where f: "client_options Parse flags = Inr f" "Listen listen"
    using assms by (auto simp: client_main_def split: sum.splits if_splits)
  then have "sc_client s = fst (NewMyClient sl ev p m d)" "sc_cleanup s = snd (NewMyClient sl ev p m d)"
      "sc_passwordSha256 s = sha256 (bytes_of (fl_password f))" "sc_tlsConfig s = newTLSConfig (fl_serverAddr f) (fl_sni f) (fl_insecure f)"
    using assms by (auto simp: client_main_def split: prod.splits)
  then show ?thesis using f pool_reachable.new [of sl ev p "second * 30" "second * 30" m d]
    by (simp add: NewMyClient_def NewClient_def newTLSConfig_def second_def Let_def)
qed

end
