(* ===== verification/Helpers.thy ===== *)
theory Helpers
  imports Local_Proxy Startup
begin

text \<open>
  The helpers the parts share: the deadline of a SYN (\<^verbatim>\<open>util/deadline.go\<close>), the routine that runs the cleanup
  (\<^verbatim>\<open>util/routine.go\<close>), and the certificate made at the start (\<^verbatim>\<open>util/mkcert.go\<close>).
\<close>

section \<open>\<^verbatim>\<open>NewDeadlineWatcher\<close>\<close>

text \<open>The timer, the channel \<^verbatim>\<open>done\<close> closes, and the goroutine that waits for either. \<open>dw_timeOuts\<close> counts the calls of
  \<^verbatim>\<open>timeOut\<close>.\<close>

record watcher =
  dw_closeCh :: bool
  dw_expired :: bool
  dw_ended :: bool
  dw_timeOuts :: nat

definition NewDeadlineWatcher :: watcher where
  "NewDeadlineWatcher = \<lparr>dw_closeCh = False, dw_expired = False, dw_ended = False, dw_timeOuts = 0\<rparr>"

text \<open>The channel is closed under a \<^verbatim>\<open>sync.Once\<close>, so that a second call does not close it again.\<close>

definition watcher_done :: "watcher \<Rightarrow> watcher" where
  "watcher_done w = (if dw_closeCh w then w else w\<lparr>dw_closeCh := True\<rparr>)"

inductive watcher_step :: "watcher \<Rightarrow> watcher \<Rightarrow> bool" where
  called: "watcher_step w (watcher_done w)"
| expires: "\<not> dw_ended w \<Longrightarrow> watcher_step w (w\<lparr>dw_expired := True\<rparr>)"
| wakes: "dw_closeCh w \<Longrightarrow> \<not> dw_ended w \<Longrightarrow> watcher_step w (w\<lparr>dw_ended := True\<rparr>)"
| times_out: "dw_expired w \<Longrightarrow> \<not> dw_ended w \<Longrightarrow> watcher_step w (w\<lparr>dw_ended := True, dw_timeOuts := Suc (dw_timeOuts w)\<rparr>)"

text \<open>The timeout runs at most once, only after the time is up, and never once the goroutine has seen \<^verbatim>\<open>done\<close>; calling
  \<^verbatim>\<open>done\<close> twice is as good as calling it once.\<close>

theorem watcher_once:
  assumes "watcher_step\<^sup>*\<^sup>* NewDeadlineWatcher w"
  shows "dw_timeOuts w \<le> 1 \<and> (dw_timeOuts w = 1 \<longrightarrow> dw_expired w \<and> dw_ended w) \<and> (dw_ended w \<longrightarrow> dw_closeCh w \<or> dw_expired w) \<and>
    (dw_ended w \<and> \<not> dw_expired w \<longrightarrow> dw_timeOuts w = 0) \<and> watcher_done (watcher_done w) = watcher_done w"
proof -
  have "(dw_timeOuts w = 0 \<or> dw_timeOuts w = 1 \<and> dw_expired w \<and> dw_ended w) \<and> (dw_ended w \<longrightarrow> dw_closeCh w \<or> dw_expired w)"
    using assms
  proof (induction rule: rtranclp_induct)
    case (step w w')
    from step.hyps(2) show ?case using step.IH by cases (auto simp: watcher_done_def)
  qed (simp add: NewDeadlineWatcher_def)
  then show ?thesis by (auto simp: watcher_done_def)
qed

text \<open>\<^verbatim>\<open>done\<close> does not wait: when the time is up before the goroutine runs again, \<^verbatim>\<open>select\<close> may still choose the timer, and the
  timeout runs although \<^verbatim>\<open>done\<close> came first.\<close>

theorem timeout_after_done:
  "\<exists>w. watcher_step\<^sup>*\<^sup>* (watcher_done NewDeadlineWatcher) w \<and> dw_timeOuts w = 1"
proof -
  let ?w = "watcher_done NewDeadlineWatcher"
  have "watcher_step ?w (?w\<lparr>dw_expired := True\<rparr>)"
    by (rule watcher_step.expires) (simp add: watcher_done_def NewDeadlineWatcher_def)
  moreover have "watcher_step (?w\<lparr>dw_expired := True\<rparr>) (?w\<lparr>dw_expired := True, dw_ended := True, dw_timeOuts := 1\<rparr>)"
    using watcher_step.times_out [of "?w\<lparr>dw_expired := True\<rparr>"] by (simp add: watcher_done_def NewDeadlineWatcher_def)
  ultimately have "watcher_step\<^sup>*\<^sup>* ?w (?w\<lparr>dw_expired := True, dw_ended := True, dw_timeOuts := 1\<rparr>)"
    by (meson rtranclp.rtrancl_into_rtrancl r_into_rtranclp)
  moreover have "dw_timeOuts (?w\<lparr>dw_expired := True, dw_ended := True, dw_timeOuts := 1\<rparr>) = 1" by (simp add: watcher_done_def NewDeadlineWatcher_def)
  ultimately show ?thesis by blast
qed

section \<open>\<^verbatim>\<open>StartRoutine\<close>\<close>

text \<open>One element of the list is one turn: whether the context is done when it is asked after the call. A panic is
  recovered outside of the loop, and ends it.\<close>

fun StartRoutine :: "('t \<Rightarrow> 's \<Rightarrow> 's outcome) \<Rightarrow> ('t \<times> bool) list \<Rightarrow> 's \<Rightarrow> 's" where
  "StartRoutine f [] s = s"
| "StartRoutine f ((t, stopped) # ts) s =
     (case f t s of
        Panicked s1 \<Rightarrow> s1
      | Returned s1 \<Rightarrow> if stopped then s1 else StartRoutine f ts s1)"

text \<open>The cleanup of the pool never panics; it runs once more after the context is done, and keeps the pool reachable.\<close>

theorem cleanup_routine:
  "pool_reachable sl c \<Longrightarrow> pool_reachable sl (StartRoutine (\<lambda>now c. Returned (idleCleanup sl now c)) turns c)"
  "StartRoutine (\<lambda>now c. Returned (idleCleanup sl now c)) (map (\<lambda>t. (t, False)) ts @ (t, True) # us) c =
     idleCleanup sl t (fold (idleCleanup sl) ts c)"
proof -
  have cl: "pool_reachable sl c \<Longrightarrow> pool_reachable sl (idleCleanup sl now c)" for c now
    by (rule pool_reachable.step [OF _ pool_step.cleanup])
  show "pool_reachable sl c \<Longrightarrow> pool_reachable sl (StartRoutine (\<lambda>now c. Returned (idleCleanup sl now c)) turns c)"
    by (induction turns arbitrary: c) (auto simp: cl)
  show "StartRoutine (\<lambda>now c. Returned (idleCleanup sl now c)) (map (\<lambda>t. (t, False)) ts @ (t, True) # us) c =
     idleCleanup sl t (fold (idleCleanup sl) ts c)"
    by (induction ts arbitrary: c) simp_all
qed

section \<open>\<^verbatim>\<open>GenerateKeyPair\<close>\<close>

record certificate_template =
  ct_SerialNumber :: nat
  ct_NotBefore :: int
  ct_NotAfter :: int
  ct_KeyUsage :: "string list"
  ct_ExtKeyUsage :: "string list"
  ct_BasicConstraintsValid :: bool
  ct_CommonName :: string
  ct_DNSNames :: "string list"

text \<open>The functions of \<^verbatim>\<open>crypto\<close>, each of which may fail. \<open>cr_Int\<close> draws a number below its argument.\<close>

record ('key, 'cert) crypto =
  cr_GenerateKey :: "nat \<Rightarrow> 'key option"
  cr_Int :: "nat \<Rightarrow> nat option"
  cr_CreateCertificate :: "certificate_template \<Rightarrow> certificate_template \<Rightarrow> 'key \<Rightarrow> bytes option"
  cr_MarshalPKCS8 :: "'key \<Rightarrow> bytes option"
  cr_pem :: "string \<Rightarrow> bytes \<Rightarrow> bytes"
  cr_X509KeyPair :: "bytes \<Rightarrow> bytes \<Rightarrow> 'cert option"

definition certificate_for :: "int \<Rightarrow> string \<Rightarrow> nat \<Rightarrow> certificate_template" where
  "certificate_for now serverName serial =
     \<lparr>ct_SerialNumber = serial, ct_NotBefore = now - 3600 * second, ct_NotAfter = now + 3600 * second,
      ct_KeyUsage = [''KeyEncipherment'', ''DigitalSignature''], ct_ExtKeyUsage = [''ServerAuth''], ct_BasicConstraintsValid = True,
      ct_CommonName = serverName, ct_DNSNames = [serverName]\<rparr>"

definition GenerateKeyPair :: "('key, 'cert) crypto \<Rightarrow> int \<Rightarrow> string \<Rightarrow> 'cert option" where
  "GenerateKeyPair cr now serverName =
     Option.bind (cr_GenerateKey cr 2048) (\<lambda>key.
     Option.bind (cr_Int cr (2 ^ 128)) (\<lambda>serialNumber.
     let template = certificate_for now serverName serialNumber in
     Option.bind (cr_CreateCertificate cr template template key) (\<lambda>publicDer.
     Option.bind (cr_MarshalPKCS8 cr key) (\<lambda>privateDer.
     cr_X509KeyPair cr (cr_pem cr ''CERTIFICATE'' publicDer) (cr_pem cr ''PRIVATE KEY'' privateDer)))))"

text \<open>A server without certificate files shows one certificate for as long as it runs, signed by its own key, valid
  from an hour before to an hour after the start: a client that verifies it refuses it an hour later.\<close>

theorem self_signed_served:
  assumes "server_main sy ae cur path flags = Inr s" and "\<not> TLSEnabled (ss_cfg s)" and "sy_GenerateKeyPair sy = GenerateKeyPair cr now ''''"
  shows "\<exists>cert key serial der priv. ss_tls s = SelfSigned cert \<and> cr_GenerateKey cr 2048 = Some key \<and>
    cr_CreateCertificate cr (certificate_for now '''' serial) (certificate_for now '''' serial) key = Some der \<and>
    cr_MarshalPKCS8 cr key = Some priv \<and> cr_X509KeyPair cr (cr_pem cr ''CERTIFICATE'' der) (cr_pem cr ''PRIVATE KEY'' priv) = Some cert \<and>
    tls_handshake X fs fs' t w (ss_tls s) = (ss_tls s, Inr (Some cert))"
proof -
  have "main_tls sy (ss_cfg s) = Inr (ss_tls s)"
    using assms(1) by (auto simp: server_main_def fatal_simps Let_def split: sum.splits option.splits if_splits)
  then obtain cert where c: "ss_tls s = SelfSigned cert" "GenerateKeyPair cr now '''' = Some cert"
    using assms(2,3) by (cases "GenerateKeyPair cr now ''''") (auto simp: main_tls_def dest: sym)
  then show ?thesis by (auto simp: GenerateKeyPair_def tls_handshake_def Let_def bind_eq_Some_conv)
qed

end
