(* ===== verification/Pipe.thy ===== *)
theory Pipe
  imports Prelude
begin

text \<open>
  The pipe behind every stream (\<^verbatim>\<open>proxy/pipe/io_pipe.go\<close>, \<^verbatim>\<open>proxy/pipe/deadline.go\<close>): a synchronous hand-over of bytes
  from writers to readers, with deadlines, closing from either side and any number of concurrent calls.

  A call is a thread with a program counter; a step is one channel operation, one lock operation, or one call
  of the other methods. A \<^verbatim>\<open>select\<close> with several ready cases may take any of them. Writers keep the data they
  were called with and the count they will return. Two lists record history: in which order writers got the
  lock and in which order readers were served.
\<close>

section \<open>Deadlines\<close>

text \<open>The channel of a deadline is replaced only when it is closed, so a generation number and whether the
  current channel is closed describe all channels handed out so far.\<close>

record PipeDeadline =
  dl_gen :: nat
  dl_closed :: bool
  dl_timer :: "int option"

definition MakePipeDeadline :: PipeDeadline where
  "MakePipeDeadline = \<lparr>dl_gen = 0, dl_closed = False, dl_timer = None\<rparr>"

text \<open>The zero time is \<open>None\<close>.\<close>

definition PipeDeadline_Set :: "int \<Rightarrow> int option \<Rightarrow> PipeDeadline \<Rightarrow> PipeDeadline" where
  "PipeDeadline_Set now t d =
     (let d1 = d\<lparr>dl_timer := None\<rparr>;
          fresh = (if dl_closed d1 then d1\<lparr>dl_gen := dl_gen d1 + 1, dl_closed := False\<rparr> else d1)
      in case t of
           None \<Rightarrow> fresh
         | Some t \<Rightarrow>
             if t - now > 0 then fresh\<lparr>dl_timer := Some t\<rparr>
             else if \<not> dl_closed d1 then d1\<lparr>dl_closed := True\<rparr> else d1)"

definition PipeDeadline_fire :: "PipeDeadline \<Rightarrow> PipeDeadline" where
  "PipeDeadline_fire d = d\<lparr>dl_closed := True, dl_timer := None\<rparr>"

definition PipeDeadline_Wait :: "PipeDeadline \<Rightarrow> nat" where
  "PipeDeadline_Wait d = dl_gen d"

text \<open>Whether the channel of a generation is closed.\<close>

definition isClosedChan :: "PipeDeadline \<Rightarrow> nat \<Rightarrow> bool" where
  "isClosedChan d g \<longleftrightarrow> g < dl_gen d \<or> dl_closed d"

section \<open>The pipe\<close>

datatype wpc = WEnter | WLock | WSend nat | WDone "go_error option"
datatype rpc = REnter | RWait nat | RDone "go_error option"

record writer =
  w_data :: bytes
  w_n :: nat
  w_pc :: wpc

record reader =
  r_cap :: nat
  r_got :: bytes
  r_pc :: rpc

record pipe =
  pi_done :: bool
  pi_rerr :: "go_error option"
  pi_werr :: "go_error option"
  pi_readDeadline :: PipeDeadline
  pi_writeDeadline :: PipeDeadline
  pi_wrMu :: "nat option"
  pi_writers :: "writer list"
  pi_readers :: "reader list"
  pi_locked :: "nat list"
  pi_served :: "nat list"

definition Pipe :: pipe where
  "Pipe = \<lparr>pi_done = False, pi_rerr = None, pi_werr = None, pi_readDeadline = MakePipeDeadline, pi_writeDeadline = MakePipeDeadline,
     pi_wrMu = None, pi_writers = [], pi_readers = [], pi_locked = [], pi_served = []\<rparr>"

definition onceError_Store :: "go_error \<Rightarrow> go_error option \<Rightarrow> go_error option" where
  "onceError_Store err a = (if a \<noteq> None then a else Some err)"

definition closeRead :: "go_error option \<Rightarrow> pipe \<Rightarrow> pipe" where
  "closeRead err p =
     p\<lparr>pi_rerr := onceError_Store (case err of None \<Rightarrow> ErrClosedPipe | Some e \<Rightarrow> e) (pi_rerr p), pi_done := True\<rparr>"

definition closeWrite :: "go_error option \<Rightarrow> pipe \<Rightarrow> pipe" where
  "closeWrite err p =
     p\<lparr>pi_werr := onceError_Store (case err of None \<Rightarrow> EOF | Some e \<Rightarrow> e) (pi_werr p), pi_done := True\<rparr>"

definition readCloseError :: "pipe \<Rightarrow> go_error" where
  "readCloseError p = (case (pi_rerr p, pi_werr p) of (None, Some werr) \<Rightarrow> werr | _ \<Rightarrow> ErrClosedPipe)"

definition writeCloseError :: "pipe \<Rightarrow> go_error" where
  "writeCloseError p = (case (pi_werr p, pi_rerr p) of (None, Some rerr) \<Rightarrow> rerr | _ \<Rightarrow> ErrClosedPipe)"

definition SetReadDeadline :: "int \<Rightarrow> int option \<Rightarrow> pipe \<Rightarrow> pipe \<times> go_error option" where
  "SetReadDeadline now t p =
     (if pi_done p then (p, Some ErrClosedPipe)
      else (p\<lparr>pi_readDeadline := PipeDeadline_Set now t (pi_readDeadline p)\<rparr>, None))"

definition SetWriteDeadline :: "int \<Rightarrow> int option \<Rightarrow> pipe \<Rightarrow> pipe \<times> go_error option" where
  "SetWriteDeadline now t p =
     (if pi_done p then (p, Some ErrClosedPipe)
      else (p\<lparr>pi_writeDeadline := PipeDeadline_Set now t (pi_writeDeadline p)\<rparr>, None))"

subsection \<open>Threads\<close>

definition upd_writer :: "nat \<Rightarrow> (writer \<Rightarrow> writer) \<Rightarrow> pipe \<Rightarrow> pipe" where
  "upd_writer i f p = p\<lparr>pi_writers := (pi_writers p)[i := f (pi_writers p ! i)]\<rparr>"

definition upd_reader :: "nat \<Rightarrow> (reader \<Rightarrow> reader) \<Rightarrow> pipe \<Rightarrow> pipe" where
  "upd_reader j f p = p\<lparr>pi_readers := (pi_readers p)[j := f (pi_readers p ! j)]\<rparr>"

text \<open>Returning from \<^verbatim>\<open>write\<close>; the deferred unlock releases the lock if this writer has it.\<close>

definition write_return :: "nat \<Rightarrow> go_error option \<Rightarrow> pipe \<Rightarrow> pipe" where
  "write_return i err p =
     (upd_writer i (\<lambda>w. w\<lparr>w_pc := WDone err\<rparr>) p)\<lparr>pi_wrMu := (if pi_wrMu p = Some i then None else pi_wrMu p)\<rparr>"

definition read_return :: "nat \<Rightarrow> go_error option \<Rightarrow> pipe \<Rightarrow> pipe" where
  "read_return j err = upd_reader j (\<lambda>r. r\<lparr>r_pc := RDone err\<rparr>)"

text \<open>The channel on which a thread waits for its deadline: at the first \<^verbatim>\<open>select\<close> it is the current one.\<close>

definition write_waits :: "pipe \<Rightarrow> writer \<Rightarrow> nat option" where
  "write_waits p w =
     (case w_pc w of WEnter \<Rightarrow> Some (PipeDeadline_Wait (pi_writeDeadline p)) | WSend g \<Rightarrow> Some g | _ \<Rightarrow> None)"

definition read_waits :: "pipe \<Rightarrow> reader \<Rightarrow> nat option" where
  "read_waits p r =
     (case r_pc r of REnter \<Rightarrow> Some (PipeDeadline_Wait (pi_readDeadline p)) | RWait g \<Rightarrow> Some g | _ \<Rightarrow> None)"

text \<open>The hand-over of one chunk. The reader returns what it copied; the writer goes on with the rest, or returns
  when nothing is left.\<close>

definition handover :: "nat \<Rightarrow> nat \<Rightarrow> pipe \<Rightarrow> pipe" where
  "handover i j p =
     (let w = pi_writers p ! i; bw = drop (w_n w) (w_data w);
          chunk = take (r_cap (pi_readers p ! j)) bw; n = w_n w + length chunk;
          p1 = (upd_reader j (\<lambda>r. r\<lparr>r_got := chunk, r_pc := RDone None\<rparr>) p)\<lparr>pi_served := pi_served p @ [j]\<rparr>;
          p2 = upd_writer i (\<lambda>w. w\<lparr>w_n := n, w_pc := WSend (PipeDeadline_Wait (pi_writeDeadline p))\<rparr>) p1
      in if n < length (w_data w) then p2 else write_return i None p2)"

inductive pipe_step :: "pipe \<Rightarrow> pipe \<Rightarrow> bool" where
  write_call: "pipe_step p (p\<lparr>pi_writers := pi_writers p @ [\<lparr>w_data = b, w_n = 0, w_pc = WEnter\<rparr>]\<rparr>)"
| write_closed: "i < length (pi_writers p) \<Longrightarrow> write_waits p (pi_writers p ! i) \<noteq> None \<Longrightarrow> pi_done p \<Longrightarrow>
    pipe_step p (write_return i (Some (writeCloseError p)) p)"
| write_timeout: "i < length (pi_writers p) \<Longrightarrow> write_waits p (pi_writers p ! i) = Some g \<Longrightarrow>
    isClosedChan (pi_writeDeadline p) g \<Longrightarrow> pipe_step p (write_return i (Some ErrDeadlineExceeded) p)"
| write_enter: "i < length (pi_writers p) \<Longrightarrow> w_pc (pi_writers p ! i) = WEnter \<Longrightarrow> \<not> pi_done p \<Longrightarrow> \<not> dl_closed (pi_writeDeadline p) \<Longrightarrow>
    pipe_step p (upd_writer i (\<lambda>w. w\<lparr>w_pc := WLock\<rparr>) p)"
| write_lock: "i < length (pi_writers p) \<Longrightarrow> w_pc (pi_writers p ! i) = WLock \<Longrightarrow> pi_wrMu p = None \<Longrightarrow>
    pipe_step p ((upd_writer i (\<lambda>w. w\<lparr>w_pc := WSend (PipeDeadline_Wait (pi_writeDeadline p))\<rparr>) p)
      \<lparr>pi_wrMu := Some i, pi_locked := pi_locked p @ [i]\<rparr>)"
| read_call: "pipe_step p (p\<lparr>pi_readers := pi_readers p @ [\<lparr>r_cap = n, r_got = [], r_pc = REnter\<rparr>]\<rparr>)"
| read_closed: "j < length (pi_readers p) \<Longrightarrow> read_waits p (pi_readers p ! j) \<noteq> None \<Longrightarrow> pi_done p \<Longrightarrow>
    pipe_step p (read_return j (Some (readCloseError p)) p)"
| read_timeout: "j < length (pi_readers p) \<Longrightarrow> read_waits p (pi_readers p ! j) = Some g \<Longrightarrow>
    isClosedChan (pi_readDeadline p) g \<Longrightarrow> pipe_step p (read_return j (Some ErrDeadlineExceeded) p)"
| read_enter: "j < length (pi_readers p) \<Longrightarrow> r_pc (pi_readers p ! j) = REnter \<Longrightarrow> \<not> pi_done p \<Longrightarrow> \<not> dl_closed (pi_readDeadline p) \<Longrightarrow>
    pipe_step p (upd_reader j (\<lambda>r. r\<lparr>r_pc := RWait (PipeDeadline_Wait (pi_readDeadline p))\<rparr>) p)"
| handover: "i < length (pi_writers p) \<Longrightarrow> w_pc (pi_writers p ! i) = WSend g \<Longrightarrow>
    j < length (pi_readers p) \<Longrightarrow> r_pc (pi_readers p ! j) = RWait h \<Longrightarrow> pipe_step p (handover i j p)"
| close_read: "pipe_step p (closeRead err p)"
| close_write: "pipe_step p (closeWrite err p)"
| set_read: "pipe_step p (fst (SetReadDeadline now t p))"
| set_write: "pipe_step p (fst (SetWriteDeadline now t p))"
| fire_read: "dl_timer (pi_readDeadline p) \<noteq> None \<Longrightarrow> pipe_step p (p\<lparr>pi_readDeadline := PipeDeadline_fire (pi_readDeadline p)\<rparr>)"
| fire_write: "dl_timer (pi_writeDeadline p) \<noteq> None \<Longrightarrow> pipe_step p (p\<lparr>pi_writeDeadline := PipeDeadline_fire (pi_writeDeadline p)\<rparr>)"

inductive_cases pipe_stepE: "pipe_step p q"
section \<open>The invariant\<close>

definition accepted :: "pipe \<Rightarrow> nat \<Rightarrow> bytes" where
  "accepted p i = take (w_n (pi_writers p ! i)) (w_data (pi_writers p ! i))"

definition writer_ok :: "nat option \<Rightarrow> nat list \<Rightarrow> nat \<Rightarrow> writer \<Rightarrow> bool" where
  "writer_ok mu locked i w \<longleftrightarrow> w_n w \<le> length (w_data w) \<and> (i \<notin> set locked \<longrightarrow> w_n w = 0) \<and>
     (w_pc w = WEnter \<or> w_pc w = WLock \<longrightarrow> i \<notin> set locked) \<and> ((\<exists>g. w_pc w = WSend g) \<longleftrightarrow> mu = Some i) \<and>
     (w_pc w = WDone None \<longrightarrow> w_n w = length (w_data w))"

definition writers_ok :: "nat option \<Rightarrow> writer list \<Rightarrow> nat list \<Rightarrow> bool" where
  "writers_ok mu ws locked \<longleftrightarrow> distinct locked \<and> (\<forall>i \<in> set locked. i < length ws) \<and>
     (\<forall>i < length ws. writer_ok mu locked i (ws ! i)) \<and> (\<forall>i. mu = Some i \<longrightarrow> i < length ws \<and> locked \<noteq> [] \<and> last locked = i)"

definition readers_ok :: "reader list \<Rightarrow> nat list \<Rightarrow> bool" where
  "readers_ok rs served \<longleftrightarrow> distinct served \<and> (\<forall>j \<in> set served. j < length rs \<and> r_pc (rs ! j) = RDone None) \<and>
     (\<forall>j < length rs. length (r_got (rs ! j)) \<le> r_cap (rs ! j) \<and> (j \<notin> set served \<longrightarrow> r_got (rs ! j) = [] \<and> r_pc (rs ! j) \<noteq> RDone None))"

definition pipe_ok :: "pipe \<Rightarrow> bool" where
  "pipe_ok p \<longleftrightarrow> writers_ok (pi_wrMu p) (pi_writers p) (pi_locked p) \<and> readers_ok (pi_readers p) (pi_served p) \<and>
     concat (map (\<lambda>j. r_got (pi_readers p ! j)) (pi_served p)) = concat (map (accepted p) (pi_locked p))"

lemma upd_writer_fields [simp]:
  "pi_wrMu (upd_writer i f p) = pi_wrMu p" "pi_locked (upd_writer i f p) = pi_locked p" "pi_readers (upd_writer i f p) = pi_readers p"
  "pi_served (upd_writer i f p) = pi_served p" "pi_writers (upd_writer i f p) = (pi_writers p)[i := f (pi_writers p ! i)]"
  by (simp_all add: upd_writer_def)

lemma upd_reader_fields [simp]:
  "pi_wrMu (upd_reader j f p) = pi_wrMu p" "pi_locked (upd_reader j f p) = pi_locked p" "pi_writers (upd_reader j f p) = pi_writers p"
  "pi_served (upd_reader j f p) = pi_served p" "pi_readers (upd_reader j f p) = (pi_readers p)[j := f (pi_readers p ! j)]"
  "pi_writeDeadline (upd_reader j f p) = pi_writeDeadline p"
  by (simp_all add: upd_reader_def)

lemma pipe_ok_cong:
  assumes "pi_wrMu q = pi_wrMu p" "pi_writers q = pi_writers p" "pi_locked q = pi_locked p" "pi_readers q = pi_readers p" "pi_served q = pi_served p"
  shows "pipe_ok q = pipe_ok p"
proof -
  have "accepted q = accepted p" using assms(2) by (simp add: accepted_def fun_eq_iff)
  then show ?thesis using assms by (simp add: pipe_ok_def)
qed

text \<open>A writer that only moves its program counter.\<close>

lemma accepted_pc: "accepted (upd_writer i (\<lambda>w. w\<lparr>w_pc := c\<rparr>) p) k = accepted p k"
  by (cases "i < length (pi_writers p)"; cases "k = i") (simp_all add: accepted_def not_less list_update_beyond)

lemma writers_ok_update:
  assumes "writers_ok mu ws locked" "i < length ws" "writer_ok mu' locked i w"
    and "\<And>k. k \<noteq> i \<Longrightarrow> (mu' = Some k) = (mu = Some k)" "mu' = Some i \<Longrightarrow> mu = Some i"
  shows "writers_ok mu' (ws[i := w]) locked"
proof -
  have "writer_ok mu' locked k (ws[i := w] ! k)" if k: "k < length ws" for k
  proof (cases "k = i")
    case True
    then show ?thesis using assms(2,3) by simp
  next
    case False
    have "writer_ok mu locked k (ws ! k)" using assms(1) k by (simp add: writers_ok_def)
    then have "writer_ok mu' locked k (ws ! k)" unfolding writer_ok_def assms(4) [OF False] .
    then show ?thesis using False by simp
  qed
  moreover have "mu = Some k" if "mu' = Some k" for k using assms(4) [of k] assms(5) that by (cases "k = i") simp_all
  ultimately show ?thesis using assms(1) unfolding writers_ok_def length_list_update by blast
qed

lemma writers_okD: "writers_ok mu ws locked \<Longrightarrow> i < length ws \<Longrightarrow> writer_ok mu locked i (ws ! i)"
  by (simp add: writers_ok_def)

lemma writers_ok_return:
  assumes "writers_ok mu ws locked" "i < length ws" "err = None \<Longrightarrow> w_n (ws ! i) = length (w_data (ws ! i))"
  shows "writers_ok (if mu = Some i then None else mu) (ws[i := (ws ! i)\<lparr>w_pc := WDone err\<rparr>]) locked"
  using writers_okD [OF assms(1,2)] assms(3) by (intro writers_ok_update [OF assms(1,2)]) (auto simp: writer_ok_def)

lemma writers_ok_move:
  assumes "writers_ok mu ws locked" "i < length ws" "w_pc (ws ! i) = WEnter"
  shows "writers_ok mu (ws[i := (ws ! i)\<lparr>w_pc := WLock\<rparr>]) locked"
  using writers_okD [OF assms(1,2)] assms(3) by (intro writers_ok_update [OF assms(1,2)]) (simp_all add: writer_ok_def)

lemma writers_ok_lock:
  assumes "writers_ok None ws locked" "i < length ws" "w_pc (ws ! i) = WLock"
  shows "writers_ok (Some i) (ws[i := (ws ! i)\<lparr>w_pc := WSend g\<rparr>]) (locked @ [i])"
proof -
  have i: "i \<notin> set locked" "w_n (ws ! i) = 0" using writers_okD [OF assms(1,2)] assms(3) by (simp_all add: writer_ok_def)
  have "writer_ok (Some i) (locked @ [i]) k (ws[i := (ws ! i)\<lparr>w_pc := WSend g\<rparr>] ! k)" if "k < length ws" for k
    using writers_okD [OF assms(1) that] i that by (cases "k = i") (simp_all add: writer_ok_def)
  then show ?thesis using assms(1,2) i(1) unfolding writers_ok_def by simp
qed

lemma writers_ok_send:
  assumes "writers_ok (Some i) ws locked" "i < length ws" "n \<le> length (w_data (ws ! i))"
  shows "writers_ok (Some i) (ws[i := (ws ! i)\<lparr>w_n := n, w_pc := WSend g\<rparr>]) locked"
proof -
  have "i \<in> set locked" using assms(1) unfolding writers_ok_def by (metis last_in_set)
  then show ?thesis using assms(3) by (intro writers_ok_update [OF assms(1,2)]) (simp_all add: writer_ok_def)
qed

lemma readers_ok_return:
  assumes "readers_ok rs served" "j < length rs" "j \<notin> set served" "err \<noteq> None"
  shows "readers_ok (rs[j := (rs ! j)\<lparr>r_pc := RDone err\<rparr>]) served"
  using assms unfolding readers_ok_def by (auto simp: nth_list_update)

lemma readers_ok_wait:
  assumes "readers_ok rs served" "j < length rs" "j \<notin> set served"
  shows "readers_ok (rs[j := (rs ! j)\<lparr>r_pc := RWait g\<rparr>]) served"
  using assms unfolding readers_ok_def by (auto simp: nth_list_update)

lemma readers_ok_serve:
  assumes "readers_ok rs served" "j < length rs" "j \<notin> set served" "length chunk \<le> r_cap (rs ! j)"
  shows "readers_ok (rs[j := (rs ! j)\<lparr>r_got := chunk, r_pc := RDone None\<rparr>]) (served @ [j])"
  using assms unfolding readers_ok_def by (auto simp: nth_list_update)

section \<open>The invariant is kept\<close>

lemma pipe_ok_write_return:
  assumes "pipe_ok p" "i < length (pi_writers p)" "err = None \<Longrightarrow> w_n (pi_writers p ! i) = length (w_data (pi_writers p ! i))"
  shows "pipe_ok (write_return i err p)"
proof -
  have "accepted (write_return i err p) = accepted p"
    using accepted_pc by (auto simp: write_return_def accepted_def fun_eq_iff)
  then show ?thesis using assms writers_ok_return [of "pi_wrMu p" "pi_writers p" "pi_locked p" i err]
    by (simp add: pipe_ok_def write_return_def)
qed

lemma pipe_ok_read:
  assumes "pipe_ok p" "j < length (pi_readers p)" "j \<notin> set (pi_served p)" "\<And>r. r_got (f r) = r_got r"
    and "readers_ok ((pi_readers p)[j := f (pi_readers p ! j)]) (pi_served p)"
  shows "pipe_ok (upd_reader j f p)"
proof -
  have "accepted (upd_reader j f p) = accepted p" by (simp add: accepted_def fun_eq_iff)
  moreover have "map (\<lambda>k. r_got ((pi_readers p)[j := f (pi_readers p ! j)] ! k)) (pi_served p) = map (\<lambda>k. r_got (pi_readers p ! k)) (pi_served p)"
    using assms(3) by (intro map_cong) (auto intro: nth_list_update_neq arg_cong [of _ _ r_got])
  ultimately show ?thesis using assms(1,5) by (simp add: pipe_ok_def del: map_eq_conv)
qed

lemma unserved: "pipe_ok p \<Longrightarrow> j < length (pi_readers p) \<Longrightarrow> r_pc (pi_readers p ! j) \<noteq> RDone None \<Longrightarrow> j \<notin> set (pi_served p)"
  by (auto simp: pipe_ok_def readers_ok_def)

lemma pipe_ok_handover:
  assumes ok: "pipe_ok p" and i: "i < length (pi_writers p)" "w_pc (pi_writers p ! i) = WSend g"
    and j: "j < length (pi_readers p)" "r_pc (pi_readers p ! j) = RWait h"
  shows "pipe_ok (handover i j p)"
proof -
  let ?w = "pi_writers p ! i" and ?r = "pi_readers p ! j" and ?g = "WSend (PipeDeadline_Wait (pi_writeDeadline p))"
  define chunk where "chunk = take (r_cap ?r) (drop (w_n ?w) (w_data ?w))"
  define n where "n = w_n ?w + length chunk"
  let ?p1 = "(upd_reader j (\<lambda>r. r\<lparr>r_got := chunk, r_pc := RDone None\<rparr>) p)\<lparr>pi_served := pi_served p @ [j]\<rparr>"
  let ?p2 = "upd_writer i (\<lambda>w. w\<lparr>w_n := n, w_pc := ?g\<rparr>) ?p1"
  have wo: "writers_ok (pi_wrMu p) (pi_writers p) (pi_locked p)" and ro: "readers_ok (pi_readers p) (pi_served p)" using ok by (simp_all add: pipe_ok_def)
  have w: "pi_wrMu p = Some i" "w_n ?w \<le> length (w_data ?w)" using writers_okD [OF wo i(1)] i(2) by (simp_all add: writer_ok_def)
  have n: "n \<le> length (w_data ?w)" "take n (w_data ?w) = take (w_n ?w) (w_data ?w) @ chunk"
    using w(2) by (auto simp: n_def chunk_def take_add min_def)
  have s: "j \<notin> set (pi_served p)" using unserved [OF ok j(1)] j(2) by simp
  obtain ls where ls: "pi_locked p = ls @ [i]" "i \<notin> set ls"
    using wo w(1) unfolding writers_ok_def by (metis append_butlast_last_id distinct_append disjoint_iff list.set_intros(1))
  have acc: "accepted ?p2 i = accepted p i @ chunk" "\<And>k. k \<noteq> i \<Longrightarrow> accepted ?p2 k = accepted p k"
    using i(1) n(2) by (simp_all add: accepted_def)
  have "map (accepted ?p2) ls = map (accepted p) ls" using ls(2) acc(2) by (metis (mono_tags, lifting) map_eq_conv)
  then have a: "concat (map (accepted ?p2) (pi_locked p)) = concat (map (accepted p) (pi_locked p)) @ chunk" using ls(1) acc(1) by (simp del: map_eq_conv)
  have "map (\<lambda>k. r_got (pi_readers ?p2 ! k)) (pi_served p) = map (\<lambda>k. r_got (pi_readers p ! k)) (pi_served p)"
    using s by (intro map_cong) (auto intro: nth_list_update_neq arg_cong [of _ _ r_got])
  then have r: "concat (map (\<lambda>k. r_got (pi_readers ?p2 ! k)) (pi_served ?p2)) = concat (map (\<lambda>k. r_got (pi_readers p ! k)) (pi_served p)) @ chunk"
    using j(1) by (simp del: map_eq_conv)
  have "length chunk \<le> r_cap ?r" by (simp add: chunk_def)
  then have "readers_ok (pi_readers ?p2) (pi_served ?p2)" using readers_ok_serve [OF ro j(1) s] by simp
  moreover have "writers_ok (pi_wrMu ?p2) (pi_writers ?p2) (pi_locked ?p2)"
    using writers_ok_send [of i "pi_writers p" "pi_locked p" n] wo w(1) i(1) n(1) by simp
  moreover have "concat (map (\<lambda>k. r_got (pi_readers p ! k)) (pi_served p)) = concat (map (accepted p) (pi_locked p))" using ok by (simp add: pipe_ok_def)
  ultimately have ok2: "pipe_ok ?p2" unfolding pipe_ok_def using a r by simp
  have "handover i j p = (if n < length (w_data ?w) then ?p2 else write_return i None ?p2)"
    unfolding handover_def Let_def chunk_def [symmetric] n_def [symmetric] by simp
  then show ?thesis using ok2 pipe_ok_write_return [OF ok2, of i None] n(1) i(1) by simp
qed

lemma pipe_ok_step: "pipe_step p q \<Longrightarrow> pipe_ok p \<Longrightarrow> pipe_ok q"
proof (induction rule: pipe_step.induct)
  case (write_call p b)
  let ?q = "p\<lparr>pi_writers := pi_writers p @ [\<lparr>w_data = b, w_n = 0, w_pc = WEnter\<rparr>]\<rparr>"
  have lt: "\<forall>i \<in> set (pi_locked p). i < length (pi_writers p)" and mu: "\<And>i. pi_wrMu p = Some i \<Longrightarrow> i < length (pi_writers p)"
    and ws: "\<And>i. i < length (pi_writers p) \<Longrightarrow> writer_ok (pi_wrMu p) (pi_locked p) i (pi_writers p ! i)"
    using write_call unfolding pipe_ok_def writers_ok_def by simp_all
  have "writer_ok (pi_wrMu p) (pi_locked p) i (pi_writers ?q ! i)" if "i < Suc (length (pi_writers p))" for i
  proof (cases "i < length (pi_writers p)")
    case True
    then show ?thesis using ws by (simp add: nth_append)
  next
    case False
    then have "i = length (pi_writers p)" using that by simp
    then show ?thesis using lt mu by (auto simp: writer_ok_def)
  qed
  then have "writers_ok (pi_wrMu ?q) (pi_writers ?q) (pi_locked ?q)"
    using write_call lt mu unfolding pipe_ok_def writers_ok_def by (simp add: less_SucI)
  moreover have "map (accepted ?q) (pi_locked p) = map (accepted p) (pi_locked p)"
    using lt by (intro map_cong) (simp_all add: accepted_def nth_append)
  ultimately show ?case using write_call by (simp add: pipe_ok_def del: map_eq_conv)
next
  case (read_call p n)
  let ?q = "p\<lparr>pi_readers := pi_readers p @ [\<lparr>r_cap = n, r_got = [], r_pc = REnter\<rparr>]\<rparr>"
  have lt: "\<forall>j \<in> set (pi_served p). j < length (pi_readers p)" using read_call unfolding pipe_ok_def readers_ok_def by simp
  have "readers_ok (pi_readers ?q) (pi_served ?q)"
    using read_call unfolding pipe_ok_def readers_ok_def by (auto simp: nth_append less_Suc_eq)
  moreover have "map (\<lambda>j. r_got (pi_readers ?q ! j)) (pi_served p) = map (\<lambda>j. r_got (pi_readers p ! j)) (pi_served p)"
    using lt by (intro map_cong) (simp_all add: nth_append)
  moreover have "accepted ?q = accepted p" by (simp add: accepted_def fun_eq_iff)
  ultimately show ?case using read_call by (simp add: pipe_ok_def del: map_eq_conv)
next
  case (write_enter i p)
  have "accepted (upd_writer i (\<lambda>w. w\<lparr>w_pc := WLock\<rparr>) p) = accepted p" using accepted_pc by (simp add: fun_eq_iff)
  then show ?case using write_enter writers_ok_move [of "pi_wrMu p" "pi_writers p" "pi_locked p" i] by (simp add: pipe_ok_def)
next
  case (write_lock i p)
  let ?f = "\<lambda>w. w\<lparr>w_pc := WSend (PipeDeadline_Wait (pi_writeDeadline p))\<rparr>"
  let ?q = "(upd_writer i ?f p)\<lparr>pi_wrMu := Some i, pi_locked := pi_locked p @ [i]\<rparr>"
  have wo: "writers_ok None (pi_writers p) (pi_locked p)" using write_lock by (simp add: pipe_ok_def)
  have new: "accepted ?q k = accepted p k" for k using accepted_pc [of i _ p k] by (simp add: accepted_def)
  have "i \<notin> set (pi_locked p)" "w_n (pi_writers p ! i) = 0" using writers_okD [OF wo write_lock(1)] write_lock(2) by (simp_all add: writer_ok_def)
  then have "accepted ?q i = []" using new [of i] by (simp add: accepted_def)
  moreover have "accepted ?q = accepted p" using new by (simp add: fun_eq_iff)
  ultimately show ?case using write_lock writers_ok_lock [OF wo write_lock(1,2)] by (simp add: pipe_ok_def)
next
  case (read_closed j p)
  then have "r_pc (pi_readers p ! j) \<noteq> RDone None" by (auto simp: read_waits_def)
  then have u: "j \<notin> set (pi_served p)" using unserved read_closed by blast
  show ?case unfolding read_return_def
    using read_closed readers_ok_return [OF _ read_closed(1) u] by (intro pipe_ok_read [OF _ read_closed(1) u]) (simp_all add: pipe_ok_def)
next
  case (read_timeout j p g)
  then have "r_pc (pi_readers p ! j) \<noteq> RDone None" by (auto simp: read_waits_def)
  then have u: "j \<notin> set (pi_served p)" using unserved read_timeout by blast
  show ?case unfolding read_return_def
    using read_timeout readers_ok_return [OF _ read_timeout(1) u] by (intro pipe_ok_read [OF _ read_timeout(1) u]) (simp_all add: pipe_ok_def)
next
  case (read_enter j p)
  then have u: "j \<notin> set (pi_served p)" using unserved by simp
  show ?case using read_enter readers_ok_wait [OF _ read_enter(1) u] by (intro pipe_ok_read [OF _ read_enter(1) u]) (simp_all add: pipe_ok_def)
next
  case (handover i p g j h)
  then show ?case using pipe_ok_handover by blast
next
  case (close_read p err)
  show ?case using close_read by (subst pipe_ok_cong [where p = p]) (simp_all add: closeRead_def)
next
  case (close_write p err)
  show ?case using close_write by (subst pipe_ok_cong [where p = p]) (simp_all add: closeWrite_def)
next
  case (set_read p now t)
  show ?case using set_read by (subst pipe_ok_cong [where p = p]) (simp_all add: SetReadDeadline_def)
next
  case (set_write p now t)
  show ?case using set_write by (subst pipe_ok_cong [where p = p]) (simp_all add: SetWriteDeadline_def)
next
  case (fire_read p)
  show ?case using fire_read(2) by (subst pipe_ok_cong [where p = p]) (simp_all)
next
  case (fire_write p)
  show ?case using fire_write(2) by (subst pipe_ok_cong [where p = p]) (simp_all)
qed (auto intro: pipe_ok_write_return)

lemma pipe_ok_run: "pipe_step\<^sup>*\<^sup>* Pipe p \<Longrightarrow> pipe_ok p"
proof (induction rule: rtranclp_induct)
  case base
  show ?case by (simp add: pipe_ok_def Pipe_def writers_ok_def readers_ok_def)
qed (rule pipe_ok_step)

section \<open>Claims\<close>

text \<open>C19. A pipe hands bytes over in order. Whatever concurrent calls read, write, close and set deadlines: the bytes
  that reads returned, in the order the reads were served, are the bytes that writes handed over, in
  the order the writes got their turn, with nothing lost, repeated or interleaved; a write that
  returns without an error has handed over all its data, and its count is always what was handed
  over; a read never returns more than it asked for, and a read that fails returns nothing.\<close>

theorem pipe_in_order:
  assumes "pipe_step\<^sup>*\<^sup>* Pipe p"
  shows "concat (map (\<lambda>j. r_got (pi_readers p ! j)) (pi_served p)) =
      concat (map (\<lambda>i. take (w_n (pi_writers p ! i)) (w_data (pi_writers p ! i))) (pi_locked p)) \<and>
    distinct (pi_served p) \<and> distinct (pi_locked p) \<and>
    (\<forall>w \<in> set (pi_writers p). w_n w \<le> length (w_data w) \<and> (w_pc w = WDone None \<longrightarrow> w_n w = length (w_data w))) \<and>
    (\<forall>r \<in> set (pi_readers p). length (r_got r) \<le> r_cap r \<and> (\<forall>e. r_pc r = RDone (Some e) \<longrightarrow> r_got r = []))"
proof -
  have wo: "writers_ok (pi_wrMu p) (pi_writers p) (pi_locked p)" and ro: "readers_ok (pi_readers p) (pi_served p)"
    and flow: "concat (map (\<lambda>j. r_got (pi_readers p ! j)) (pi_served p)) = concat (map (accepted p) (pi_locked p))"
    using pipe_ok_run [OF assms] by (simp_all add: pipe_ok_def)
  have "w_n w \<le> length (w_data w) \<and> (w_pc w = WDone None \<longrightarrow> w_n w = length (w_data w))" if "w \<in> set (pi_writers p)" for w
    using that writers_okD [OF wo] by (auto simp: in_set_conv_nth writer_ok_def)
  moreover have "length (r_got r) \<le> r_cap r \<and> (\<forall>e. r_pc r = RDone (Some e) \<longrightarrow> r_got r = [])" if r: "r \<in> set (pi_readers p)" for r
  proof -
    obtain j where j: "j < length (pi_readers p)" "r = pi_readers p ! j" using r by (auto simp: in_set_conv_nth)
    show ?thesis using ro j unfolding readers_ok_def by (cases "j \<in> set (pi_served p)") auto
  qed
  ultimately show ?thesis using wo ro flow by (simp add: writers_ok_def readers_ok_def accepted_def [abs_def])
qed

text \<open>A write of three bytes meets a read of two.\<close>

definition demo_pipe :: pipe where
  "demo_pipe =
     (let p1 = Pipe\<lparr>pi_writers := pi_writers Pipe @ [\<lparr>w_data = [1, 2, 3], w_n = 0, w_pc = WEnter\<rparr>]\<rparr>;
          p2 = p1\<lparr>pi_readers := pi_readers p1 @ [\<lparr>r_cap = 2, r_got = [], r_pc = REnter\<rparr>]\<rparr>;
          p3 = upd_writer 0 (\<lambda>w. w\<lparr>w_pc := WLock\<rparr>) p2;
          p4 = (upd_writer 0 (\<lambda>w. w\<lparr>w_pc := WSend (PipeDeadline_Wait (pi_writeDeadline p3))\<rparr>) p3)
            \<lparr>pi_wrMu := Some 0, pi_locked := pi_locked p3 @ [0]\<rparr>;
          p5 = upd_reader 0 (\<lambda>r. r\<lparr>r_pc := RWait (PipeDeadline_Wait (pi_readDeadline p4))\<rparr>) p4
      in handover 0 0 p5)"

lemma demo_pipe_run: "pipe_step\<^sup>*\<^sup>* Pipe demo_pipe"
proof -
  let ?a = "Pipe\<lparr>pi_writers := pi_writers Pipe @ [\<lparr>w_data = [1, 2, 3], w_n = 0, w_pc = WEnter\<rparr>]\<rparr>"
  let ?b = "?a\<lparr>pi_readers := pi_readers ?a @ [\<lparr>r_cap = 2, r_got = [], r_pc = REnter\<rparr>]\<rparr>"
  let ?c = "upd_writer 0 (\<lambda>w. w\<lparr>w_pc := WLock\<rparr>) ?b"
  let ?d = "(upd_writer 0 (\<lambda>w. w\<lparr>w_pc := WSend (PipeDeadline_Wait (pi_writeDeadline ?c))\<rparr>) ?c)\<lparr>pi_wrMu := Some 0, pi_locked := pi_locked ?c @ [0]\<rparr>"
  let ?e = "upd_reader 0 (\<lambda>r. r\<lparr>r_pc := RWait (PipeDeadline_Wait (pi_readDeadline ?d))\<rparr>) ?d"
  note d = Pipe_def MakePipeDeadline_def upd_writer_def upd_reader_def
  have "pipe_step Pipe ?a" by (rule pipe_step.write_call)
  moreover have "pipe_step ?a ?b" by (rule pipe_step.read_call)
  moreover have "pipe_step ?b ?c" by (rule pipe_step.write_enter) (simp_all add: d)
  moreover have "pipe_step ?c ?d" by (rule pipe_step.write_lock) (simp_all add: d)
  moreover have "pipe_step ?d ?e" by (rule pipe_step.read_enter) (simp_all add: d)
  moreover have "pipe_step ?e (handover 0 0 ?e)" by (rule pipe_step.handover [of _ _ 0 _ 0]) (simp_all add: d PipeDeadline_Wait_def)
  ultimately show ?thesis unfolding demo_pipe_def Let_def by (meson converse_rtranclp_into_rtranclp rtranclp.rtrancl_refl)
qed

theorem pipe_in_order_witness:
  "r_got (pi_readers demo_pipe ! 0) = [1, 2] \<and>
   concat (map (\<lambda>j. r_got (pi_readers demo_pipe ! j)) (pi_served demo_pipe)) =
     concat (map (\<lambda>i. take (w_n (pi_writers demo_pipe ! i)) (w_data (pi_writers demo_pipe ! i))) (pi_locked demo_pipe))"
proof
  show "r_got (pi_readers demo_pipe ! 0) = [1, 2]" by code_simp
qed (rule conjunct1 [OF pipe_in_order [OF demo_pipe_run]])

text \<open>Reading from a closed pipe. A read that starts after the pipe was closed returns no byte and one of two errors:
  that of its expired deadline, or the error the writer closed with; it is \<^verbatim>\<open>ErrClosedPipe\<close> when the reader itself has closed. The error the writer
  closed with stays.\<close>

theorem read_after_close:
  assumes "pipe_step p q" and "pi_done p" and "j < length (pi_readers p)" and "r_pc (pi_readers p ! j) = REnter"
    and "pi_readers q ! j \<noteq> pi_readers p ! j"
  shows "r_got (pi_readers q ! j) = r_got (pi_readers p ! j) \<and>
    (r_pc (pi_readers q ! j) = RDone (Some ErrDeadlineExceeded) \<or>
     r_pc (pi_readers q ! j) = RDone (Some (case pi_rerr p of Some _ \<Rightarrow> ErrClosedPipe | None \<Rightarrow> (case pi_werr p of Some e \<Rightarrow> e | None \<Rightarrow> ErrClosedPipe)))) \<and>
    (\<forall>e. pi_werr p = Some e \<longrightarrow> pi_werr q = Some e)"
  using assms(1)
proof (cases rule: pipe_step.cases)
  case (read_closed k)
  then have "k = j" using assms(5) by (cases "k = j") (simp_all add: read_return_def)
  then show ?thesis using read_closed assms(3)
    by (auto simp: read_return_def upd_reader_def readCloseError_def closeWrite_def onceError_Store_def split: option.split)
next
  case (read_timeout k g)
  then have "k = j" using assms(5) by (cases "k = j") (simp_all add: read_return_def)
  then show ?thesis using read_timeout assms(3) by (simp add: read_return_def upd_reader_def closeWrite_def onceError_Store_def)
next
  case (handover i g k h)
  then have "k = j" using assms(5) by (cases "k = j") (simp_all add: handover_def write_return_def Let_def split: if_splits)
  then show ?thesis using handover assms(4) by simp
qed (use assms in \<open>auto simp: nth_append write_return_def closeRead_def closeWrite_def SetReadDeadline_def SetWriteDeadline_def\<close>)

lemma closed_without_error: "pi_werr p = None \<Longrightarrow> pi_werr (closeWrite None p) = Some EOF"
  by (simp add: closeWrite_def onceError_Store_def)

theorem read_after_close_witness:
  "\<exists>q. pipe_step (closeWrite None (Pipe\<lparr>pi_readers := [\<lparr>r_cap = 9, r_got = [], r_pc = REnter\<rparr>]\<rparr>)) q \<and> r_got (pi_readers q ! 0) = [] \<and>
     r_pc (pi_readers q ! 0) \<in> {RDone (Some ErrDeadlineExceeded), RDone (Some EOF)}"
proof -
  let ?p = "closeWrite None (Pipe\<lparr>pi_readers := [\<lparr>r_cap = 9, r_got = [], r_pc = REnter\<rparr>]\<rparr>)"
  let ?q = "read_return 0 (Some (readCloseError ?p)) ?p"
  have s: "pipe_step ?p ?q" by (rule pipe_step.read_closed) (simp_all add: closeWrite_def Pipe_def read_waits_def)
  have ne: "pi_readers ?q ! 0 \<noteq> pi_readers ?p ! 0" by (simp add: read_return_def closeWrite_def Pipe_def)
  from read_after_close [OF s _ _ _ ne] s show ?thesis
    by (intro exI [of _ ?q]) (simp add: closeWrite_def Pipe_def onceError_Store_def)
qed

end
