(* ===== verification/Geo_Loader.thy ===== *)
theory Geo_Loader
  imports Go_Strings
begin

text \<open>
  The geo databases (\<^verbatim>\<open>acl/geoloader.go\<close>, \<^verbatim>\<open>acl/v2geo/load.go\<close>): when a database is downloaded, that a download is
  checked before it replaces the file, and what is loaded. Loading addresses and loading sites is the same
  code for two types, so the operations are written once for any type of entry.

  Files are an association list from names to contents and modification time. Decoding the protocol buffer
  is a parameter, and so are the outcomes of the network and of the file system calls that may fail.
\<close>

section \<open>Files\<close>

record geo_files =
  gf_files :: "(string \<times> bytes \<times> int) list"
  gf_denied :: "string list"  \<comment> \<open>names whose status cannot be read\<close>

datatype stat_result = NotExist | StatFailed | Info nat int

definition Stat :: "geo_files \<Rightarrow> string \<Rightarrow> stat_result" where
  "Stat fs filename =
     (if filename \<in> set (gf_denied fs) then StatFailed
      else case map_of (gf_files fs) filename of None \<Rightarrow> NotExist | Some (b, t) \<Rightarrow> Info (length b) t)"

definition Remove :: "string \<Rightarrow> geo_files \<Rightarrow> geo_files" where
  "Remove filename fs = fs\<lparr>gf_files := AList.delete filename (gf_files fs)\<rparr>"

definition write_file :: "string \<Rightarrow> bytes \<Rightarrow> int \<Rightarrow> geo_files \<Rightarrow> geo_files" where
  "write_file filename b now fs = fs\<lparr>gf_files := AList.update filename (b, now) (gf_files fs)\<rparr>"

definition Rename :: "string \<Rightarrow> string \<Rightarrow> geo_files \<Rightarrow> geo_files" where
  "Rename old new fs =
     (case map_of (gf_files fs) old of
        None \<Rightarrow> fs
      | Some f \<Rightarrow> fs\<lparr>gf_files := AList.update new f (AList.delete old (gf_files fs))\<rparr>)"

section \<open>Loading a file\<close>

text \<open>\<open>Unmarshal\<close> gives the entries with their country codes. Later entries win.\<close>

definition load_map :: "(bytes \<Rightarrow> (string \<times> 'e) list option) \<Rightarrow> geo_files \<Rightarrow> string \<Rightarrow> (string \<times> 'e) list option" where
  "load_map Unmarshal fs filename =
     (case map_of (gf_files fs) filename of
        None \<Rightarrow> None
      | Some (bs, t) \<Rightarrow>
          (case Unmarshal bs of
             None \<Rightarrow> None
           | Some list \<Rightarrow> Some (fold (\<lambda>(code, entry) m. AList.update (ToLower code) entry m) list [])))"

section \<open>The loader\<close>

definition geoDefaultUpdateInterval :: int where
  "geoDefaultUpdateInterval = 7 * 24 * 3600 * 1000000000"

datatype geo_error = GetFailed | CreateTempFailed | CopyFailed | IntegrityCheckFailed | RenameFailed | LoadFailed | NilPanic

text \<open>A status that cannot be read for another reason than a missing file gives no information to look at:
  the code dereferences nil there.\<close>

definition shouldDownload :: "geo_files \<Rightarrow> int \<Rightarrow> int \<Rightarrow> string \<Rightarrow> geo_error + bool" where
  "shouldDownload fs updateInterval now filename =
     (case Stat fs filename of
        NotExist \<Rightarrow> Inr True
      | StatFailed \<Rightarrow> Inl NilPanic
      | Info n modTime \<Rightarrow>
          if n = 0 then Inr True
          else let dt = now - modTime
               in if updateInterval = 0 then Inr (dt > geoDefaultUpdateInterval) else Inr (dt > updateInterval))"

text \<open>One download: the response with whether all of it arrives, the temporary name if one can be made, and whether
  renaming works.\<close>

record transfer =
  tr_Get :: "string \<Rightarrow> (bytes \<times> bool) option"
  tr_CreateTemp :: "string option"
  tr_Rename :: bool
  tr_now :: int

definition downloadAndCheck ::
  "(geo_files \<Rightarrow> string \<Rightarrow> bool) \<Rightarrow> transfer \<Rightarrow> string \<Rightarrow> string \<Rightarrow> geo_files \<Rightarrow> geo_files \<times> geo_error option" where
  "downloadAndCheck check tr filename url fs =
     (case tr_Get tr url of
        None \<Rightarrow> (fs, Some GetFailed)
      | Some (body, complete) \<Rightarrow>
          (case tr_CreateTemp tr of
             None \<Rightarrow> (fs, Some CreateTempFailed)
           | Some tmp \<Rightarrow>
               (let fs1 = write_file tmp body (tr_now tr) fs
                in if \<not> complete then (Remove tmp fs1, Some CopyFailed)
                   else if \<not> check fs1 tmp then (Remove tmp fs1, Some IntegrityCheckFailed)
                   else if \<not> tr_Rename tr then (Remove tmp fs1, Some RenameFailed)
                   else (Remove tmp (Rename tmp filename fs1), None))))"

record 'e FileGeoLoader =
  fg_filename :: string
  fg_UpdateInterval :: int
  fg_map :: "(string \<times> 'e) list option"

text \<open>\<open>builtin\<close> is the name used when none is configured, and \<open>url\<close> where to download it from.\<close>

definition load_geo ::
  "(bytes \<Rightarrow> (string \<times> 'e) list option) \<Rightarrow> string \<Rightarrow> string \<Rightarrow> transfer \<Rightarrow> 'e FileGeoLoader \<Rightarrow> geo_files \<Rightarrow>
   'e FileGeoLoader \<times> geo_files \<times> (geo_error + (string \<times> 'e) list)" where
  "load_geo Unmarshal builtin url tr l fs =
     (case fg_map l of
        Some m \<Rightarrow> (l, fs, Inr m)
      | None \<Rightarrow>
          (let autoDL = (fg_filename l = []);
               filename = (if autoDL then builtin else fg_filename l);
               finish = (\<lambda>fs. case load_map Unmarshal fs filename of
                  None \<Rightarrow> (l, fs, Inl LoadFailed)
                | Some m \<Rightarrow> (l\<lparr>fg_map := Some m\<rparr>, fs, Inr m));
               download = (case downloadAndCheck (\<lambda>fs f. load_map Unmarshal fs f \<noteq> None) tr filename url fs of
                  (fs', None) \<Rightarrow> finish fs'
                | (fs', Some err) \<Rightarrow> if Stat fs' filename = NotExist then (l, fs', Inl err) else finish fs')
           in if \<not> autoDL then finish fs
              else case shouldDownload fs (fg_UpdateInterval l) (tr_now tr) filename of
                  Inl err \<Rightarrow> (l, fs, Inl err)
                | Inr True \<Rightarrow> download
                | Inr False \<Rightarrow>
                    (case load_map Unmarshal fs filename of
                       Some m \<Rightarrow> (l\<lparr>fg_map := Some m\<rparr>, fs, Inr m)
                     | None \<Rightarrow> download)))"

definition LoadGeoIP where
  "LoadGeoIP Unmarshal = load_geo Unmarshal ''geoip.dat'' ''https://cdn.jsdelivr.net/gh/Loyalsoldier/v2ray-rules-dat@release/geoip.dat''"

definition LoadGeoSite where
  "LoadGeoSite Unmarshal = load_geo Unmarshal ''geosite.dat'' ''https://cdn.jsdelivr.net/gh/Loyalsoldier/v2ray-rules-dat@release/geosite.dat''"
section \<open>What a load does to the files\<close>

lemma load_map_content: "map_of (gf_files fs) f = map_of (gf_files fs') f' \<Longrightarrow> load_map U fs f = load_map U fs' f'"
  by (simp add: load_map_def)

text \<open>A temporary name is new.\<close>

definition fresh_temp :: "transfer \<Rightarrow> geo_files \<Rightarrow> string \<Rightarrow> bool" where
  "fresh_temp tr fs filename \<longleftrightarrow> (\<forall>t. tr_CreateTemp tr = Some t \<longrightarrow> map_of (gf_files fs) t = None \<and> t \<noteq> filename)"

lemma downloadAndCheck_safe:
  assumes d: "downloadAndCheck (\<lambda>fs f. load_map U fs f \<noteq> None) tr filename url fs = (fs', err)" and t: "fresh_temp tr fs filename"
  shows "(\<forall>k. k \<noteq> filename \<longrightarrow> map_of (gf_files fs') k = map_of (gf_files fs) k) \<and> gf_denied fs' = gf_denied fs \<and>
    (if err = None then load_map U fs' filename \<noteq> None else map_of (gf_files fs') filename = map_of (gf_files fs) filename)"
proof (cases "tr_Get tr url")
  case None
  then show ?thesis using d by (auto simp: downloadAndCheck_def)
next
  case (Some g)
  obtain body complete where g: "tr_Get tr url = Some (body, complete)" using Some by (cases g) simp
  show ?thesis
  proof (cases "tr_CreateTemp tr")
    case None
    then show ?thesis using d g by (auto simp: downloadAndCheck_def)
  next
    case (Some tmp)
    let ?fs1 = "write_file tmp body (tr_now tr) fs" and ?ok = "complete \<and> load_map U (write_file tmp body (tr_now tr) fs) tmp \<noteq> None \<and> tr_Rename tr"
    have new: "map_of (gf_files fs) tmp = None" "tmp \<noteq> filename" using t Some by (simp_all add: fresh_temp_def)
    have rm: "map_of (gf_files (Remove tmp ?fs1)) k = map_of (gf_files fs) k" "gf_denied (Remove tmp ?fs1) = gf_denied fs" for k
      using new(1) by (simp_all add: Remove_def write_file_def)
    let ?fs2 = "Remove tmp (Rename tmp filename ?fs1)"
    have mv: "map_of (gf_files ?fs2) filename = map_of (gf_files ?fs1) tmp" "gf_denied ?fs2 = gf_denied fs"
      "\<And>k. k \<noteq> filename \<Longrightarrow> map_of (gf_files ?fs2) k = map_of (gf_files fs) k"
      using new by (simp_all add: Remove_def write_file_def Rename_def)
    show ?thesis
    proof (cases ?ok)
      case True
      then have "fs' = ?fs2" "err = None" using d g Some by (auto simp: downloadAndCheck_def Let_def)
      then show ?thesis using True mv load_map_content [OF mv(1), of U] by simp
    next
      case False
      then have "fs' = Remove tmp ?fs1" "err \<noteq> None" using d g Some by (auto simp: downloadAndCheck_def Let_def split: if_splits)
      then show ?thesis using rm by auto
    qed
  qed
qed


definition demo_Unmarshal :: "bytes \<Rightarrow> (string \<times> nat) list option" where
  "demo_Unmarshal b = (if b = [1] then Some [(''CN'', 7)] else None)"


text \<open>A database whose status cannot be read stops the program.\<close>

lemma stat_failure_panics:
  "filename \<in> set (gf_denied fs) \<Longrightarrow> shouldDownload fs interval now filename = Inl NilPanic"
  by (simp add: shouldDownload_def Stat_def)

end
