(* ===== verification/Outbounds.thy ===== *)
theory Outbounds
  imports Policy
begin

text \<open>
  Dialing through an outbound (\<^verbatim>\<open>outbound/socks5.go\<close>, \<^verbatim>\<open>outbound/direct.go\<close>, \<^verbatim>\<open>outbound/outbound.go\<close>): the order of
  dialing, the handshake with the proxy and its deadlines, what is closed when a step fails, and which
  failures are logged as warnings.

  The network is a list of open connections; how each of its operations ends is an argument. The SOCKS5
  handshake itself is the one of the \<^verbatim>\<open>sing\<close> library, so its outcome is an argument too.
\<close>

section \<open>Connections\<close>

record network =
  nw_open :: "nat list"
  nw_next :: nat

definition dial :: "string option \<Rightarrow> network \<Rightarrow> (string + nat) \<times> network" where
  "dial failure nw =
     (case failure of
        Some err \<Rightarrow> (Inl err, nw)
      | None \<Rightarrow> (Inr (nw_next nw), nw\<lparr>nw_open := nw_next nw # nw_open nw, nw_next := nw_next nw + 1\<rparr>))"

definition conn_Close :: "nat \<Rightarrow> network \<Rightarrow> network" where
  "conn_Close c nw = nw\<lparr>nw_open := remove1 c (nw_open nw)\<rparr>"

section \<open>SOCKS5\<close>

record SOCKS5_proxy =
  so_addr :: string
  so_username :: string
  so_password :: string

definition NewSOCKS5 :: "string \<Rightarrow> string \<Rightarrow> string \<Rightarrow> SOCKS5_proxy" where
  "NewSOCKS5 addr username password = \<lparr>so_addr = addr, so_username = username, so_password = password\<rparr>"

datatype socks_command = CommandConnect | CommandUDPAssociate

text \<open>The reply of a proxy; code 0 is success.\<close>

record socks_response =
  sr_ReplyCode :: byte
  sr_Bind :: Socksaddr

definition no_response :: socks_response where
  "no_response = \<lparr>sr_ReplyCode = 0, sr_Bind = \<lparr>sa_Addr = [], sa_Port = 0, sa_Fqdn = []\<rparr>\<rparr>"

text \<open>How the network answers one request: dialing the proxy, setting the deadline, the handshake, clearing the deadline,
  and dialing the relay.\<close>

record socks_outcome =
  oc_tcp :: "string option"
  oc_deadline :: "string option"
  oc_handshake :: "string \<Rightarrow> string \<Rightarrow> socks_command \<Rightarrow> Socksaddr \<Rightarrow> socks_response \<times> string option"
  oc_clear :: "string option"
  oc_udp :: "Socksaddr \<Rightarrow> string option"

definition clientHandshake :: "socks_outcome \<Rightarrow> SOCKS5_proxy \<Rightarrow> socks_command \<Rightarrow> Socksaddr \<Rightarrow> socks_response \<times> string option" where
  "clientHandshake oc s command destination =
     (case oc_deadline oc of
        Some err \<Rightarrow> (no_response, Some err)
      | None \<Rightarrow>
          (case oc_handshake oc (so_username s) (so_password s) command destination of
             (response, Some err) \<Rightarrow> (response, Some err)
           | (response, None) \<Rightarrow> (response, oc_clear oc)))"

definition negotiate ::
  "socks_outcome \<Rightarrow> SOCKS5_proxy \<Rightarrow> socks_command \<Rightarrow> Socksaddr \<Rightarrow> network \<Rightarrow> (nat option \<times> socks_response \<times> string option) \<times> network" where
  "negotiate oc s command destination nw =
     (case dial (oc_tcp oc) nw of
        (Inl err, nw) \<Rightarrow> ((None, no_response, Some err), nw)
      | (Inr conn, nw) \<Rightarrow>
          (case clientHandshake oc s command destination of
             (response, Some err) \<Rightarrow> ((None, response, Some err), conn_Close conn nw)
           | (response, None) \<Rightarrow> ((Some conn, response, None), nw)))"

datatype log_level = Debug | Warn

definition logFailure :: "bool \<Rightarrow> socks_command \<Rightarrow> socks_response \<Rightarrow> log_level" where
  "logFailure canceled command response =
     (let refusedConnect = (command = CommandConnect \<and> sr_ReplyCode response \<noteq> 0)
      in if refusedConnect \<or> canceled then Debug else Warn)"

text \<open>The result and the log of a request.\<close>

definition socks_handshake ::
  "socks_outcome \<Rightarrow> bool \<Rightarrow> SOCKS5_proxy \<Rightarrow> socks_command \<Rightarrow> Socksaddr \<Rightarrow> network \<Rightarrow>
   (string + nat \<times> socks_response) \<times> log_level list \<times> network" where
  "socks_handshake oc canceled s command destination nw =
     (case negotiate oc s command destination nw of
        ((conn, response, Some err), nw) \<Rightarrow> (Inl (''socks5 '' @ so_addr s @ '': '' @ err), [logFailure canceled command response], nw)
      | ((conn, response, None), nw) \<Rightarrow> (Inr (the conn, response), [], nw))"

definition SOCKS5_DialTCP :: "socks_outcome \<Rightarrow> bool \<Rightarrow> SOCKS5_proxy \<Rightarrow> Socksaddr \<Rightarrow> network \<Rightarrow> (string + nat) \<times> log_level list \<times> network" where
  "SOCKS5_DialTCP oc canceled s destination nw =
     (case socks_handshake oc canceled s CommandConnect destination nw of
        (Inl err, lg, nw) \<Rightarrow> (Inl err, lg, nw)
      | (Inr (conn, response), lg, nw) \<Rightarrow> (Inr conn, lg, nw))"

definition relayAddr :: "sing \<Rightarrow> Socksaddr \<Rightarrow> IP \<Rightarrow> Socksaddr" where
  "relayAddr sg bind proxy = (if IsUnspecified (sa_Addr bind) then sg_SocksaddrFrom sg (Unmap proxy) (sa_Port bind) else bind)"

text \<open>The association holds the control connection and the socket to the relay.\<close>

definition SOCKS5_ListenUDP ::
  "sing \<Rightarrow> socks_outcome \<Rightarrow> bool \<Rightarrow> IP \<Rightarrow> SOCKS5_proxy \<Rightarrow> network \<Rightarrow> (string + nat \<times> nat \<times> Socksaddr) \<times> log_level list \<times> network" where
  "SOCKS5_ListenUDP sg oc canceled proxyIP s nw =
     (case socks_handshake oc canceled s CommandUDPAssociate (sg_SocksaddrFrom sg (replicate 4 0) 0) nw of
        (Inl err, lg, nw) \<Rightarrow> (Inl err, lg, nw)
      | (Inr (control, response), lg, nw) \<Rightarrow>
          (let relay = relayAddr sg (sr_Bind response) proxyIP
           in case dial (oc_udp oc relay) nw of
                (Inl err, nw) \<Rightarrow>
                  (Inl (''socks5 '' @ so_addr s @ '': relay '' @ sg_String sg relay @ '': '' @ err),
                   lg @ [logFailure canceled CommandUDPAssociate no_response], conn_Close control nw)
              | (Inr udpConn, nw) \<Rightarrow> (Inr (control, udpConn, relay), lg, nw)))"

text \<open>An association is closed, with both its connections, when the control connection ends.\<close>

definition hold :: "nat \<Rightarrow> nat \<Rightarrow> network \<Rightarrow> network" where
  "hold control udpConn nw = conn_Close control (conn_Close udpConn nw)"

section \<open>Direct\<close>

definition Direct_DialTCP :: "string option \<Rightarrow> network \<Rightarrow> (string + nat) \<times> network" where
  "Direct_DialTCP outcome nw = dial outcome nw"

definition Direct_ListenUDP :: "string option \<Rightarrow> network \<Rightarrow> (string + nat) \<times> network" where
  "Direct_ListenUDP outcome nw = dial outcome nw"

section \<open>Claims\<close>

lemma socks_handshake_cases:
  assumes "socks_handshake oc canceled s command destination nw = (res, lg, nw')"
  shows "(\<exists>e. res = Inl (''socks5 '' @ so_addr s @ '': '' @ e)) \<and> nw_open nw' = nw_open nw \<and> (\<exists>r. lg = [logFailure canceled command r]) \<or>
    (\<exists>r. res = Inr (nw_next nw, r) \<and> nw_open nw' = nw_next nw # nw_open nw \<and> nw_next nw' = nw_next nw + 1 \<and> lg = [])"
  using assms by (auto simp: socks_handshake_def negotiate_def dial_def conn_Close_def split: option.splits prod.splits)

text \<open>C40. A proxy request leaves no connection behind. When dialing or listening through a SOCKS5 proxy fails, at
  whichever step, every connection opened on the way is closed again, the error names the proxy, and it
  is logged once, as a warning unless the client went away or the proxy refused to connect; when
  it succeeds exactly the returned connections are new and nothing is logged. Closing an
  association gives back both its connections.\<close>

theorem socks5_no_leak:
  "(case SOCKS5_DialTCP oc canceled s destination nw of
      (Inl err, lg, nw') \<Rightarrow> nw_open nw' = nw_open nw \<and> (\<exists>e. err = ''socks5 '' @ so_addr s @ '': '' @ e) \<and> length lg = 1 \<and> (canceled \<longrightarrow> lg = [Debug])
    | (Inr conn, lg, nw') \<Rightarrow> nw_open nw' = conn # nw_open nw \<and> lg = []) \<and>
   (case SOCKS5_ListenUDP sg oc canceled proxyIP s nw of
      (Inl err, lg, nw') \<Rightarrow> nw_open nw' = nw_open nw \<and> (\<exists>e. err = ''socks5 '' @ so_addr s @ '': '' @ e) \<and> lg = [if canceled then Debug else Warn]
    | (Inr (control, udpConn, relay), lg, nw') \<Rightarrow>
        nw_open nw' = udpConn # control # nw_open nw \<and> control \<noteq> udpConn \<and> lg = [] \<and>
        nw_open (hold control udpConn nw') = nw_open nw)"
proof
  obtain res lg nw1 where h: "socks_handshake oc canceled s CommandConnect destination nw = (res, lg, nw1)" by (metis prod_cases3)
  show "case SOCKS5_DialTCP oc canceled s destination nw of
      (Inl err, lg, nw') \<Rightarrow> nw_open nw' = nw_open nw \<and> (\<exists>e. err = ''socks5 '' @ so_addr s @ '': '' @ e) \<and> length lg = 1 \<and> (canceled \<longrightarrow> lg = [Debug])
    | (Inr conn, lg, nw') \<Rightarrow> nw_open nw' = conn # nw_open nw \<and> lg = []"
    using socks_handshake_cases [OF h] by (auto simp: SOCKS5_DialTCP_def h logFailure_def)
next
  obtain res lg nw1 where h: "socks_handshake oc canceled s CommandUDPAssociate (sg_SocksaddrFrom sg (replicate 4 0) 0) nw = (res, lg, nw1)"
    by (metis prod_cases3)
  show "case SOCKS5_ListenUDP sg oc canceled proxyIP s nw of
      (Inl err, lg, nw') \<Rightarrow> nw_open nw' = nw_open nw \<and> (\<exists>e. err = ''socks5 '' @ so_addr s @ '': '' @ e) \<and> lg = [if canceled then Debug else Warn]
    | (Inr (control, udpConn, relay), lg, nw') \<Rightarrow>
        nw_open nw' = udpConn # control # nw_open nw \<and> control \<noteq> udpConn \<and> lg = [] \<and>
        nw_open (hold control udpConn nw') = nw_open nw"
    using socks_handshake_cases [OF h]
    by (auto simp: SOCKS5_ListenUDP_def h logFailure_def Let_def dial_def conn_Close_def hold_def split: option.splits)
qed
definition refusing_proxy :: socks_outcome where
  "refusing_proxy = \<lparr>oc_tcp = None, oc_deadline = None, oc_handshake = (\<lambda>u pw c d. (no_response\<lparr>sr_ReplyCode := 5\<rparr>, Some ''refused'')),
     oc_clear = None, oc_udp = (\<lambda>a. None)\<rparr>"

theorem socks5_no_leak_witness:
  "case SOCKS5_DialTCP refusing_proxy True (NewSOCKS5 ''p:1080'' [] []) (sr_Bind no_response) \<lparr>nw_open = [4], nw_next = 5\<rparr> of
      (Inl err, lg, nw') \<Rightarrow> nw_open nw' = [4] \<and> length lg = 1 \<and> lg = [Debug]
    | (Inr conn, lg, nw') \<Rightarrow> nw_open nw' = [conn, 4] \<and> lg = []"
  using conjunct1 [OF socks5_no_leak [where oc = refusing_proxy and canceled = True and s = "NewSOCKS5 ''p:1080'' [] []"
      and destination = "sr_Bind no_response" and nw = "\<lparr>nw_open = [4], nw_next = 5\<rparr>"]]
  by (simp split: prod.splits sum.splits)

section \<open>Room for the header of a packet\<close>

text \<open>The association writes its header in front of the packet, in place. A packet buffer of the \<^verbatim>\<open>sing\<close> library: what is before
  its contents, the contents, and the operations \<^verbatim>\<open>WritePacket\<close> uses.\<close>

record 'b packet_buffers =
  pb_Start :: "'b \<Rightarrow> nat"
  pb_Bytes :: "'b \<Rightarrow> bytes"
  pb_NewSize :: "nat \<Rightarrow> 'b"
  pb_Extend :: "nat \<Rightarrow> 'b \<Rightarrow> 'b"
  pb_Write :: "bytes \<Rightarrow> 'b \<Rightarrow> 'b"
  pb_Advance :: "nat \<Rightarrow> 'b \<Rightarrow> 'b"

definition bufferWithHeadroom :: "'b packet_buffers \<Rightarrow> 'b \<Rightarrow> nat \<Rightarrow> 'b" where
  "bufferWithHeadroom pb buffer headroom =
     (let newBuffer = pb_NewSize pb (headroom + length (pb_Bytes pb buffer));
          newBuffer = pb_Extend pb headroom newBuffer;
          newBuffer = pb_Write pb (pb_Bytes pb buffer) newBuffer
      in pb_Advance pb headroom newBuffer)"

text \<open>What is handed to the association.\<close>

definition SOCKS5_WritePacket :: "'b packet_buffers \<Rightarrow> (Socksaddr \<Rightarrow> nat) \<Rightarrow> 'b \<Rightarrow> Socksaddr \<Rightarrow> 'b \<times> Socksaddr" where
  "SOCKS5_WritePacket pb AddrPortLen buffer destination =
     (let headroom = 3 + AddrPortLen destination
      in (if pb_Start pb buffer < headroom then bufferWithHeadroom pb buffer headroom else buffer, destination))"

text \<open>The documented behaviour of the buffer, as far as it fits: extending and writing append, advancing drops from the front.\<close>

definition buffer_laws :: "('b \<Rightarrow> nat) \<Rightarrow> 'b packet_buffers \<Rightarrow> bool" where
  "buffer_laws free pb \<longleftrightarrow>
     (\<forall>n. pb_Start pb (pb_NewSize pb n) = 0 \<and> pb_Bytes pb (pb_NewSize pb n) = [] \<and> n \<le> free (pb_NewSize pb n)) \<and>
     (\<forall>b n. n \<le> free b \<longrightarrow> (\<exists>x. length x = n \<and> pb_Bytes pb (pb_Extend pb n b) = pb_Bytes pb b @ x) \<and>
        pb_Start pb (pb_Extend pb n b) = pb_Start pb b \<and> free (pb_Extend pb n b) = free b - n) \<and>
     (\<forall>b x. length x \<le> free b \<longrightarrow> pb_Bytes pb (pb_Write pb x b) = pb_Bytes pb b @ x \<and> pb_Start pb (pb_Write pb x b) = pb_Start pb b) \<and>
     (\<forall>b n. n \<le> length (pb_Bytes pb b) \<longrightarrow> pb_Bytes pb (pb_Advance pb n b) = drop n (pb_Bytes pb b) \<and>
        pb_Start pb (pb_Advance pb n b) = pb_Start pb b + n)"

text \<open>A packet reaches the association unchanged, for the same destination, and with room for its header in front.\<close>

theorem packet_has_headroom:
  assumes "buffer_laws free pb" and "SOCKS5_WritePacket pb AddrPortLen buffer destination = (b, d)"
  shows "d = destination \<and> pb_Bytes pb b = pb_Bytes pb buffer \<and> 3 + AddrPortLen destination \<le> pb_Start pb b"
proof -
  let ?h = "3 + AddrPortLen destination" and ?x = "pb_Bytes pb buffer"
  let ?n = "pb_NewSize pb (?h + length ?x)"
  note laws = assms(1) [unfolded buffer_laws_def]
  have new: "pb_Start pb ?n = 0" "pb_Bytes pb ?n = []" "?h + length ?x \<le> free ?n" using laws by blast+
  have "?h \<le> free ?n" using new(3) by simp
  then obtain y where e: "length y = ?h" "pb_Bytes pb (pb_Extend pb ?h ?n) = y" "pb_Start pb (pb_Extend pb ?h ?n) = 0"
      "free (pb_Extend pb ?h ?n) = free ?n - ?h"
    using laws new by (metis append_Nil)
  have "length ?x \<le> free (pb_Extend pb ?h ?n)" using e(4) new(3) by simp
  then have w: "pb_Bytes pb (pb_Write pb ?x (pb_Extend pb ?h ?n)) = y @ ?x" "pb_Start pb (pb_Write pb ?x (pb_Extend pb ?h ?n)) = 0"
    using laws e by auto
  have "?h \<le> length (pb_Bytes pb (pb_Write pb ?x (pb_Extend pb ?h ?n)))" using w(1) e(1) by simp
  then have "pb_Bytes pb (bufferWithHeadroom pb buffer ?h) = ?x \<and> pb_Start pb (bufferWithHeadroom pb buffer ?h) = ?h"
    using laws w e(1) unfolding bufferWithHeadroom_def Let_def by simp
  then show ?thesis using assms(2) by (auto simp: SOCKS5_WritePacket_def Let_def split: if_splits)
qed

text \<open>A buffer as the number of bytes before its contents, the contents, and the room behind them.\<close>

definition list_buffers :: "(nat \<times> bytes \<times> nat) packet_buffers" where
  "list_buffers = \<lparr>pb_Start = fst, pb_Bytes = fst \<circ> snd, pb_NewSize = (\<lambda>n. (0, [], n)),
     pb_Extend = (\<lambda>n (s, b, f). (s, b @ replicate n 0, f - n)), pb_Write = (\<lambda>x (s, b, f). (s, b @ x, f - length x)),
     pb_Advance = (\<lambda>n (s, b, f). (s + n, drop n b, f))\<rparr>"

lemma list_buffers_laws: "buffer_laws (snd \<circ> snd) list_buffers"
  by (auto simp: buffer_laws_def list_buffers_def)

theorem packet_has_headroom_witness:
  "\<exists>b. SOCKS5_WritePacket list_buffers (\<lambda>d. 7) (0, [1, 2], 5) \<lparr>sa_Addr = [], sa_Port = 53, sa_Fqdn = []\<rparr> =
     (b, \<lparr>sa_Addr = [], sa_Port = 53, sa_Fqdn = []\<rparr>) \<and> pb_Bytes list_buffers b = [1, 2] \<and> 10 \<le> pb_Start list_buffers b"
proof -
  let ?d = "\<lparr>sa_Addr = [], sa_Port = 53, sa_Fqdn = []\<rparr>"
  obtain b d where b: "SOCKS5_WritePacket list_buffers (\<lambda>d. 7) (0, [1, 2], 5) ?d = (b, d)" by fastforce
  have x: "pb_Bytes list_buffers (0, [1, 2], 5) = [1, 2]" by (simp add: list_buffers_def)
  from packet_has_headroom [OF list_buffers_laws b] b x show ?thesis by simp
qed

end
