(* ===== verification/Stats_Text.thy ===== *)
theory Stats_Text
  imports Stats "HOL-Library.Multiset"
begin

text \<open>
  The text form of the list of live streams (\<^verbatim>\<open>stats/stream.go\<close>, \<^verbatim>\<open>WriteStreamDump\<close> of \<^verbatim>\<open>stats/registry.go\<close>): the columns of a
  row, the rounding of durations and the choice between text and JSON. The spelling of a rounded duration is
  a parameter. Padding to a width counts characters, which here are bytes.
\<close>

section \<open>Formatting\<close>

definition pad_left :: "nat \<Rightarrow> string \<Rightarrow> string" where
  "pad_left n s = replicate (n - length s) (CHR '' '') @ s"

definition pad_right :: "nat \<Rightarrow> string \<Rightarrow> string" where
  "pad_right n s = s @ replicate (n - length s) (CHR '' '')"

definition hex_upper :: string where
  "hex_upper = ''0123456789ABCDEF''"

text \<open>The verb \<^verbatim>\<open>%08X\<close> of a 32-bit word, most significant digit first.\<close>

definition format_08X :: "u32 \<Rightarrow> string" where
  "format_08X v = map (\<lambda>k. hex_upper ! (unat v div 16 ^ k mod 16)) (rev [0..<8])"

definition FormatInt :: "u64 \<Rightarrow> string" where
  "FormatInt v = (if sint v < 0 then CHR ''-'' # FormatUint (nat (- sint v)) else FormatUint (nat (sint v)))"

definition upper_char :: "char \<Rightarrow> char" where
  "upper_char c = (if 97 \<le> (of_char c :: nat) \<and> (of_char c :: nat) \<le> 122 then char_of ((of_char c :: nat) - 32) else c)"

definition ToUpper :: "string \<Rightarrow> string" where
  "ToUpper s = map upper_char s"

definition maxDuration :: int where
  "maxDuration = 2 ^ 63 - 1"

definition minDuration :: int where
  "minDuration = - (2 ^ 63)"

text \<open>\<^verbatim>\<open>Duration.Round\<close>: to the nearest multiple of \<open>m\<close>, halves away from zero, saturating.\<close>

definition Duration_Round :: "int \<Rightarrow> int \<Rightarrow> int" where
  "Duration_Round d m =
     (if m \<le> 0 then d
      else let r = \<bar>d\<bar> mod m
           in if d < 0 then (if r + r < m then d + r else if d - m + r \<ge> minDuration then d - m + r else minDuration)
              else if r + r < m then d - r
              else if d + m - r \<le> maxDuration then d + m - r else maxDuration)"

definition Millisecond :: int where "Millisecond = 1000000"
definition Second :: int where "Second = 1000000000"
definition Minute :: int where "Minute = 60000000000"

definition roundLifetime :: "int \<Rightarrow> int" where
  "roundLifetime d = (if d < 10 * Minute then Duration_Round d Millisecond else Duration_Round d Second)"

text \<open>The ten parameters in the order of the code; they are printed in another order.\<close>

record dump_row =
  dr_state :: string
  dr_auth :: string
  dr_connection :: string
  dr_stream :: string
  dr_reqAddr :: string
  dr_hookedReqAddr :: string
  dr_tx :: string
  dr_rx :: string
  dr_lifetime :: string
  dr_lastActive :: string

definition formatDumpStreamLine :: "dump_row \<Rightarrow> string" where
  "formatDumpStreamLine d =
     Join [pad_right 8 (dr_state d), pad_right 12 (dr_auth d), pad_left 12 (dr_connection d), pad_left 8 (dr_stream d),
           pad_left 12 (dr_tx d), pad_left 12 (dr_rx d), pad_left 12 (dr_lifetime d), pad_left 12 (dr_lastActive d),
           pad_right 16 (dr_reqAddr d), dr_hookedReqAddr d] '' ''"

definition StreamEntry_line :: "(int \<Rightarrow> string) \<Rightarrow> int \<Rightarrow> StreamEntry \<Rightarrow> string" where
  "StreamEntry_line duration now e =
     formatDumpStreamLine
       \<lparr>dr_state = ToUpper (en_State e), dr_auth = en_Auth e, dr_connection = format_08X (en_Connection e),
        dr_stream = FormatUint (unat (en_Stream e)), dr_reqAddr = (if en_ReqAddr e = [] then ''-'' else en_ReqAddr e),
        dr_hookedReqAddr = (if en_HookedReqAddr e = [] then ''-'' else en_HookedReqAddr e), dr_tx = FormatInt (en_Tx e),
        dr_rx = FormatInt (en_Rx e), dr_lifetime = duration (roundLifetime (now - en_initialTime e)),
        dr_lastActive = duration (roundLifetime (now - en_lastActiveTime e))\<rparr>"

datatype stream_dump = PlainText "string list" | JSONStreams "StreamEntry list"

definition WriteStreamDump :: "(int \<Rightarrow> string) \<Rightarrow> int \<Rightarrow> string \<Rightarrow> statsRegistry \<Rightarrow> stream_dump" where
  "WriteStreamDump duration now accept r =
     (let entries = DumpStreams r
      in if Contains accept ''text/plain'' then
           PlainText (formatDumpStreamLine
               \<lparr>dr_state = ''State'', dr_auth = ''Auth'', dr_connection = ''Connection'', dr_stream = ''Stream'', dr_reqAddr = ''Req-Addr'',
                dr_hookedReqAddr = ''Hooked-Req-Addr'', dr_tx = ''TX-Bytes'', dr_rx = ''RX-Bytes'', dr_lifetime = ''Lifetime'',
                dr_lastActive = ''Last-Active''\<rparr> # map (StreamEntry_line duration now) entries)
         else JSONStreams entries)"

section \<open>Properties\<close>

lemma Duration_Round_near:
  assumes "0 < m" "minDuration \<le> d" "d \<le> maxDuration"
  shows "2 * \<bar>Duration_Round d m - d\<bar> \<le> m \<and> minDuration \<le> Duration_Round d m \<and> Duration_Round d m \<le> maxDuration"
proof -
  define r where "r = \<bar>d\<bar> mod m"
  have r: "0 \<le> r" "r < m" "r \<le> \<bar>d\<bar>" using assms(1) by (simp_all add: r_def zmod_le_nonneg_dividend)
  have "Duration_Round d m =
      (if d < 0 then (if r + r < m then d + r else if d - m + r \<ge> minDuration then d - m + r else minDuration)
       else if r + r < m then d - r else if d + m - r \<le> maxDuration then d + m - r else maxDuration)"
    using assms(1) unfolding Duration_Round_def r_def [symmetric] by simp
  then show ?thesis using assms(2,3) r unfolding maxDuration_def minDuration_def by (auto split: if_splits)
qed

lemma length_pad [simp]: "length (pad_left n s) = max n (length s)" "length (pad_right n s) = max n (length s)"
  by (simp_all add: pad_left_def pad_right_def)

lemma length_format_08X [simp]: "length (format_08X v) = 8"
  by (simp add: format_08X_def)

text \<open>The dump lists exactly the live streams, in order of user, connection and stream, whatever the form.\<close>

lemma DumpStreams_sorted:
  "sorted (map (\<lambda>e. (en_Auth e, en_Connection e, en_Stream e)) (DumpStreams r)) \<and>
   mset (DumpStreams r) = mset (map (\<lambda>s. StreamStats_entry (rg_streamStore r ! s)) (rg_streams r))"
  by (simp add: DumpStreams_def)

lemma WriteStreamDump_rows:
  "case WriteStreamDump duration now accept r of
     PlainText ls \<Rightarrow> length ls = Suc (length (rg_streams r)) | JSONStreams es \<Rightarrow> es = DumpStreams r"
  by (auto simp: WriteStreamDump_def DumpStreams_def Let_def)
end
