(* ===== verification/Spec2Isabelle.thy ===== *)
theory Spec2Isabelle
  imports Request Serve Helpers Pipe Geo_Loader Outbounds Stats_Text
begin

text \<open>
  A verification development for anytls-go, a proxy that carries many streams over one TLS connection and hides
  their sizes with padding.

  \<^bold>\<open>The program.\<close> A client accepts local proxy connections and opens one stream for each on a session; sessions are
  pooled and reused (\<^verbatim>\<open>proxy/session/client.go\<close>). A session frames the data of its streams, pads the first packets after
  a scheme, and demultiplexes what it receives (\<^verbatim>\<open>proxy/session/session.go\<close>, \<^verbatim>\<open>stream.go\<close>, \<^verbatim>\<open>frame.go\<close>,
  \<^verbatim>\<open>proxy/padding\<close>, \<^verbatim>\<open>proxy/pipe\<close>). The server authenticates the first packet of a connection (\<^verbatim>\<open>auth\<close>,
  \<^verbatim>\<open>cmd/server/inbound_tcp.go\<close>), counts and throttles the connection (\<^verbatim>\<open>stats\<close>, \<^verbatim>\<open>limiter\<close>), and sends every stream
  to an outbound chosen by rules and a filter of private addresses (\<^verbatim>\<open>acl\<close>, \<^verbatim>\<open>resolver\<close>, \<^verbatim>\<open>outbound\<close>,
  \<^verbatim>\<open>cmd/server/acl.go\<close>), all set up from a configuration file (\<^verbatim>\<open>config\<close>).

  \<^bold>\<open>The theories\<close>, with the sources they model.

  \<^item> \<open>Prelude\<close>: bytes, words, errors, association lists. \<open>Go_Strings\<close>: the functions of \<^verbatim>\<open>strings\<close>, \<^verbatim>\<open>strconv\<close> and \<^verbatim>\<open>net\<close> the
    sources use, with their round trips. \<open>Net_IP\<close>: IP addresses and networks as \<^verbatim>\<open>net\<close> and \<^verbatim>\<open>netip\<close> have them.
  \<^item> \<open>Frame\<close>, \<open>String_Map\<close>, \<open>Padding\<close>: \<^verbatim>\<open>frame.go\<close>, \<^verbatim>\<open>util/string_map.go\<close>, \<^verbatim>\<open>padding.go\<close>. \<open>Conn\<close>: a network connection and the
    throttled one of \<^verbatim>\<open>limiter/conn.go\<close>.
  \<^item> \<open>Session_Core\<close> (state, closing, the write path), \<open>Session_Write\<close> (what it writes), \<open>Stream\<close> (\<^verbatim>\<open>stream.go\<close>), \<open>Session_Loop\<close> and
    \<open>Session_Recv\<close> (the receive loop, one definition per frame command), \<open>Session_Inv\<close>, \<open>Session_Steps\<close>, \<open>Session_Delivery\<close>,
    \<open>Session_Protocol\<close> (the properties of a session). A session is a record, a stream is an index into its store.
  \<^item> \<open>Pipe\<close>: \<^verbatim>\<open>proxy/pipe\<close>, concurrent calls as threads of a step relation.
  \<^item> \<open>Session_Script\<close>, \<open>Request\<close>: a client's whole use of a session, and the way of a request from the client to the handler
    of the server.
  \<^item> \<open>Client\<close>, \<open>Client_Inv\<close>, \<open>Client_Keep\<close>: the pool of sessions. \<open>Client_Options\<close>, \<open>Local_Proxy\<close>: \<^verbatim>\<open>cmd/client\<close>, its start, the
    requests it carries over the pool and the end of their streams. \<open>Helpers\<close>: \<^verbatim>\<open>util/deadline.go\<close>, \<^verbatim>\<open>routine.go\<close>, \<^verbatim>\<open>mkcert.go\<close>.
  \<^item> \<open>ACL_Match\<close>, \<open>ACL_Rules\<close>: matchers, parsing, compiling and the cached decisions of \<^verbatim>\<open>acl\<close>. \<open>Geo_Loader\<close>: \<^verbatim>\<open>acl/geoloader.go\<close>.
  \<^item> \<open>Config\<close>: \<^verbatim>\<open>config/config.go\<close>. \<open>Resolver\<close>: \<^verbatim>\<open>resolver\<close>. \<open>Policy\<close>, \<open>Policy_Safety\<close>, \<open>Policy_Relay\<close>: \<^verbatim>\<open>cmd/server/acl.go\<close>,
    \<^verbatim>\<open>private.go\<close>, \<^verbatim>\<open>outbound.go\<close>, \<^verbatim>\<open>outbound_tcp.go\<close>. \<open>Outbounds\<close>: \<^verbatim>\<open>outbound\<close>.
  \<^item> \<open>Devices\<close>, \<open>Limiter\<close>, \<open>Stats\<close>, \<open>Stats_Traffic\<close>, \<open>Stats_Text\<close>: the registries of \<^verbatim>\<open>limiter\<close> and \<^verbatim>\<open>stats\<close>. \<open>Auth\<close>: \<^verbatim>\<open>auth\<close> and the choice
    \<^verbatim>\<open>main\<close> makes. \<open>Handshake\<close>: the first packet on both sides. \<open>Server\<close>, \<open>Serve\<close>: \<^verbatim>\<open>inbound_tcp.go\<close> after the handshake,
    and the handler as a whole. \<open>Startup\<close>: \<^verbatim>\<open>cmd/server/main.go\<close>. \<open>Certificates\<close>: \<^verbatim>\<open>util/tls_cert.go\<close>.

  \<^bold>\<open>Interfaces\<close> are locales. \<open>resolver\<close> is what the policy relies on, interpreted by the standard and the HTTPS resolver;
  \<open>refcounted\<close> is what one acquire and one release of a shared device promise, interpreted by the limiter and by the
  statistics, and \<open>Server\<close> composes both; \<open>authenticator\<close> is the contract of \<^verbatim>\<open>auth.go\<close>, interpreted by every authenticator
  and by the chains \<^verbatim>\<open>main\<close> builds; \<open>write_rel\<close>, \<open>operation_rel\<close> and \<open>session_rel\<close> say what a relation between states of a session
  must survive to hold over every step of it, interpreted by the relations of the pool, of the hooks, of ageing streams and
  of settled connections.

  \<^bold>\<open>What is shown.\<close> Sessions: data written on any streams arrives on the same streams, complete and in order, through padding
  and framing; the invariant of every reachable session; a closed session sends nothing; the receive loop ends on
  every input. Pipes hand bytes over in order under any concurrency. Clients: the pool only reuses live idle
  sessions, none is ever lost, and a request gives its stream back. End to end: what a client that knows the password sends reaches the
  handlers of the server, stream by stream. Start-up: the server fails only for named reasons, and else serves as configured;
  a connection leaves nothing behind.
  Admission: exactly the holders of an accepted credential get in; cached answers are recent answers of the
  backend; the load on it is bounded. Registries: they know exactly the live connections and streams, share
  buckets and identifiers per device, and lose no traffic. Policy: decisions are those of the first matching rule, the
  cache never shows, private addresses are not reached. Configuration: what loads is exactly what is usable.
  Files: a bad certificate or geo database never displaces a good one.

  \<^bold>\<open>Modelling choices.\<close> Go errors are values of sum or option types. Shared objects are indices into stores. Counters, ports and
  wire fields are words. Goroutines interleave at the granularity of operations, and of single channel and lock operations
  in \<open>Pipe\<close> and for \<open>limited_step\<close> in \<open>Auth\<close>. Loops are recursive functions with termination proofs; the one that may not
  end, drawing an identifier, is a partial function, with a proof that it ends for a fair random source. No fuel is
  used. Third-party code (the \<^verbatim>\<open>sing\<close> library, DNS messages, LRU caches, the skip list, rate limiters, YAML, IDNA, regular
  expressions, protocol buffers) and cryptography are parameters, and what a property needs of them is a named hypothesis
  with an instance in its witness.

  \<^bold>\<open>Not modelled.\<close> The SOCKS and HTTP protocols the client speaks locally and the framing of datagrams, which are calls into the
  \<^verbatim>\<open>sing\<close> library and parameters here; the JSON encoding of the statistics replies and the HTTP server that sends them; TLS and
  cryptography, which are parameters; the deadlines of a stream and of a packet connection, which are passed on to the pipe and
  the socket; signals and logging; generated code and the test server.
\<close>

end
